(* ===== verification/Foa_Prelude.thy ===== *)
theory Foa_Prelude
  imports Main "HOL-Library.Word" "HOL-Library.Multiset"
begin

text \<open>
  Shared material of the development: the machine integer types of the Rust code, its
  panics as values, the slice accesses of the standard library, and the two interfaces
  that several components share. The interfaces are

  \<^item> \<open>fifo_channel\<close>, the documented behaviour of the bounded FIFO channel that the stack takes
    from a third-party package: the operations are arguments of the definitions that use
    them, the predicate is the hypothesis their theorems carry;
  \<^item> the locale \<open>allocator\<close>, the contract of everything that hands out exclusive resources
    (TX buffers, hardware key slots, receive buffer records);
  \<^item> the locale \<open>replay_guard\<close>, the contract of every counter that rejects replayed
    messages (CCMP packet numbers, EAPOL replay counters);
  \<^item> the locale \<open>bounded_fifo\<close>, the contract of a bounded queue that panics when it is full.
\<close>

section \<open>Machine integers, panics, slices\<close>

type_synonym u8 = "8 word"
type_synonym u16 = "16 word"
type_synonym u32 = "32 word"
type_synonym u64 = "64 word"
type_synonym bytes = "u8 list"
type_synonym mac_address = "u8 list"

named_theorems foa_defs \<open>definitions that component proofs unfold together\<close>
named_theorems foa_inv \<open>invariant preservation lemmas\<close>

text \<open>A Rust panic is a value that carries the message of the source.\<close>

datatype panic = Panic string

text \<open>The result of polling a future once.\<close>

datatype 'a poll = Pending | Ready 'a

text \<open>\<open>u32::saturating_add(1)\<close> and \<open>checked_add(1)\<close> of the standard library.\<close>

definition saturating_inc :: "'n::len word \<Rightarrow> 'n word" where
  "saturating_inc x = (if x = - 1 then x else x + 1)"

definition checked_inc :: "'n::len word \<Rightarrow> 'n word option" where
  "checked_inc x = (if x = - 1 then None else Some (x + 1))"

lemma word_max_unat: "unat (- 1 :: 'n::len word) = 2 ^ LENGTH('n) - 1"
  by (simp add: unsigned_minus_1_eq_mask mask_eq_exp_minus_1)

lemma unat_inc: "x \<noteq> - 1 \<Longrightarrow> unat (x + 1) = unat x + 1" for x :: "'n::len word"
proof -
  assume "x \<noteq> - 1"
  then have "unat x \<noteq> unat (- 1 :: 'n word)" by (metis unsigned_word_eqI)
  moreover have "unat x < 2 ^ LENGTH('n)" by (rule unsigned_less)
  ultimately have "unat x + 1 < 2 ^ LENGTH('n)" unfolding word_max_unat by linarith
  then show ?thesis by (simp add: unat_word_ariths)
qed

lemma checked_inc_Some [simp]: "checked_inc x = Some y \<Longrightarrow> unat y = unat x + 1"
  by (auto simp: checked_inc_def unat_inc split: if_splits)

lemma checked_inc_None: "checked_inc x = None \<longleftrightarrow> x = - 1"
  by (simp add: checked_inc_def)

lemma saturating_inc_le: "unat x \<le> unat (saturating_inc x)"
  by (simp add: saturating_inc_def unat_inc)

text \<open>Slice accesses that return \<open>None\<close> out of range: \<open>get(a..b)\<close>, \<open>get(..b)\<close>,
  \<open>get(a..)\<close> and \<open>get(i)\<close>.\<close>

definition get_range :: "nat \<Rightarrow> nat \<Rightarrow> 'a list \<Rightarrow> 'a list option" where
  "get_range a b xs = (if a \<le> b \<and> b \<le> length xs then Some (take (b - a) (drop a xs)) else None)"

definition get_to :: "nat \<Rightarrow> 'a list \<Rightarrow> 'a list option" where
  "get_to b xs = get_range 0 b xs"

definition get_from :: "nat \<Rightarrow> 'a list \<Rightarrow> 'a list option" where
  "get_from a xs = get_range a (length xs) xs"

definition get_at :: "nat \<Rightarrow> 'a list \<Rightarrow> 'a option" where
  "get_at i xs = (if i < length xs then Some (xs ! i) else None)"

lemma get_range_Some:
  "get_range a b xs = Some ys \<longleftrightarrow> a \<le> b \<and> b \<le> length xs \<and> ys = take (b - a) (drop a xs)"
  by (auto simp: get_range_def)

lemma get_range_length: "get_range a b xs = Some ys \<Longrightarrow> length ys = b - a"
  by (auto simp: get_range_Some)

lemma get_range_nth: "get_range a b xs = Some ys \<Longrightarrow> i < b - a \<Longrightarrow> ys ! i = xs ! (a + i)"
  by (auto simp: get_range_Some)

lemma get_at_Some: "get_at i xs = Some x \<longleftrightarrow> i < length xs \<and> xs ! i = x"
  by (auto simp: get_at_def)

lemmas slice_defs = get_range_def get_to_def get_from_def get_at_def

text \<open>\<open>u16::from_be_bytes\<close> read as a number.\<close>

definition be16 :: "u8 \<Rightarrow> u8 \<Rightarrow> nat" where
  "be16 hi lo = unat hi * 256 + unat lo"

lemma unat_u8_less [simp]: "unat (x :: u8) < 256"
  using unsigned_less [of x] by simp

lemma be16_less: "be16 hi lo < 65536"
  using unat_u8_less [of hi] unat_u8_less [of lo] unfolding be16_def by linarith

text \<open>Rust's \<open>Iterator::find\<close> over an index range.\<close>

definition find_index :: "(nat \<Rightarrow> bool) \<Rightarrow> nat \<Rightarrow> nat option" where
  "find_index p n = find p [0..<n]"

lemma find_index_Some:
  "find_index p n = Some i \<longleftrightarrow> i < n \<and> p i \<and> (\<forall>j<i. \<not> p j)"
proof -
  have upt: "j < n \<Longrightarrow> [0..<n] ! j = j" for j by simp
  show ?thesis
    unfolding find_index_def find_Some_iff using upt by (auto intro!: exI [of _ i])
qed

lemma find_index_None: "find_index p n = None \<longleftrightarrow> (\<forall>i<n. \<not> p i)"
  by (auto simp: find_index_def find_None_iff)

section \<open>The bounded FIFO channel the stack is built on\<close>

text \<open>
  The stack keeps its queues in a bounded channel of a third-party package. Its operations
  are parameters of the model, collected in a record; \<open>fifo_channel cap view ch\<close> is what its
  documentation promises and the code relies on: \<open>view\<close> reads the elements in order, a
  send appends while fewer than \<open>cap\<close> elements wait and fails otherwise, a receive takes the
  oldest element.
\<close>

record ('q, 'a) channel_ops =
  ch_new :: 'q
  ch_try_send :: "'q \<Rightarrow> 'a \<Rightarrow> 'q option"
  ch_try_receive :: "'q \<Rightarrow> ('a \<times> 'q) option"
  ch_clear :: "'q \<Rightarrow> 'q"
  ch_len :: "'q \<Rightarrow> nat"

definition fifo_channel :: "nat \<Rightarrow> ('q \<Rightarrow> 'a list) \<Rightarrow> ('q, 'a) channel_ops \<Rightarrow> bool" where
  "fifo_channel cap view ch \<longleftrightarrow>
     view (ch_new ch) = [] \<and>
     (\<forall>q x. length (view q) < cap \<longrightarrow>
        (\<exists>q'. ch_try_send ch q x = Some q' \<and> view q' = view q @ [x])) \<and>
     (\<forall>q x. \<not> length (view q) < cap \<longrightarrow> ch_try_send ch q x = None) \<and>
     (\<forall>q. view q = [] \<longrightarrow> ch_try_receive ch q = None) \<and>
     (\<forall>q x xs. view q = x # xs \<longrightarrow>
        (\<exists>q'. ch_try_receive ch q = Some (x, q') \<and> view q' = xs)) \<and>
     (\<forall>q. view (ch_clear ch q) = []) \<and>
     (\<forall>q. ch_len ch q = length (view q))"

lemma fifo_channelD:
  assumes "fifo_channel cap view ch"
  shows fifo_new: "view (ch_new ch) = []"
    and fifo_send: "\<And>q x. length (view q) < cap \<Longrightarrow>
          \<exists>q'. ch_try_send ch q x = Some q' \<and> view q' = view q @ [x]"
    and fifo_send_full: "\<And>q x. \<not> length (view q) < cap \<Longrightarrow> ch_try_send ch q x = None"
    and fifo_receive_empty: "\<And>q. view q = [] \<Longrightarrow> ch_try_receive ch q = None"
    and fifo_receive: "\<And>q x xs. view q = x # xs \<Longrightarrow>
          \<exists>q'. ch_try_receive ch q = Some (x, q') \<and> view q' = xs"
    and fifo_clear: "\<And>q. view (ch_clear ch q) = []"
    and fifo_len: "\<And>q. ch_len ch q = length (view q)"
  using assms unfolding fifo_channel_def by blast+

lemma fifo_send_Some:
  assumes "fifo_channel cap view ch" "ch_try_send ch q x = Some q'"
  shows "view q' = view q @ [x]" and "length (view q) < cap"
proof -
  show less: "length (view q) < cap"
    using assms fifo_send_full by fastforce
  show "view q' = view q @ [x]"
    using fifo_send [OF assms(1) less, of x] assms(2) by auto
qed

lemma fifo_receive_Some:
  assumes "fifo_channel cap view ch" "ch_try_receive ch q = Some (x, q')"
  shows "view q = x # view q'"
proof (cases "view q")
  case Nil
  then show ?thesis using assms fifo_receive_empty by fastforce
next
  case (Cons y ys)
  then show ?thesis using fifo_receive [OF assms(1) Cons] assms(2) by auto
qed

text \<open>The list channel: the documented behaviour can hold.\<close>

definition list_channel :: "nat \<Rightarrow> ('a list, 'a) channel_ops" where
  "list_channel cap =
     \<lparr>ch_new = [],
      ch_try_send = (\<lambda>q x. if length q < cap then Some (q @ [x]) else None),
      ch_try_receive = (\<lambda>q. case q of [] \<Rightarrow> None | x # xs \<Rightarrow> Some (x, xs)),
      ch_clear = (\<lambda>_. []),
      ch_len = length\<rparr>"

lemma list_channel_fifo: "fifo_channel cap (\<lambda>q. q) (list_channel cap)"
  by (auto simp: fifo_channel_def list_channel_def)

section \<open>The contract of an allocator\<close>

text \<open>Acquiring \<open>n\<close> times in a row, as the connection setup does with key slots, and giving
  a list of resources back.\<close>

fun acquire_n :: "('s \<Rightarrow> ('h \<times> 's) option) \<Rightarrow> nat \<Rightarrow> 's \<Rightarrow> 'h option list \<times> 's" where
  "acquire_n acq 0 s = ([], s)"
| "acquire_n acq (Suc n) s =
     (case acq s of
        None \<Rightarrow> (let (hs, s') = acquire_n acq n s in (None # hs, s'))
      | Some (h, t) \<Rightarrow> (let (hs, s') = acquire_n acq n t in (Some h # hs, s')))"

fun release_all :: "('h \<Rightarrow> 's \<Rightarrow> 's) \<Rightarrow> 'h list \<Rightarrow> 's \<Rightarrow> 's" where
  "release_all rel [] s = s"
| "release_all rel (h # hs) s = release_all rel hs (rel h s)"

definition granted :: "'h option list \<Rightarrow> 'h list" where
  "granted hs = map the (filter (\<lambda>h. h \<noteq> None) hs)"

lemma granted_simps [simp]:
  "granted [] = []" "granted (None # hs) = granted hs" "granted (Some h # hs) = h # granted hs"
  by (simp_all add: granted_def)

text \<open>
  \<open>held s\<close> is the set of resources handed out in state \<open>s\<close>, \<open>pool\<close> the set of all of
  them. An allocation returns a resource nobody holds and fails only when all are held; a
  release gives a held one back.
\<close>

locale allocator =
  fixes acquire :: "'s \<Rightarrow> ('h \<times> 's) option"
    and release :: "'h \<Rightarrow> 's \<Rightarrow> 's"
    and held :: "'s \<Rightarrow> 'h set"
    and pool :: "'h set"
    and invar :: "'s \<Rightarrow> bool"
  assumes held_pool: "invar s \<Longrightarrow> held s \<subseteq> pool"
    and acquire_fresh: "invar s \<Longrightarrow> acquire s = Some (h, s') \<Longrightarrow>
          h \<in> pool - held s \<and> held s' = insert h (held s) \<and> invar s'"
    and acquire_None: "invar s \<Longrightarrow> acquire s = None \<Longrightarrow> held s = pool"
    and release_held: "invar s \<Longrightarrow> h \<in> held s \<Longrightarrow>
          held (release h s) = held s - {h} \<and> invar (release h s)"
begin

text \<open>Resources handed out in a row are distinct, new, and recorded as held.\<close>

lemma acquire_n_exclusive:
  "invar s \<Longrightarrow> acquire_n acquire n s = (hs, s') \<Longrightarrow>
     invar s' \<and> distinct (granted hs) \<and> set (granted hs) \<inter> held s = {} \<and>
     held s' = held s \<union> set (granted hs)"
proof (induction n arbitrary: s hs s')
  case 0
  then show ?case by simp
next
  case (Suc n)
  show ?case
  proof (cases "acquire s")
    case None
    obtain gs where gs: "acquire_n acquire n s = (gs, s')" "hs = None # gs"
      using Suc.prems(2) None by (auto simp: Let_def split: prod.splits)
    show ?thesis using Suc.IH [OF Suc.prems(1) gs(1)] gs(2) by simp
  next
    case (Some p)
    obtain h t where p: "p = (h, t)" by fastforce
    obtain gs where gs: "acquire_n acquire n t = (gs, s')" "hs = Some h # gs"
      using Suc.prems(2) Some p by (auto simp: Let_def split: prod.splits)
    have fresh: "h \<in> pool - held s" "held t = insert h (held s)" "invar t"
      using acquire_fresh [OF Suc.prems(1)] Some p by auto
    show ?thesis using Suc.IH [OF fresh(3) gs(1)] fresh gs(2) by auto
  qed
qed

text \<open>Giving back everything that was handed out restores the set of held resources.\<close>

lemma release_all_held:
  "invar s \<Longrightarrow> distinct hs \<Longrightarrow> set hs \<subseteq> held s \<Longrightarrow>
     invar (release_all release hs s) \<and> held (release_all release hs s) = held s - set hs"
proof (induction hs arbitrary: s)
  case Nil
  then show ?case by simp
next
  case (Cons h hs)
  have rel: "held (release h s) = held s - {h}" "invar (release h s)"
    using release_held Cons.prems by auto
  have "set hs \<subseteq> held (release h s)" using Cons.prems rel by auto
  then show ?case using Cons.IH [of "release h s"] rel Cons.prems by auto
qed

lemma acquire_release_roundtrip:
  assumes "invar s" "acquire_n acquire n s = (hs, s')"
  shows "held (release_all release (granted hs) s') = held s"
proof -
  have ex: "invar s'" "distinct (granted hs)" "set (granted hs) \<inter> held s = {}"
    "held s' = held s \<union> set (granted hs)"
    using acquire_n_exclusive [OF assms] by auto
  then show ?thesis using release_all_held [of s' "granted hs"] by auto
qed

end

section \<open>The contract of a replay counter\<close>

text \<open>The numbers a checker accepts out of a sequence of arrivals.\<close>

fun accepted :: "('s \<Rightarrow> nat \<Rightarrow> bool \<times> 's) \<Rightarrow> 's \<Rightarrow> nat list \<Rightarrow> nat list" where
  "accepted chk s [] = []"
| "accepted chk s (n # ns) =
     (case chk s n of (ok, s') \<Rightarrow> (if ok then n # accepted chk s' ns else accepted chk s' ns))"

text \<open>
  \<open>check s n\<close> decides whether the message numbered \<open>n\<close> is accepted and returns the state
  afterwards. Acceptance needs a number above everything accepted before; a rejected
  message changes nothing of the counter.
\<close>

locale replay_guard =
  fixes check :: "'s \<Rightarrow> nat \<Rightarrow> bool \<times> 's"
    and floor :: "'s \<Rightarrow> nat"
  assumes check_accept: "check s n = (True, s') \<Longrightarrow> floor s < n \<and> floor s' = n"
    and check_reject: "check s n = (False, s') \<Longrightarrow> floor s' = floor s"
begin

lemma accepted_above: "n \<in> set (accepted check s ns) \<Longrightarrow> floor s < n"
proof (induction ns arbitrary: s)
  case Nil
  then show ?case by simp
next
  case (Cons m ms)
  obtain ok s' where c: "check s m = (ok, s')" by fastforce
  show ?case
  proof (cases ok)
    case True
    have "floor s < m" "floor s' = m" using check_accept c True by auto
    then show ?thesis using Cons c True by fastforce
  next
    case False
    then have "floor s' = floor s" using check_reject c by simp
    then show ?thesis using Cons.IH [of s'] Cons.prems c False by simp
  qed
qed

text \<open>Whatever sequence of numbers arrives, the accepted ones are strictly increasing.\<close>

lemma accepted_increasing: "sorted_wrt (<) (accepted check s ns)"
proof (induction ns arbitrary: s)
  case Nil
  then show ?case by simp
next
  case (Cons m ms)
  obtain ok s' where c: "check s m = (ok, s')" by fastforce
  show ?case
  proof (cases ok)
    case True
    then have "floor s' = m" using check_accept c by simp
    then show ?thesis using Cons.IH [of s'] c True accepted_above [of _ s' ms] by auto
  next
    case False
    then show ?thesis using Cons.IH [of s'] c by simp
  qed
qed

lemma accepted_distinct: "distinct (accepted check s ns)"
  using accepted_increasing strict_sorted_iff by blast

end

section \<open>The contract of a bounded queue\<close>

fun enq_all :: "('a \<Rightarrow> 'q \<Rightarrow> 'q option) \<Rightarrow> 'a list \<Rightarrow> 'q \<Rightarrow> 'q option" where
  "enq_all put [] q = Some q"
| "enq_all put (x # xs) q = (case put x q of None \<Rightarrow> None | Some q' \<Rightarrow> enq_all put xs q')"

fun deq_n :: "('q \<Rightarrow> ('a \<times> 'q) option) \<Rightarrow> nat \<Rightarrow> 'q \<Rightarrow> 'a list" where
  "deq_n get 0 q = []"
| "deq_n get (Suc n) q = (case get q of None \<Rightarrow> [] | Some (x, q') \<Rightarrow> x # deq_n get n q')"

locale bounded_fifo =
  fixes enq :: "'a \<Rightarrow> 'q \<Rightarrow> 'q option"
    and deq :: "'q \<Rightarrow> ('a \<times> 'q) option"
    and contents :: "'q \<Rightarrow> 'a list"
    and room :: "'q \<Rightarrow> nat"
    and invar :: "'q \<Rightarrow> bool"
  assumes enq_ok: "invar q \<Longrightarrow> 0 < room q \<Longrightarrow>
          \<exists>q'. enq x q = Some q' \<and> invar q' \<and> contents q' = contents q @ [x] \<and> room q' = room q - 1"
    and deq_ok: "invar q \<Longrightarrow> contents q = x # xs \<Longrightarrow>
          \<exists>q'. deq q = Some (x, q') \<and> invar q' \<and> contents q' = xs"
    and deq_empty: "invar q \<Longrightarrow> contents q = [] \<Longrightarrow> deq q = None"
begin

lemma enq_all_ok:
  "invar q \<Longrightarrow> length xs \<le> room q \<Longrightarrow>
     \<exists>q'. enq_all enq xs q = Some q' \<and> invar q' \<and> contents q' = contents q @ xs"
proof (induction xs arbitrary: q)
  case Nil
  then show ?case by simp
next
  case (Cons x xs)
  obtain p where p: "enq x q = Some p" "invar p" "contents p = contents q @ [x]"
    "room p = room q - 1"
    using enq_ok Cons.prems by force
  have "length xs \<le> room p" using p Cons.prems by simp
  then show ?case using Cons.IH [of p] p by simp
qed

lemma deq_n_contents: "invar q \<Longrightarrow> n = length (contents q) \<Longrightarrow> deq_n deq n q = contents q"
proof (induction n arbitrary: q)
  case 0
  then show ?case by simp
next
  case (Suc n)
  then obtain x xs where "contents q = x # xs" by (metis length_Suc_conv)
  moreover obtain q' where q': "deq q = Some (x, q')" "invar q'" "contents q' = xs"
    using deq_ok Suc.prems(1) calculation by blast
  ultimately show ?case using Suc.IH [OF q'(2)] Suc.prems(2) by simp
qed

text \<open>What is put in comes out in the same order.\<close>

lemma fifo_order:
  assumes "invar q" "contents q = []" "length xs \<le> room q" "enq_all enq xs q = Some q'"
  shows "deq_n deq (length xs) q' = xs"
  using enq_all_ok [OF assms(1,3)] assms(2,4) deq_n_contents by force

end

end
