(* ===== verification/Rsn_Eapol.thy ===== *)
theory Rsn_Eapol
  imports Foa_Prelude
begin

unbundle bit_operations_syntax

text \<open>
  EAPOL key frames of the station: \<open>foa_sta/src/rsn_retransmit.rs\<close>, \<open>rsn_initial.rs\<close> and
  \<open>rsn_group.rs\<close>. The 802.11 parser, the CCMP header codec and the EAPOL decoder are
  third-party code and parameters: \<open>parse\<close> reads a data frame, \<open>encode_ccmp\<close> the bytes of a CCMP
  header, \<open>decode\<close> checks the MIC, decrypts the key data and returns the fields. The envelope
  checks, the replay counters and the CCMP framing are the code's own.
\<close>

section \<open>What the code reads of a data frame\<close>

datatype data_payload = Single bytes | Amsdu

datatype wrapped_payload = Unwrapped data_payload | CryptoWrapped u64 data_payload

record data_frame =
  address_1 :: mac_address
  address_2 :: mac_address
  address_3 :: mac_address
  from_ds :: bool
  to_ds :: bool
  protected_flag :: bool
  header_length :: nat
  payload :: "bytes option"
  wrapped :: "wrapped_payload option"

type_synonym data_parser = "bytes \<Rightarrow> data_frame option"

record eapol_key =
  key_replay_counter :: u64
  key_nonce :: bytes
  gtk_kde :: "(bytes \<times> u8) option"

text \<open>The decoder gets the key confirmation key, the key encryption key, the frame and the
  size of the scratch buffer.\<close>

type_synonym eapol_decoder = "bytes \<Rightarrow> bytes \<Rightarrow> bytes \<Rightarrow> nat \<Rightarrow> eapol_key option"

definition from_be_bytes :: "bytes \<Rightarrow> u64" where
  "from_be_bytes bs = word_of_nat (foldl (\<lambda>a b. a * 256 + unat b) 0 bs)"

definition from_le_bytes :: "bytes \<Rightarrow> u64" where
  "from_le_bytes bs = from_be_bytes (rev bs)"

section \<open>The envelope\<close>

definition EAPOL_LLC :: bytes where
  "EAPOL_LLC = [0xaa, 0xaa, 3, 0, 0, 0, 0x88, 0x8e]"

definition key_envelope :: "data_parser \<Rightarrow> bytes \<Rightarrow> mac_address \<Rightarrow> mac_address \<Rightarrow> bool \<Rightarrow> bytes option" where
  "key_envelope parse buf own bssid is_group =
     (case parse buf of
        None \<Rightarrow> None
      | Some f \<Rightarrow>
          if address_1 f \<noteq> own \<or> address_2 f \<noteq> bssid \<or> \<not> from_ds f \<or> to_ds f \<or> protected_flag f then None
          else case payload f of
                 None \<Rightarrow> None
               | Some p \<Rightarrow>
                   if get_to 8 p \<noteq> Some EAPOL_LLC then None
                   else case get_from 8 p of
                          None \<Rightarrow> None
                        | Some eapol \<Rightarrow>
                            if length eapol < 99 \<or> \<not> (eapol ! 0 = 1 \<or> eapol ! 0 = 2) \<or> eapol ! 1 \<noteq> 3 \<or>
                               eapol ! 4 \<noteq> 2 \<or>
                               \<not> (be16 (eapol ! 7) (eapol ! 8) = 16 \<or>
                                  is_group \<and> eapol ! 7 = 0 \<and> eapol ! 8 = 0)
                            then None
                            else
                              (let body_len = be16 (eapol ! 2) (eapol ! 3);
                                   data_len = be16 (eapol ! 97) (eapol ! 98)
                               in if body_len + 4 \<noteq> length eapol \<or> data_len + 99 \<noteq> length eapol then None
                                  else Some eapol))"

definition key_payload :: "data_parser \<Rightarrow> bytes \<Rightarrow> mac_address \<Rightarrow> mac_address \<Rightarrow> bytes option" where
  "key_payload parse buf own bssid = key_envelope parse buf own bssid False"

definition group_key_payload :: "data_parser \<Rightarrow> bytes \<Rightarrow> mac_address \<Rightarrow> mac_address \<Rightarrow> bytes option" where
  "group_key_payload parse buf own bssid = key_envelope parse buf own bssid True"

definition key_information :: "bytes \<Rightarrow> nat" where
  "key_information eapol = be16 (eapol ! 5) (eapol ! 6)"

section \<open>Message 3\<close>

record message3 =
  m3_nonce :: bytes
  m3_counter :: u64
  m3_gtk :: bytes
  m3_gtk_id :: u8

text \<open>The GTK is converted to an array of sixteen bytes, which fails for another length.\<close>

definition decrypt_message_3 ::
  "data_parser \<Rightarrow> eapol_decoder \<Rightarrow> bytes \<Rightarrow> nat \<Rightarrow> bytes \<Rightarrow> bytes \<Rightarrow> mac_address \<Rightarrow> mac_address \<Rightarrow> message3 option" where
  "decrypt_message_3 parse decode buf scratch kck kek own bssid =
     (case key_payload parse buf own bssid of
        None \<Rightarrow> None
      | Some eapol \<Rightarrow>
          (let data_len = length eapol - 99
           in if key_information eapol \<noteq> 0x13ca \<or> data_len < 24 \<or> data_len mod 8 \<noteq> 0 \<or> data_len - 8 > scratch
              then None
              else case decode kck kek buf scratch of
                     None \<Rightarrow> None
                   | Some key \<Rightarrow>
                       (case gtk_kde key of
                          None \<Rightarrow> None
                        | Some (gtk, gtk_id) \<Rightarrow>
                            if length gtk \<noteq> 16 then None
                            else Some \<lparr>m3_nonce = key_nonce key, m3_counter = key_replay_counter key,
                                       m3_gtk = gtk, m3_gtk_id = gtk_id\<rparr>)))"

record message3_replay =
  authenticator_nonce :: bytes
  supplicant_nonce :: bytes
  eapol_counter :: u64

definition Message3Replay_new :: "bytes \<Rightarrow> bytes \<Rightarrow> u64 \<Rightarrow> message3_replay" where
  "Message3Replay_new anonce snonce c =
     \<lparr>authenticator_nonce = anonce, supplicant_nonce = snonce, eapol_counter = c\<rparr>"

definition Message3Replay_counter :: "message3_replay \<Rightarrow> u64" where
  "Message3Replay_counter r = eapol_counter r"

definition Message3Replay_advance :: "u64 \<Rightarrow> message3_replay \<Rightarrow> message3_replay" where
  "Message3Replay_advance c r = r\<lparr>eapol_counter := c\<rparr>"

text \<open>\<open>Message3Replay::accept\<close>, split into the checks on the decrypted message and the
  decryption.\<close>

definition accept_retry :: "message3 \<Rightarrow> bytes \<Rightarrow> u8 \<Rightarrow> message3_replay \<Rightarrow> (u64 \<times> message3_replay) option" where
  "accept_retry m gtk gtk_id r =
     (if m3_nonce m \<noteq> authenticator_nonce r \<or> m3_counter m \<le> eapol_counter r then None
      else if m3_gtk m \<noteq> gtk \<or> m3_gtk_id m \<noteq> gtk_id then None
      else Some (m3_counter m, r\<lparr>eapol_counter := m3_counter m\<rparr>))"

definition Message3Replay_accept ::
  "data_parser \<Rightarrow> eapol_decoder \<Rightarrow> bytes \<Rightarrow> nat \<Rightarrow> bytes \<Rightarrow> bytes \<Rightarrow> bytes \<Rightarrow> u8 \<Rightarrow> mac_address \<Rightarrow> mac_address \<Rightarrow>
     message3_replay \<Rightarrow> (u64 \<times> message3_replay) option" where
  "Message3Replay_accept parse decode buf scratch kck kek gtk gtk_id own bssid r =
     (case decrypt_message_3 parse decode buf scratch kck kek own bssid of
        None \<Rightarrow> None
      | Some m \<Rightarrow> accept_retry m gtk gtk_id r)"

section \<open>The initial handshake\<close>

record initial_handshake =
  hs_nonce :: bytes
  hs_counter :: u64

definition from_message_1 :: "data_parser \<Rightarrow> bytes \<Rightarrow> mac_address \<Rightarrow> mac_address \<Rightarrow> initial_handshake option" where
  "from_message_1 parse buf own bssid =
     (case key_payload parse buf own bssid of
        None \<Rightarrow> None
      | Some key \<Rightarrow>
          if key_information key \<noteq> 0x008a then None
          else Some \<lparr>hs_nonce = take 32 (drop 17 key), hs_counter = from_be_bytes (take 8 (drop 9 key))\<rparr>)"

definition message_1_retry ::
  "data_parser \<Rightarrow> bytes \<Rightarrow> mac_address \<Rightarrow> mac_address \<Rightarrow> initial_handshake \<Rightarrow> (u64 \<times> initial_handshake) option" where
  "message_1_retry parse buf own bssid h =
     (case from_message_1 parse buf own bssid of
        None \<Rightarrow> None
      | Some retry \<Rightarrow>
          if hs_nonce retry \<noteq> hs_nonce h \<or> hs_counter retry < hs_counter h then None
          else Some (hs_counter retry, h\<lparr>hs_counter := hs_counter retry\<rparr>))"

definition message_3 ::
  "data_parser \<Rightarrow> eapol_decoder \<Rightarrow> bytes \<Rightarrow> nat \<Rightarrow> bytes \<Rightarrow> bytes \<Rightarrow> mac_address \<Rightarrow> mac_address \<Rightarrow>
     initial_handshake \<Rightarrow> (message3 \<times> initial_handshake) option" where
  "message_3 parse decode buf scratch kck kek own bssid h =
     (case decrypt_message_3 parse decode buf scratch kck kek own bssid of
        None \<Rightarrow> None
      | Some key \<Rightarrow>
          if m3_nonce key \<noteq> hs_nonce h \<or> m3_counter key \<le> hs_counter h then None
          else Some (key, h\<lparr>hs_counter := m3_counter key\<rparr>))"

section \<open>Group key messages\<close>

record group_message1 =
  g1_counter :: u64
  g1_nonce :: bytes
  g1_key :: bytes
  g1_key_id :: u8
  g1_rsc :: u64

definition decode_group_message_1 ::
  "data_parser \<Rightarrow> eapol_decoder \<Rightarrow> bytes \<Rightarrow> nat \<Rightarrow> bytes \<Rightarrow> bytes \<Rightarrow> mac_address \<Rightarrow> mac_address \<Rightarrow> group_message1 option" where
  "decode_group_message_1 parse decode buf scratch kck kek own bssid =
     (case group_key_payload parse buf own bssid of
        None \<Rightarrow> None
      | Some envelope \<Rightarrow>
          if key_information envelope \<noteq> 0x1382 then None
          else
            (let data_len = length envelope - 99
             in if data_len < 24 \<or> data_len mod 8 \<noteq> 0 \<or> data_len - 8 > scratch then None
                else if envelope ! 71 \<noteq> 0 \<or> envelope ! 72 \<noteq> 0 then None
                else
                  (let rsc = from_le_bytes (take 6 (drop 65 envelope) @ [0, 0])
                   in case decode kck kek buf scratch of
                        None \<Rightarrow> None
                      | Some key \<Rightarrow>
                          (case gtk_kde key of
                             None \<Rightarrow> None
                           | Some (gtk, gtk_id) \<Rightarrow>
                               if length gtk \<noteq> 16 then None
                               else Some \<lparr>g1_counter = key_replay_counter key, g1_nonce = key_nonce key,
                                          g1_key = gtk, g1_key_id = gtk_id, g1_rsc = rsc\<rparr>))))"

section \<open>CCMP framing\<close>

text \<open>The bytes behind the header move up by eight, the CCMP header takes their place, the
  protected flag is set and the space of the MIC is cleared.\<close>

definition insert_ccmp :: "nat \<Rightarrow> nat \<Rightarrow> bytes \<Rightarrow> bytes \<Rightarrow> bytes" where
  "insert_ccmp h len hdr buf =
     (let moved = take (h + 8) buf @ take (len - h) (drop h buf) @ drop (len + 8) buf;
          wr = take h moved @ hdr @ drop (h + length hdr) moved;
          flag = wr[1 := wr ! 1 OR 0x40]
      in take (len + 8) flag @ replicate 8 0 @ drop (len + 16) flag)"

text \<open>\<open>protect_eapol\<close> returns the new buffer and length; \<open>max_pn\<close> is the codec's largest packet
  number.\<close>

definition protect_eapol ::
  "data_parser \<Rightarrow> (u64 \<Rightarrow> u8 \<Rightarrow> bytes option) \<Rightarrow> u64 \<Rightarrow> bytes \<Rightarrow> nat \<Rightarrow> u64 \<Rightarrow> (bytes \<times> nat) option" where
  "protect_eapol parse encode_ccmp max_pn buf len pn =
     (if pn = 0 \<or> pn > max_pn \<or> len + 16 > length buf then None
      else case parse (take len buf) of
             None \<Rightarrow> None
           | Some f \<Rightarrow>
               if protected_flag f then None
               else case encode_ccmp pn 0 of
                      None \<Rightarrow> None
                    | Some hdr \<Rightarrow> Some (insert_ccmp (header_length f) len hdr buf, len + 16))"

definition is_key_frame :: "data_parser \<Rightarrow> bytes \<Rightarrow> bool" where
  "is_key_frame parse buf =
     (case parse buf of
        None \<Rightarrow> False
      | Some f \<Rightarrow>
          (case wrapped f of
             None \<Rightarrow> False
           | Some w \<Rightarrow>
               (case (case w of Unwrapped p \<Rightarrow> p | CryptoWrapped pn p \<Rightarrow> p) of
                  Single bs \<Rightarrow> get_to 8 bs = Some EAPOL_LLC \<and> get_at 9 bs = Some 3
                | Amsdu \<Rightarrow> False)))"

definition normalize ::
  "data_parser \<Rightarrow> bytes \<Rightarrow> mac_address \<Rightarrow> mac_address \<Rightarrow> (bytes \<times> nat \<times> u64 option) option" where
  "normalize parse buf own bssid =
     (case parse buf of
        None \<Rightarrow> None
      | Some f \<Rightarrow>
          if address_1 f \<noteq> own \<or> address_2 f \<noteq> bssid \<or> \<not> from_ds f \<or> to_ds f \<or> \<not> is_key_frame parse buf
          then None
          else case wrapped f of
                 None \<Rightarrow> None
               | Some (Unwrapped p) \<Rightarrow> Some (buf, length buf, None)
               | Some (CryptoWrapped pn p) \<Rightarrow>
                   (let h = header_length f
                    in case get_range h (h + 8) buf of
                         None \<Rightarrow> None
                       | Some crypto \<Rightarrow>
                           if crypto ! 2 \<noteq> 0 \<or> crypto ! 3 \<noteq> 0x20 then None
                           else
                             (let moved = take h buf @ drop (h + 8) buf @ drop (length buf - 8) buf
                              in Some (moved[1 := moved ! 1 AND NOT 0x40], length buf - 8, Some pn))))"

section \<open>The envelope is checked first\<close>

lemma key_envelope_Some:
  assumes "key_envelope parse buf own bssid is_group = Some e"
  shows "\<exists>f. parse buf = Some f \<and> address_1 f = own \<and> address_2 f = bssid \<and> from_ds f \<and> \<not> to_ds f \<and>
     \<not> protected_flag f \<and> payload f = Some (EAPOL_LLC @ e)"
    and "99 \<le> length e" "length e = be16 (e ! 2) (e ! 3) + 4" "length e = be16 (e ! 97) (e ! 98) + 99"
    and "e ! 1 = 3" "e ! 4 = 2" "length e < 65540"
proof -
  obtain f p where f: "parse buf = Some f" "address_1 f = own" "address_2 f = bssid" "from_ds f" "\<not> to_ds f"
    "\<not> protected_flag f" "payload f = Some p" "get_to 8 p = Some EAPOL_LLC" "get_from 8 p = Some e"
    and e: "99 \<le> length e" "length e = be16 (e ! 2) (e ! 3) + 4" "length e = be16 (e ! 97) (e ! 98) + 99"
    "e ! 1 = 3" "e ! 4 = 2"
    using assms unfolding key_envelope_def
    by (auto simp: Let_def not_less split: option.splits if_splits)
  have "take 8 p = EAPOL_LLC" "drop 8 p = e" using f(8,9) by (auto simp: slice_defs split: if_splits)
  then have "p = EAPOL_LLC @ e" by (metis append_take_drop_id)
  then show "\<exists>f. parse buf = Some f \<and> address_1 f = own \<and> address_2 f = bssid \<and> from_ds f \<and> \<not> to_ds f \<and>
     \<not> protected_flag f \<and> payload f = Some (EAPOL_LLC @ e)" using f by auto
  show "99 \<le> length e" "length e = be16 (e ! 2) (e ! 3) + 4" "length e = be16 (e ! 97) (e ! 98) + 99"
    "e ! 1 = 3" "e ! 4 = 2" using e by auto
  show "length e < 65540" using e(2) be16_less [of "e ! 2" "e ! 3"] by linarith
qed

lemma decrypt_message_3_Some:
  assumes "decrypt_message_3 parse decode buf scratch kck kek own bssid = Some m"
  obtains e key where "key_envelope parse buf own bssid False = Some e" "key_information e = 0x13ca"
    "24 \<le> length e - 99" "(length e - 99) mod 8 = 0" "length e - 99 - 8 \<le> scratch"
    "decode kck kek buf scratch = Some key" "m3_counter m = key_replay_counter key"
    "m3_nonce m = key_nonce key" "gtk_kde key = Some (m3_gtk m, m3_gtk_id m)" "length (m3_gtk m) = 16"
  using assms unfolding decrypt_message_3_def key_payload_def
  by (auto simp: Let_def split: option.splits if_splits prod.splits)

lemma decode_group_message_1_Some:
  assumes "decode_group_message_1 parse decode buf scratch kck kek own bssid = Some m"
  obtains e key where "key_envelope parse buf own bssid True = Some e" "key_information e = 0x1382"
    "24 \<le> length e - 99" "(length e - 99) mod 8 = 0" "length e - 99 - 8 \<le> scratch"
    "decode kck kek buf scratch = Some key" "g1_counter m = key_replay_counter key"
    "gtk_kde key = Some (g1_key m, g1_key_id m)" "length (g1_key m) = 16"
  using assms unfolding decode_group_message_1_def group_key_payload_def
  by (auto simp: Let_def split: option.splits if_splits prod.splits)

section \<open>Replay counters of the handshake\<close>

text \<open>A decrypted message 3 with counter \<open>n\<close>, offered to the completed and to the initial
  exchange.\<close>

definition offer_retry :: "message3 \<Rightarrow> message3_replay \<Rightarrow> nat \<Rightarrow> bool \<times> message3_replay" where
  "offer_retry m r n =
     (if n < 2 ^ 64
      then (case accept_retry (m\<lparr>m3_counter := word_of_nat n\<rparr>) (m3_gtk m) (m3_gtk_id m) r of
              None \<Rightarrow> (False, r) | Some (_, r') \<Rightarrow> (True, r'))
      else (False, r))"

lemma unat_of_small: "n < 2 ^ 64 \<Longrightarrow> unat (word_of_nat n :: u64) = n"
  by (simp add: unat_of_nat)

interpretation m3: replay_guard "offer_retry m" "\<lambda>r. unat (eapol_counter r)" for m
proof (unfold_locales, goal_cases)
  case (1 s n s')
  then have n: "n < 2 ^ 64" "eapol_counter s < word_of_nat n" "eapol_counter s' = word_of_nat n"
    by (auto simp: offer_retry_def accept_retry_def split: if_splits)
  then show ?case using unat_of_small [OF n(1)] by (metis word_less_nat_alt)
next
  case (2 s n s')
  then show ?case by (auto simp: offer_retry_def accept_retry_def split: if_splits)
qed

section \<open>Properties\<close>

text \<open>A frame that carries its EAPOL message, and a decoder that accepts it, for the
  witnesses.\<close>

definition demo_parse :: data_parser where
  "demo_parse b = Some \<lparr>address_1 = [1], address_2 = [2], address_3 = [2], from_ds = True, to_ds = False,
     protected_flag = False, header_length = 24, payload = Some (EAPOL_LLC @ b), wrapped = None\<rparr>"

definition demo_decode :: eapol_decoder where
  "demo_decode kck kek b n = Some \<lparr>key_replay_counter = 5, key_nonce = [7], gtk_kde = Some (replicate 16 1, 1)\<rparr>"

definition demo_m3 :: bytes where
  "demo_m3 = [2, 3, 0, 119, 2, 0x13, 0xca, 0, 16] @ replicate 88 0 @ [0, 24] @ replicate 24 0"

definition demo_handshake :: initial_handshake where
  "demo_handshake = \<lparr>hs_nonce = [7], hs_counter = 1\<rparr>"

lemma demo_envelope: "key_envelope demo_parse demo_m3 [1] [2] False = Some demo_m3"
  by (simp add: key_envelope_def demo_parse_def slice_defs EAPOL_LLC_def demo_m3_def be16_def nth_append)

lemma demo_decrypt:
  "decrypt_message_3 demo_parse demo_decode demo_m3 64 [] [] [1] [2] =
     Some \<lparr>m3_nonce = [7], m3_counter = 5, m3_gtk = replicate 16 1, m3_gtk_id = 1\<rparr>"
proof -
  have "length demo_m3 = 123" "key_information demo_m3 = 0x13ca"
    by (simp_all add: demo_m3_def key_information_def be16_def)
  then show ?thesis using demo_envelope
    by (simp add: decrypt_message_3_def key_payload_def demo_decode_def)
qed

text \<open>
  A decrypted message 3 passed the whole envelope. Its frame comes from the access point
  and is addressed to this station without outer protection, carries the EAPOL LLC header,
  and its length fields agree with its real length, so that every offset the decoder uses is
  inside the frame and the unwrapped key data fits the scratch buffer.
\<close>

theorem message_3_envelope:
  assumes "decrypt_message_3 parse decode buf scratch kck kek own bssid = Some m"
  shows "\<exists>f e. parse buf = Some f \<and> address_1 f = own \<and> address_2 f = bssid \<and> from_ds f \<and> \<not> to_ds f \<and>
     \<not> protected_flag f \<and> payload f = Some (EAPOL_LLC @ e) \<and> key_information e = 0x13ca \<and>
     length e = be16 (e ! 2) (e ! 3) + 4 \<and> length e = be16 (e ! 97) (e ! 98) + 99 \<and>
     24 \<le> be16 (e ! 97) (e ! 98) \<and> 8 dvd be16 (e ! 97) (e ! 98) \<and> be16 (e ! 97) (e ! 98) \<le> scratch + 8 \<and>
     length (m3_gtk m) = 16"
proof -
  obtain e key where e: "key_envelope parse buf own bssid False = Some e" "key_information e = 0x13ca"
    "24 \<le> length e - 99" "(length e - 99) mod 8 = 0" "length e - 99 - 8 \<le> scratch" "length (m3_gtk m) = 16"
    using decrypt_message_3_Some [OF assms] by metis
  note E = key_envelope_Some [OF e(1)]
  obtain f where "parse buf = Some f \<and> address_1 f = own \<and> address_2 f = bssid \<and> from_ds f \<and> \<not> to_ds f \<and>
     \<not> protected_flag f \<and> payload f = Some (EAPOL_LLC @ e)" using E(1) by blast
  moreover have "be16 (e ! 97) (e ! 98) = length e - 99" using E(4) by simp
  ultimately show ?thesis using e E(3,4) by (intro exI [of _ f] exI [of _ e]) (simp add: dvd_eq_mod_eq_0)
qed

theorem message_3_envelope_witness:
  "\<exists>e. payload (the (demo_parse demo_m3)) = Some (EAPOL_LLC @ e) \<and> length e = be16 (e ! 2) (e ! 3) + 4"
  using message_3_envelope [OF demo_decrypt] by fastforce



text \<open>
  Retransmitted message 3 frames are answered in increasing counter order only. Whatever
  sequence of authenticated message 3 frames arrives after the handshake, those that are
  answered have strictly increasing counters above the one that completed the handshake.
\<close>

theorem message_3_retries_increasing:
  "sorted_wrt (<) (accepted (offer_retry m) r ns) \<and>
   (\<forall>n. n \<in> set (accepted (offer_retry m) r ns) \<longrightarrow> unat (Message3Replay_counter r) < n)"
  using m3.accepted_increasing m3.accepted_above by (simp add: Message3Replay_counter_def)

theorem message_3_retries_increasing_witness:
  "sorted_wrt (<) (accepted (offer_retry \<lparr>m3_nonce = [7], m3_counter = 0, m3_gtk = [], m3_gtk_id = 1\<rparr>)
     (Message3Replay_new [7] [] 4) [5, 5, 3, 9])"
  using message_3_retries_increasing by blast

text \<open>
  What the code relies on of the third-party codec: a packet number in range has an
  eight-byte header with a cleared reserved byte and the extended IV flag of key zero, and
  putting it behind the header of an unprotected frame whose protected flag is then set gives
  a frame that parses to the same addresses and payload, wrapped under that number.
\<close>

definition wrap_ccmp :: "nat \<Rightarrow> bytes \<Rightarrow> bytes \<Rightarrow> bytes" where
  "wrap_ccmp h hdr b = (let b' = b[1 := b ! 1 OR 0x40] in take h b' @ hdr @ drop h b')"

definition ccmp_codec :: "data_parser \<Rightarrow> (u64 \<Rightarrow> u8 \<Rightarrow> bytes option) \<Rightarrow> u64 \<Rightarrow> bool" where
  "ccmp_codec parse encode_ccmp max_pn \<longleftrightarrow>
     (\<forall>pn. pn \<noteq> 0 \<and> pn \<le> max_pn \<longrightarrow>
        (\<exists>hdr. encode_ccmp pn 0 = Some hdr \<and> length hdr = 8 \<and> hdr ! 2 = 0 \<and> hdr ! 3 = 0x20 \<and>
           (\<forall>b f p. parse b = Some f \<and> \<not> protected_flag f \<and> wrapped f = Some (Unwrapped p) \<longrightarrow>
              2 \<le> header_length f \<and> header_length f \<le> length b \<and> \<not> bit (b ! 1) 6 \<and>
              (\<exists>q. parse (wrap_ccmp (header_length f) hdr b) =
                 Some (f\<lparr>protected_flag := True, payload := q, wrapped := Some (CryptoWrapped pn p)\<rparr>)))))"

lemma set_clear_flag: "\<not> bit (x :: u8) 6 \<Longrightarrow> (x OR 0x40) AND NOT 0x40 = x"
proof (rule bit_eqI)
  fix n assume x: "\<not> bit x 6" and n: "possible_bit TYPE(u8) n"
  have "bit (0x40 :: u8) n \<longleftrightarrow> n = 6"
    using n bit_exp_iff [where 'a = "u8", of 6 n] by (auto simp: possible_bit_def)
  moreover have "bit ((x OR 0x40) AND NOT 0x40) n = ((bit x n \<or> bit (0x40 :: u8) n) \<and> \<not> bit (0x40 :: u8) n)"
    unfolding bit_and_iff bit_or_iff bit_not_iff using n by blast
  ultimately show "bit ((x OR 0x40) AND NOT 0x40) n = bit x n" using x by auto
qed

lemma wrap_ccmp_unwrap:
  assumes "2 \<le> h" "h \<le> length b" "length hdr = 8" "\<not> bit (b ! 1) 6"
  shows "let w = wrap_ccmp h hdr b; m = take h w @ drop (h + 8) w @ drop (length w - 8) w
     in take (length b) (m[1 := m ! 1 AND NOT 0x40]) = b \<and> length w = length b + 8 \<and> take 8 (drop h w) = hdr"
proof -
  let ?b = "b[1 := b ! 1 OR 0x40]"
  let ?w = "wrap_ccmp h hdr b"
  let ?m = "take h ?w @ drop (h + 8) ?w @ drop (length ?w - 8) ?w"
  have w: "?w = take h ?b @ hdr @ drop h ?b" by (simp add: wrap_ccmp_def Let_def)
  have len: "length ?w = length b + 8" using assms by (simp add: w)
  have "take h ?w = take h ?b" "drop (h + 8) ?w = drop h ?b" "take 8 (drop h ?w) = hdr"
    using assms(2,3) by (simp_all add: w)
  then have m: "?m = ?b @ drop (length ?w - 8) ?w" and hdr: "take 8 (drop h ?w) = hdr"
    by (metis append.assoc append_take_drop_id, simp)
  have "?m ! 1 = b ! 1 OR 0x40" using assms(1,2) unfolding m by (simp add: nth_append)
  then have "?m[1 := ?m ! 1 AND NOT 0x40] = b[1 := b ! 1] @ drop (length ?w - 8) ?w"
    using assms(1,2) set_clear_flag [OF assms(4)] unfolding m by (simp add: list_update_append)
  then show ?thesis using len hdr by (simp add: Let_def)
qed

lemma insert_ccmp_wraps:
  assumes "len + 16 \<le> length buf" "length hdr = 8" "2 \<le> h" "h \<le> len"
  shows "take (len + 8) (insert_ccmp h len hdr buf) = wrap_ccmp h hdr (take len buf)"
proof -
  define moved where "moved = take (h + 8) buf @ take (len - h) (drop h buf) @ drop (len + 8) buf"
  define wr where "wr = take h moved @ hdr @ drop (h + 8) moved"
  have "take h moved = take h buf" "drop (h + 8) moved = take (len - h) (drop h buf) @ drop (len + 8) buf"
    using assms(1,4) by (simp_all add: moved_def min_def)
  then have wr: "wr = take h buf @ hdr @ take (len - h) (drop h buf) @ drop (len + 8) buf"
    by (simp add: wr_def)
  have one: "wr ! 1 = take len buf ! 1" using assms(1,3,4) unfolding wr by (simp add: nth_append)
  have len: "length wr = length buf" unfolding wr using assms(1,2,4) by simp
  have "take (len + 8) (insert_ccmp h len hdr buf) = take (len + 8) (wr[1 := wr ! 1 OR 0x40])"
    using assms(1) len unfolding insert_ccmp_def Let_def moved_def [symmetric] assms(2) wr_def [symmetric] by simp
  also have "\<dots> = (take (len + 8) wr)[1 := take len buf ! 1 OR 0x40]"
    unfolding one by (simp add: take_update_swap)
  also have "take (len + 8) wr = take h buf @ hdr @ take (len - h) (drop h buf)"
    unfolding wr using assms(1,2,4) by (auto simp: min_def)
  also have "(take h buf @ hdr @ take (len - h) (drop h buf))[1 := take len buf ! 1 OR 0x40] =
      wrap_ccmp h hdr (take len buf)"
    using assms(1,3,4) by (simp add: wrap_ccmp_def Let_def list_update_append drop_take take_update_swap min_def)
  finally show ?thesis .
qed

text \<open>
  C32: taking the CCMP framing off a protected EAPOL frame gives the original frame back. For
  every frame \<open>protect_eapol\<close> accepts, the receiver, whose radio has checked and removed the MIC,
  recovers exactly the original bytes and the packet number the sender used.
\<close>

theorem eapol_protect_normalize:
  assumes "ccmp_codec parse encode_ccmp max_pn" "protect_eapol parse encode_ccmp max_pn buf len pn = Some (out, n)"
    and "parse (take len buf) = Some f" "wrapped f = Some (Unwrapped (Single body))"
    and "from_ds f" "\<not> to_ds f" "get_to 8 body = Some EAPOL_LLC" "get_at 9 body = Some 3"
  shows "n = len + 16 \<and>
     (\<exists>b. normalize parse (take (n - 8) out) (address_1 f) (address_2 f) = Some (b, len, Some pn) \<and>
          take len b = take len buf)"
proof -
  have p: "pn \<noteq> 0" "pn \<le> max_pn" "len + 16 \<le> length buf" "\<not> protected_flag f"
    using assms(2,3) by (auto simp: protect_eapol_def split: if_splits option.splits)
  let ?h = "header_length f" and ?b = "take len buf"
  obtain hdr q where hdr: "encode_ccmp pn 0 = Some hdr" "length hdr = 8" "hdr ! 2 = 0" "hdr ! 3 = 0x20"
    "2 \<le> ?h" "?h \<le> length ?b" "\<not> bit (?b ! 1) 6"
    and w: "parse (wrap_ccmp ?h hdr ?b) =
      Some (f\<lparr>protected_flag := True, payload := q, wrapped := Some (CryptoWrapped pn (Single body))\<rparr>)"
    using assms(1,3,4) p unfolding ccmp_codec_def by meson
  have n: "n = len + 16" "out = insert_ccmp ?h len hdr buf"
    using assms(2,3) p hdr(1) by (auto simp: protect_eapol_def split: if_splits)
  have h: "?h \<le> len" "length ?b = len" using hdr(6) p(3) by auto
  have out: "take (n - 8) out = wrap_ccmp ?h hdr ?b"
    using insert_ccmp_wraps [OF p(3) hdr(2,5) h(1)] n by (simp add: add.commute)
  let ?w = "wrap_ccmp ?h hdr ?b"
  note U = wrap_ccmp_unwrap [OF hdr(5,6,2,7), unfolded Let_def h(2)]
  have key: "is_key_frame parse ?w" using w assms(7,8) by (simp add: is_key_frame_def)
  have r: "get_range ?h (?h + 8) ?w = Some hdr" using U h by (simp add: get_range_def)
  let ?m = "take ?h ?w @ drop (?h + 8) ?w @ drop (length ?w - 8) ?w"
  have len: "length ?w - 8 = len" using U by simp
  have "normalize parse ?w (address_1 f) (address_2 f) =
      Some (?m[1 := ?m ! 1 AND NOT 0x40], length ?w - 8, Some pn)"
    using w key r hdr(3,4) assms(5,6) by (simp add: normalize_def Let_def)
  then show ?thesis unfolding out using n(1) U len by metis
qed

text \<open>A codec for the one packet number one.\<close>

definition toy_header :: bytes where
  "toy_header = [1, 0, 0, 0x20, 0, 0, 0, 0]"

definition toy_parse :: data_parser where
  "toy_parse b =
     (if length b < 24 then None
      else Some \<lparr>address_1 = [1], address_2 = [2], address_3 = [], from_ds = True, to_ds = False,
             protected_flag = bit (b ! 1) 6, header_length = 24, payload = None,
             wrapped = Some (if bit (b ! 1) 6 then CryptoWrapped 1 (Single (drop 32 b)) else Unwrapped (Single (drop 24 b)))\<rparr>)"

lemma toy_wrap:
  assumes "24 \<le> length b"
  shows "length (wrap_ccmp 24 toy_header b) = length b + 8" "drop 32 (wrap_ccmp 24 toy_header b) = drop 24 b"
    "bit (wrap_ccmp 24 toy_header b ! 1) 6"
proof -
  show "length (wrap_ccmp 24 toy_header b) = length b + 8" "drop 32 (wrap_ccmp 24 toy_header b) = drop 24 b"
    using assms by (simp_all add: wrap_ccmp_def toy_header_def Let_def)
  have "bit (0x40 :: u8) 6" using bit_exp_iff [where 'a = "u8", of 6 6] by simp
  then show "bit (wrap_ccmp 24 toy_header b ! 1) 6"
    using assms by (simp add: wrap_ccmp_def toy_header_def Let_def nth_append bit_or_iff)
qed

lemma toy_codec: "ccmp_codec toy_parse (\<lambda>_ _. Some toy_header) 1"
  unfolding ccmp_codec_def
proof (intro allI impI exI conjI)
  fix pn :: u64 assume "pn \<noteq> 0 \<and> pn \<le> 1"
  then have pn: "pn = 1" by (metis order.order_iff_strict word_less_1)
  show "length toy_header = 8" "toy_header ! 2 = 0" "toy_header ! 3 = 0x20" by (simp_all add: toy_header_def)
  fix b f p assume a: "toy_parse b = Some f \<and> \<not> protected_flag f \<and> wrapped f = Some (Unwrapped p)"
  then have b: "24 \<le> length b" "\<not> bit (b ! 1) 6" "p = Single (drop 24 b)" "header_length f = 24"
    by (auto simp: toy_parse_def split: if_splits)
  then show "2 \<le> header_length f" "header_length f \<le> length b" "\<not> bit (b ! 1) 6" by auto
  show "toy_parse (wrap_ccmp (header_length f) toy_header b) =
      Some (f\<lparr>protected_flag := True, payload := None, wrapped := Some (CryptoWrapped pn p)\<rparr>)"
    using a b toy_wrap [OF b(1)] pn by (auto simp: toy_parse_def split: if_splits)
qed simp

theorem eapol_protect_normalize_witness:
  "\<exists>out b. protect_eapol toy_parse (\<lambda>_ _. Some toy_header) 1 (replicate 24 0 @ EAPOL_LLC @ [2, 3] @ replicate 16 0) 34 1 =
       Some (out, 50) \<and>
     normalize toy_parse (take 42 out) [1] [2] = Some (b, 34, Some 1) \<and>
     take 34 b = replicate 24 0 @ EAPOL_LLC @ [2, 3]"
proof -
  let ?buf = "replicate 24 0 @ EAPOL_LLC @ [2, 3] @ replicate 16 0"
  have t: "take 34 ?buf = replicate 24 0 @ EAPOL_LLC @ [2, 3]" by (simp add: EAPOL_LLC_def)
  have f: "toy_parse (take 34 ?buf) = Some \<lparr>address_1 = [1], address_2 = [2], address_3 = [], from_ds = True,
      to_ds = False, protected_flag = False, header_length = 24, payload = None,
      wrapped = Some (Unwrapped (Single (EAPOL_LLC @ [2, 3])))\<rparr>"
    unfolding t by (simp add: toy_parse_def EAPOL_LLC_def nth_append)
  then obtain out where o: "protect_eapol toy_parse (\<lambda>_ _. Some toy_header) 1 ?buf 34 1 = Some (out, 50)"
    by (simp add: protect_eapol_def EAPOL_LLC_def)
  have "get_to 8 (EAPOL_LLC @ [2, 3]) = Some EAPOL_LLC" "get_at 9 (EAPOL_LLC @ [2, 3]) = Some 3"
    by (simp_all add: EAPOL_LLC_def slice_defs)
  with eapol_protect_normalize [OF toy_codec o f] t o show ?thesis by auto
qed

end
