(* ===== verification/Lmac_Crypto.thy ===== *)
theory Lmac_Crypto
  imports Foa_Prelude
begin

unbundle bit_operations_syntax

text \<open>
  Hardware key slots, \<open>foa/src/lmac/crypto.rs\<close>: a 32-bit mask of free slots next to the
  driver's crypto controller, and the \<open>KeySlot\<close> guard that deletes its key and releases its
  slot when it is dropped. The controller's operations and the two bit macros are third-party
  code and therefore parameters; \<open>bit_macros\<close> and \<open>crypto_laws\<close> are what the code relies on.
\<close>

record bit_macro_ops =
  bit_macro :: "nat \<Rightarrow> u32"
  check_bit :: "u32 \<Rightarrow> u32 \<Rightarrow> bool"

definition bit_macros :: "bit_macro_ops \<Rightarrow> bool" where
  "bit_macros bm \<longleftrightarrow>
     (\<forall>i < 32. bit_macro bm i = 2 ^ i) \<and> (\<forall>x m. check_bit bm x m \<longleftrightarrow> x AND m \<noteq> 0)"

record ('c, 'p) crypto_ops =
  driver_set_key :: "nat \<Rightarrow> nat \<Rightarrow> u8 \<Rightarrow> mac_address \<Rightarrow> 'p \<Rightarrow> 'c \<Rightarrow> bool \<times> 'c"
  driver_delete_key :: "nat \<Rightarrow> 'c \<Rightarrow> bool \<times> 'c"

text \<open>\<open>installed c\<close> is the set of hardware slots that hold a key.\<close>

definition crypto_laws :: "('c \<Rightarrow> nat set) \<Rightarrow> ('c, 'p) crypto_ops \<Rightarrow> bool" where
  "crypto_laws installed co \<longleftrightarrow>
     (\<forall>i c. installed (snd (driver_delete_key co i c)) = installed c - {i}) \<and>
     (\<forall>i n k a p c. installed (snd (driver_set_key co i n k a p c)) \<subseteq> insert i (installed c))"

record 'c key_slot_manager =
  key_slot_state :: u32
  crypto_controller :: 'c

record key_slot_guard =
  guard_slot :: u8
  guard_interface :: u8

definition KeySlotManager_new :: "'c \<Rightarrow> 'c key_slot_manager" where
  "KeySlotManager_new c = \<lparr>key_slot_state = - 1, crypto_controller = c\<rparr>"

definition acquire_key_slot ::
  "bit_macro_ops \<Rightarrow> nat \<Rightarrow> 'c key_slot_manager \<Rightarrow> (nat \<times> 'c key_slot_manager) option" where
  "acquire_key_slot bm K m =
     (case find_index (\<lambda>i. check_bit bm (key_slot_state m) (bit_macro bm i)) K of
        None \<Rightarrow> None
      | Some i \<Rightarrow> Some (i, m\<lparr>key_slot_state := key_slot_state m AND NOT (bit_macro bm i)\<rparr>))"

definition release_key_slot ::
  "bit_macro_ops \<Rightarrow> ('c, 'p) crypto_ops \<Rightarrow> nat \<Rightarrow> 'c key_slot_manager \<Rightarrow> 'c key_slot_manager" where
  "release_key_slot bm co i m =
     \<lparr>key_slot_state = key_slot_state m OR bit_macro bm i,
      crypto_controller = snd (driver_delete_key co i (crypto_controller m))\<rparr>"

text \<open>\<open>LMacInterfaceControl::acquire_key_slot\<close> wraps the slot in its guard.\<close>

definition acquire_key_slot_guard ::
  "bit_macro_ops \<Rightarrow> nat \<Rightarrow> nat \<Rightarrow> 'c key_slot_manager \<Rightarrow> (key_slot_guard \<times> 'c key_slot_manager) option" where
  "acquire_key_slot_guard bm K iface m =
     (case acquire_key_slot bm K m of
        None \<Rightarrow> None
      | Some (i, m') \<Rightarrow> Some (\<lparr>guard_slot = of_nat i, guard_interface = of_nat iface\<rparr>, m'))"

definition key_slot :: "key_slot_guard \<Rightarrow> nat" where
  "key_slot g = unat (guard_slot g)"

definition set_key ::
  "('c, 'p) crypto_ops \<Rightarrow> key_slot_guard \<Rightarrow> u8 \<Rightarrow> mac_address \<Rightarrow> 'p \<Rightarrow> 'c key_slot_manager \<Rightarrow>
     bool \<times> 'c key_slot_manager" where
  "set_key co g key_id addr params m =
     (let (ok, c) = driver_set_key co (unat (guard_slot g)) (unat (guard_interface g)) key_id addr params
                      (crypto_controller m)
      in (ok, m\<lparr>crypto_controller := c\<rparr>))"

definition KeySlot_drop ::
  "bit_macro_ops \<Rightarrow> ('c, 'p) crypto_ops \<Rightarrow> key_slot_guard \<Rightarrow> 'c key_slot_manager \<Rightarrow> 'c key_slot_manager" where
  "KeySlot_drop bm co g m =
     (let m1 = m\<lparr>crypto_controller := snd (driver_delete_key co (key_slot g) (crypto_controller m))\<rparr>
      in release_key_slot bm co (key_slot g) m1)"

section \<open>The mask as a set of slots\<close>

definition slots_held :: "nat \<Rightarrow> 'c key_slot_manager \<Rightarrow> nat set" where
  "slots_held K m = {i. i < K \<and> \<not> bit (key_slot_state m) i}"

lemma check_bit_macro: "bit_macros bm \<Longrightarrow> i < 32 \<Longrightarrow> check_bit bm x (bit_macro bm i) \<longleftrightarrow> bit x i"
  by (simp add: bit_macros_def and_exp_eq_0_iff_not_bit)

lemma bit_bit_macro: "bit_macros bm \<Longrightarrow> i < 32 \<Longrightarrow> bit (bit_macro bm i) j \<longleftrightarrow> j = i"
  by (auto simp: bit_macros_def bit_exp_iff)

lemma bit_clear_macro:
  "bit_macros bm \<Longrightarrow> i < 32 \<Longrightarrow> j < 32 \<Longrightarrow> bit (x AND NOT (bit_macro bm i)) j \<longleftrightarrow> bit x j \<and> j \<noteq> i"
  by (simp add: bit_and_iff bit_not_iff bit_bit_macro)

lemma acquire_key_slot_Some:
  assumes "bit_macros bm" "K \<le> 32" "acquire_key_slot bm K m = Some (i, m')"
  shows "i < K" "i \<notin> slots_held K m" "slots_held K m' = insert i (slots_held K m)"
    and "crypto_controller m' = crypto_controller m"
proof -
  have i: "i < K" "bit (key_slot_state m) i"
    and m': "m' = m\<lparr>key_slot_state := key_slot_state m AND NOT (bit_macro bm i)\<rparr>"
    using assms check_bit_macro [OF assms(1)]
    by (auto simp: acquire_key_slot_def find_index_Some split: option.splits)
  show "i < K" "i \<notin> slots_held K m" "crypto_controller m' = crypto_controller m"
    using i m' by (simp_all add: slots_held_def)
  show "slots_held K m' = insert i (slots_held K m)"
    using i m' assms(2) bit_clear_macro [OF assms(1)] by (auto simp: slots_held_def)
qed

lemma acquire_key_slot_None:
  assumes "bit_macros bm" "K \<le> 32"
  shows "acquire_key_slot bm K m = None \<longleftrightarrow> slots_held K m = {..<K}"
proof -
  have "acquire_key_slot bm K m = None \<longleftrightarrow> (\<forall>i<K. \<not> check_bit bm (key_slot_state m) (bit_macro bm i))"
    unfolding acquire_key_slot_def find_index_None [symmetric] by (simp split: option.splits)
  then show ?thesis using check_bit_macro [OF assms(1)] assms(2) by (auto simp: slots_held_def)
qed

lemma release_key_slot_held:
  assumes "bit_macros bm" "K \<le> 32" "i < K"
  shows "slots_held K (release_key_slot bm co i m) = slots_held K m - {i}"
  using assms bit_bit_macro [OF assms(1), of i]
  by (auto simp: release_key_slot_def slots_held_def bit_or_iff)

lemma key_slot_allocator:
  assumes "bit_macros bm" "K \<le> 32"
  shows "allocator (acquire_key_slot bm K) (release_key_slot bm co) (slots_held K) {..<K} (\<lambda>_. True)"
proof (unfold_locales, goal_cases)
  case (1 s)
  then show ?case by (auto simp: slots_held_def)
next
  case (2 s h s')
  then show ?case using acquire_key_slot_Some [OF assms 2(2)] by simp
next
  case (3 s)
  then show ?case using acquire_key_slot_None [OF assms, of s] by simp
next
  case (4 s h)
  then have "h < K" by (simp add: slots_held_def)
  then show ?case using release_key_slot_held [OF assms, of h co s] by simp
qed

section \<open>All runs of the slot owners\<close>

text \<open>\<open>gs\<close> is the list of live guards.\<close>

inductive key_slot_run ::
  "bit_macro_ops \<Rightarrow> ('c, 'p) crypto_ops \<Rightarrow> nat \<Rightarrow> 'c \<Rightarrow> key_slot_guard list \<Rightarrow> 'c key_slot_manager \<Rightarrow> bool"
  for bm co K c where
  slot_start: "key_slot_run bm co K c [] (KeySlotManager_new c)"
| slot_acquire: "key_slot_run bm co K c gs m \<Longrightarrow> acquire_key_slot_guard bm K iface m = Some (g, m') \<Longrightarrow>
     key_slot_run bm co K c (g # gs) m'"
| slot_set_key: "key_slot_run bm co K c gs m \<Longrightarrow> g \<in> set gs \<Longrightarrow> set_key co g key_id addr p m = (ok, m') \<Longrightarrow>
     key_slot_run bm co K c gs m'"
| slot_drop: "key_slot_run bm co K c gs m \<Longrightarrow> g \<in> set gs \<Longrightarrow>
     key_slot_run bm co K c (remove1 g gs) (KeySlot_drop bm co g m)"

definition slot_run_inv :: "nat \<Rightarrow> ('c \<Rightarrow> nat set) \<Rightarrow> key_slot_guard list \<Rightarrow> 'c key_slot_manager \<Rightarrow> bool" where
  "slot_run_inv K installed gs m \<longleftrightarrow>
     distinct (map key_slot gs) \<and> set (map key_slot gs) = slots_held K m \<and>
     installed (crypto_controller m) \<subseteq> slots_held K m"

lemma KeySlot_drop_effect:
  assumes "bit_macros bm" "crypto_laws installed co" "K \<le> 32" "key_slot g < K"
  shows "slots_held K (KeySlot_drop bm co g m) = slots_held K m - {key_slot g}"
    and "installed (crypto_controller (KeySlot_drop bm co g m)) = installed (crypto_controller m) - {key_slot g}"
  using release_key_slot_held [OF assms(1,3,4)] assms(2)
  by (simp_all add: KeySlot_drop_def Let_def slots_held_def release_key_slot_def crypto_laws_def)

lemma key_slot_run_inv:
  assumes bm: "bit_macros bm" and co: "crypto_laws installed co" and K: "K \<le> 32" and c: "installed c = {}"
  shows "key_slot_run bm co K c gs m \<Longrightarrow> slot_run_inv K installed gs m"
proof (induction rule: key_slot_run.induct)
  case slot_start
  have "slots_held K (KeySlotManager_new c) = {}" using K by (auto simp: slots_held_def KeySlotManager_new_def)
  then show ?case using c by (simp add: slot_run_inv_def KeySlotManager_new_def)
next
  case (slot_acquire gs m iface g m')
  then obtain i where i: "acquire_key_slot bm K m = Some (i, m')" "guard_slot g = of_nat i"
    by (auto simp: acquire_key_slot_guard_def split: option.splits)
  note A = acquire_key_slot_Some [OF bm K i(1)]
  have "key_slot g = i" using i(2) A(1) K by (simp add: key_slot_def unat_of_nat)
  then show ?case using slot_acquire.IH A by (auto simp: slot_run_inv_def)
next
  case (slot_set_key gs m g key_id addr p ok m')
  have "installed (crypto_controller m') \<subseteq> insert (key_slot g) (installed (crypto_controller m))"
    "slots_held K m' = slots_held K m"
    using co slot_set_key.hyps(3)
    by (auto simp: set_key_def crypto_laws_def key_slot_def slots_held_def split: prod.splits) (metis snd_conv subsetD insertE)
  then show ?case using slot_set_key by (auto simp: slot_run_inv_def)
next
  case (slot_drop gs m g)
  have "key_slot g \<in> slots_held K m" using slot_drop by (auto simp: slot_run_inv_def)
  then have "key_slot g < K" by (simp add: slots_held_def)
  note D = KeySlot_drop_effect [OF bm co K this, of m]
  have inj: "distinct gs" "inj_on key_slot (set gs)"
    using slot_drop.IH by (auto simp: slot_run_inv_def distinct_map)
  then have "remove1 g gs = removeAll g gs" by (simp add: distinct_remove1_removeAll)
  moreover have "key_slot ` (set gs - {g}) = key_slot ` set gs - {key_slot g}"
    using inj(2) slot_drop.hyps(2) by (auto dest: inj_onD)
  moreover have "distinct (map key_slot (removeAll g gs))"
    using inj by (auto simp: distinct_map distinct_removeAll intro: inj_on_subset)
  ultimately show ?case using slot_drop.IH D by (auto simp: slot_run_inv_def)
qed

section \<open>Properties\<close>

text \<open>
  Key slots are exclusive. Any number of acquisitions in a row returns pairwise different
  slots below the hardware's slot count, none of which was held before, and giving all of
  them back restores the set of held slots.
\<close>

theorem key_slots_exclusive:
  assumes "bit_macros bm" "K \<le> 32" "acquire_n (acquire_key_slot bm K) n m = (hs, m')"
  shows "distinct (granted hs) \<and> set (granted hs) \<inter> slots_held K m = {} \<and>
     slots_held K m' = slots_held K m \<union> set (granted hs) \<and>
     slots_held K (release_all (release_key_slot bm co) (granted hs) m') = slots_held K m"
  using allocator.acquire_n_exclusive [OF key_slot_allocator [OF assms(1,2)] _ assms(3)]
    allocator.acquire_release_roundtrip [OF key_slot_allocator [OF assms(1,2)] _ assms(3)]
  by simp

text \<open>The macros as they are documented, and a controller that keeps the set of its keys.\<close>

definition shift_macros :: bit_macro_ops where
  "shift_macros = \<lparr>bit_macro = (\<lambda>i. 2 ^ i), check_bit = (\<lambda>x m. x AND m \<noteq> 0)\<rparr>"

definition set_crypto :: "(nat set, unit) crypto_ops" where
  "set_crypto = \<lparr>driver_set_key = (\<lambda>i _ _ _ _ c. (True, insert i c)), driver_delete_key = (\<lambda>i c. (True, c - {i}))\<rparr>"

lemma shift_macros_ok: "bit_macros shift_macros"
  by (simp add: bit_macros_def shift_macros_def)

lemma set_crypto_ok: "crypto_laws (\<lambda>c. c) set_crypto"
  by (auto simp: crypto_laws_def set_crypto_def)

theorem key_slots_exclusive_witness:
  "distinct (granted (fst (acquire_n (acquire_key_slot shift_macros 2) 3 (KeySlotManager_new ({} :: nat set)))))"
proof -
  obtain hs m' where "acquire_n (acquire_key_slot shift_macros 2) 3 (KeySlotManager_new ({} :: nat set)) = (hs, m')"
    by fastforce
  from key_slots_exclusive [OF shift_macros_ok _ this, of set_crypto] this show ?thesis by simp
qed

text \<open>
  C19: no key outlives its owner. Whatever the interfaces acquire, program and drop, the live
  guards name pairwise different slots, exactly these are marked as taken, and the hardware
  holds keys in no other slot.
\<close>

theorem key_slots_no_stale_key:
  assumes "bit_macros bm" "crypto_laws installed co" "K \<le> 32" "installed c = {}"
    and "key_slot_run bm co K c gs m"
  shows "distinct (map key_slot gs) \<and> set (map key_slot gs) = slots_held K m \<and>
     installed (crypto_controller m) \<subseteq> set (map key_slot gs)"
  using key_slot_run_inv [OF assms] by (simp add: slot_run_inv_def)

theorem key_slots_no_stale_key_witness:
  "\<exists>g m m'. acquire_key_slot_guard shift_macros 2 0 (KeySlotManager_new {}) = Some (g, m) \<and>
     m' = snd (set_key set_crypto g 0 [] () m) \<and> crypto_controller m' \<subseteq> {key_slot g} \<and>
     slots_held 2 m' = {key_slot g}"
proof -
  let ?m = "\<lparr>key_slot_state = - 2, crypto_controller = {}\<rparr>"
  let ?g = "\<lparr>guard_slot = 0, guard_interface = 0\<rparr>"
  have a: "acquire_key_slot_guard shift_macros 2 0 (KeySlotManager_new {}) = Some (?g, ?m)"
    by (simp add: acquire_key_slot_guard_def acquire_key_slot_def shift_macros_def KeySlotManager_new_def
        find_index_def upt_rec)
  obtain ok m' where k: "set_key set_crypto ?g 0 [] () ?m = (ok, m')" by fastforce
  have "key_slot_run shift_macros set_crypto 2 {} [?g] m'"
    using slot_set_key [OF slot_acquire [OF slot_start a] _ k] by simp
  from key_slots_no_stale_key [OF shift_macros_ok set_crypto_ok _ _ this]
  have "crypto_controller m' \<subseteq> {key_slot ?g}" "slots_held 2 m' = {key_slot ?g}" by auto
  moreover have "m' = snd (set_key set_crypto ?g 0 [] () ?m)" using k by simp
  ultimately show ?thesis using a by blast
qed

end
