(* ===== verification/Rsn.thy ===== *)
theory Rsn
  imports Rsn_Eapol Lmac_Crypto
begin

text \<open>
  The security associations of a WPA2 connection, \<open>foa_sta/src/rsn.rs\<close>: transient keys with
  their packet numbers, the four group keys, and the crypto state that programs the hardware
  slots. The PTK partition is third-party code and a parameter. A failed \<open>unwrap\<close> is a panic.
\<close>

section \<open>Transient keys\<close>

datatype cipher_suite = Ccmp128 | Ccmp256 | Gcmp128 | Gcmp256 | Tkip | OtherCipher nat

datatype akm_type = Psk | Sae | OpportunisticWirelessEncryption | OtherAkm nat

datatype key_type = KeyPairwise | KeyGroup

record ccmp_parameters =
  ccmp_key :: bytes
  ccmp_key_type :: key_type
  mfp_enabled :: bool
  spp_enabled :: bool

record tksa =
  tk_key :: bytes
  tk_key_id :: u8
  replay_counter :: u64
  packet_number :: u64

definition TKSA_new :: "bytes \<Rightarrow> u8 \<Rightarrow> tksa" where
  "TKSA_new key kid = \<lparr>tk_key = key, tk_key_id = kid, replay_counter = 0, packet_number = 1\<rparr>"

definition with_receive_floor :: "u64 \<Rightarrow> tksa \<Rightarrow> tksa" where
  "with_receive_floor floor k = k\<lparr>replay_counter := floor\<rparr>"

type_synonym ptk_partition = "bytes \<Rightarrow> akm_type \<Rightarrow> cipher_suite \<Rightarrow> (bytes \<times> bytes \<times> bytes) option"

definition tk :: "ptk_partition \<Rightarrow> bool \<Rightarrow> akm_type \<Rightarrow> cipher_suite \<Rightarrow> tksa \<Rightarrow> panic + bytes" where
  "tk partition_ptk is_pairwise akm cipher k =
     (if is_pairwise
      then (case partition_ptk (tk_key k) akm cipher of
              None \<Rightarrow> Inl (Panic ''called Option::unwrap() on a None value'')
            | Some (_, _, t) \<Rightarrow> Inr t)
      else Inr (tk_key k))"

definition next_packet_number :: "tksa \<Rightarrow> u64 \<times> tksa" where
  "next_packet_number k = (packet_number k, k\<lparr>packet_number := packet_number k + 1\<rparr>)"

definition update_and_validate_replay_counter :: "u64 \<Rightarrow> tksa \<Rightarrow> bool \<times> tksa" where
  "update_and_validate_replay_counter pn k =
     (let valid = replay_counter k < pn
      in if valid then (True, k\<lparr>replay_counter := pn\<rparr>) else (False, k))"

section \<open>Security associations and the crypto state\<close>

record security_associations =
  ptksa :: tksa
  group_keys :: "tksa option list"
  active_group_id :: u8
  akm_suite :: akm_type
  sa_cipher_suite :: cipher_suite

definition pairwise_temporal_key :: "ptk_partition \<Rightarrow> security_associations \<Rightarrow> panic + bytes" where
  "pairwise_temporal_key partition_ptk sa = tk partition_ptk True (akm_suite sa) (sa_cipher_suite sa) (ptksa sa)"

definition group_key :: "u8 \<Rightarrow> security_associations \<Rightarrow> tksa option" where
  "group_key kid sa = (case get_at (unat kid) (group_keys sa) of None \<Rightarrow> None | Some k \<Rightarrow> k)"

definition active_group_key :: "security_associations \<Rightarrow> panic + tksa" where
  "active_group_key sa =
     (case group_key (active_group_id sa) sa of
        None \<Rightarrow> Inl (Panic ''called Option::unwrap() on a None value'')
      | Some k \<Rightarrow> Inr k)"

record crypto_state =
  message3_replay :: message3_replay
  gtk_key_slots :: "key_slot_guard list"
  last_group_message :: "group_message1 option"
  group_request_counter :: u64
  ptk_key_slot :: key_slot_guard
  security_associations :: security_associations

type_synonym 'c key_hw = "'c key_slot_manager"

text \<open>Both programming steps unwrap the driver's result.\<close>

definition program_group_key ::
  "('c, ccmp_parameters) crypto_ops \<Rightarrow> u8 \<Rightarrow> mac_address \<Rightarrow> crypto_state \<Rightarrow> 'c key_hw \<Rightarrow> panic + 'c key_hw" where
  "program_group_key co kid bssid cs hw =
     (case group_key kid (security_associations cs) of
        None \<Rightarrow> Inl (Panic ''called Option::unwrap() on a None value'')
      | Some k \<Rightarrow>
          (case set_key co (gtk_key_slots cs ! unat kid) kid bssid
                  \<lparr>ccmp_key = tk_key k, ccmp_key_type = KeyGroup, mfp_enabled = False, spp_enabled = False\<rparr> hw of
             (True, hw') \<Rightarrow> Inr hw'
           | (False, _) \<Rightarrow> Inl (Panic ''called Result::unwrap() on an Err value'')))"

definition program_pairwise_key ::
  "('c, ccmp_parameters) crypto_ops \<Rightarrow> ptk_partition \<Rightarrow> mac_address \<Rightarrow> crypto_state \<Rightarrow> 'c key_hw \<Rightarrow> panic + 'c key_hw" where
  "program_pairwise_key co partition_ptk bssid cs hw =
     (case pairwise_temporal_key partition_ptk (security_associations cs) of
        Inl p \<Rightarrow> Inl p
      | Inr t \<Rightarrow>
          if length t \<noteq> 16 then Inl (Panic ''called Result::unwrap() on an Err value'')
          else case set_key co (ptk_key_slot cs) 0 bssid
                      \<lparr>ccmp_key = t, ccmp_key_type = KeyPairwise, mfp_enabled = False, spp_enabled = False\<rparr> hw of
                 (True, hw') \<Rightarrow> Inr hw'
               | (False, _) \<Rightarrow> Inl (Panic ''called Result::unwrap() on an Err value''))"

definition CryptoState_new ::
  "('c, ccmp_parameters) crypto_ops \<Rightarrow> ptk_partition \<Rightarrow> key_slot_guard list \<Rightarrow> key_slot_guard \<Rightarrow> mac_address \<Rightarrow>
     security_associations \<Rightarrow> message3_replay \<Rightarrow> 'c key_hw \<Rightarrow> panic + crypto_state \<times> 'c key_hw" where
  "CryptoState_new co partition_ptk gtk_slots ptk_slot bssid sa m3r hw =
     (let temp = \<lparr>message3_replay = m3r, gtk_key_slots = gtk_slots, last_group_message = None, group_request_counter = 0,
                  ptk_key_slot = ptk_slot, security_associations = sa\<rparr>
      in case program_pairwise_key co partition_ptk bssid temp hw of
           Inl p \<Rightarrow> Inl p
         | Inr hw1 \<Rightarrow>
             (case program_group_key co (active_group_id sa) bssid temp hw1 of
                Inl p \<Rightarrow> Inl p
              | Inr hw2 \<Rightarrow> Inr (temp, hw2)))"

text \<open>Another key ID already holds the key of the message.\<close>

definition key_reused :: "group_message1 \<Rightarrow> security_associations \<Rightarrow> bool" where
  "key_reused msg sa \<longleftrightarrow>
     (\<exists>other < length (group_keys sa). other \<noteq> unat (g1_key_id msg) \<and>
        (case group_keys sa ! other of None \<Rightarrow> False | Some k \<Rightarrow> tk_key k = g1_key msg))"

definition key_already_installed :: "group_message1 \<Rightarrow> security_associations \<Rightarrow> bool" where
  "key_already_installed msg sa \<longleftrightarrow>
     (case group_key (g1_key_id msg) sa of None \<Rightarrow> False | Some k \<Rightarrow> tk_key k = g1_key msg)"

definition install_group_key :: "group_message1 \<Rightarrow> security_associations \<Rightarrow> security_associations" where
  "install_group_key msg sa =
     sa\<lparr>group_keys := (group_keys sa)[unat (g1_key_id msg) :=
          Some (with_receive_floor (g1_rsc msg) (TKSA_new (g1_key msg) (g1_key_id msg)))]\<rparr>"

definition accept_group_message ::
  "('c, ccmp_parameters) crypto_ops \<Rightarrow> group_message1 \<Rightarrow> mac_address \<Rightarrow> crypto_state \<Rightarrow> 'c key_hw \<Rightarrow>
     panic + bool option \<times> crypto_state \<times> 'c key_hw" where
  "accept_group_message co msg bssid cs hw =
     (let c = Message3Replay_counter (message3_replay cs); sa = security_associations cs
      in if g1_counter msg < c then Inr (None, cs, hw)
         else if g1_counter msg = c
         then Inr (if last_group_message cs = Some msg then Some False else None, cs, hw)
         else if unat (g1_key_id msg) \<ge> length (group_keys sa) then Inr (None, cs, hw)
         else if key_reused msg sa then Inr (None, cs, hw)
         else
           (let already_installed = key_already_installed msg sa;
                cs1 = (if already_installed then cs else cs\<lparr>security_associations := install_group_key msg sa\<rparr>)
            in case (if already_installed then Inr hw else program_group_key co (g1_key_id msg) bssid cs1 hw) of
                 Inl p \<Rightarrow> Inl p
               | Inr hw' \<Rightarrow>
                   Inr (Some (\<not> already_installed),
                        cs1\<lparr>security_associations := (security_associations cs1)\<lparr>active_group_id := g1_key_id msg\<rparr>,
                            message3_replay := Message3Replay_advance (g1_counter msg) (message3_replay cs1),
                            last_group_message := Some msg\<rparr>,
                        hw')))"

section \<open>Packet numbers\<close>

text \<open>A data frame with packet number \<open>n\<close>, as the receive path validates it.\<close>

definition offer_pn :: "tksa \<Rightarrow> nat \<Rightarrow> bool \<times> tksa" where
  "offer_pn k n = (if n < 2 ^ 64 then update_and_validate_replay_counter (word_of_nat n) k else (False, k))"

interpretation ccmp: replay_guard offer_pn "\<lambda>k. unat (replay_counter k)"
proof (unfold_locales, goal_cases)
  case (1 s n s')
  then have n: "n < 2 ^ 64" "replay_counter s < word_of_nat n" "replay_counter s' = word_of_nat n"
    by (auto simp: offer_pn_def update_and_validate_replay_counter_def Let_def split: if_splits)
  then show ?case using unat_of_small [OF n(1)] by (metis word_less_nat_alt)
next
  case (2 s n s')
  then show ?case by (auto simp: offer_pn_def update_and_validate_replay_counter_def Let_def split: if_splits)
qed

text \<open>The packet numbers of the next \<open>n\<close> transmitted frames.\<close>

fun send_pns :: "nat \<Rightarrow> tksa \<Rightarrow> u64 list" where
  "send_pns 0 k = []"
| "send_pns (Suc n) k = (let (pn, k') = next_packet_number k in pn # send_pns n k')"

lemma send_pns_eq:
  "unat (packet_number k) + n \<le> 2 ^ 64 \<Longrightarrow> map unat (send_pns n k) = [unat (packet_number k)..<unat (packet_number k) + n]"
proof (induction n arbitrary: k)
  case 0
  then show ?case by simp
next
  case (Suc n)
  let ?k = "snd (next_packet_number k)"
  show ?case
  proof (cases "n = 0")
    case True
    then show ?thesis by (simp add: next_packet_number_def Let_def)
  next
    case False
    then have "unat (packet_number k) < 2 ^ 64 - 1" using Suc.prems by simp
    then have "packet_number k \<noteq> - 1" using word_max_unat [where 'n = 64] by fastforce
    then have "unat (packet_number ?k) = unat (packet_number k) + 1"
      using unat_inc by (simp add: next_packet_number_def)
    then show ?thesis using Suc.IH [of ?k] Suc.prems
      by (simp add: next_packet_number_def Let_def upt_rec [of "unat (packet_number k)"])
  qed
qed

section \<open>The group keys\<close>

abbreviation gkeys :: "crypto_state \<Rightarrow> tksa option list" where
  "gkeys cs \<equiv> group_keys (security_associations cs)"

definition keys_ok :: "tksa option list \<Rightarrow> bool" where
  "keys_ok ks \<longleftrightarrow>
     length ks = 4 \<and>
     (\<forall>i k. i < length ks \<and> ks ! i = Some k \<longrightarrow> unat (tk_key_id k) = i) \<and>
     (\<forall>i j k l. i < length ks \<and> j < length ks \<and> i \<noteq> j \<and> ks ! i = Some k \<and> ks ! j = Some l \<longrightarrow> tk_key k \<noteq> tk_key l)"

definition crypto_ok :: "crypto_state \<Rightarrow> bool" where
  "crypto_ok cs \<longleftrightarrow>
     keys_ok (gkeys cs) \<and> group_key (active_group_id (security_associations cs)) (security_associations cs) \<noteq> None"

lemma keys_ok_update:
  assumes "keys_ok ks" "i < length ks" "unat (tk_key_id n) = i"
    and "\<And>j k. j < length ks \<Longrightarrow> j \<noteq> i \<Longrightarrow> ks ! j = Some k \<Longrightarrow> tk_key k \<noteq> tk_key n"
  shows "keys_ok (ks[i := Some n])"
  unfolding keys_ok_def
proof (intro conjI allI impI)
  show "length (ks[i := Some n]) = 4" using assms(1) by (simp add: keys_ok_def)
  fix j k assume "j < length (ks[i := Some n]) \<and> ks[i := Some n] ! j = Some k"
  then show "unat (tk_key_id k) = j" using assms(1,3) unfolding keys_ok_def
    by (cases "j = i") auto
next
  fix j l k m
  assume a: "j < length (ks[i := Some n]) \<and> l < length (ks[i := Some n]) \<and> j \<noteq> l \<and>
      ks[i := Some n] ! j = Some k \<and> ks[i := Some n] ! l = Some m"
  consider "j = i" "l \<noteq> i" | "l = i" "j \<noteq> i" | "j \<noteq> i" "l \<noteq> i" using a by blast
  then show "tk_key k \<noteq> tk_key m"
  proof cases
    case 1
    then show ?thesis using a assms(4) [of l m] by auto
  next
    case 2
    then show ?thesis using a assms(4) [of j k] by auto
  next
    case 3
    then show ?thesis using a assms(1) unfolding keys_ok_def by simp
  qed
qed

lemma keys_ok_replace:
  assumes "keys_ok ks" "i < length ks" "ks ! i = Some k" "tk_key k' = tk_key k" "tk_key_id k' = tk_key_id k"
  shows "keys_ok (ks[i := Some k'])"
proof (rule keys_ok_update [OF assms(1,2)])
  show "unat (tk_key_id k') = i" using assms(1-3,5) unfolding keys_ok_def by simp
  fix j l assume "j < length ks" "j \<noteq> i" "ks ! j = Some l"
  then show "tk_key l \<noteq> tk_key k'" using assms unfolding keys_ok_def by metis
qed

text \<open>The three outcomes of a group message: nothing happens, the installed key becomes the
  active one, or a new key is installed.\<close>

lemma accept_group_message_cases:
  assumes "accept_group_message co msg bssid cs hw = Inr (r, cs', hw')" "length (gkeys cs) = 4"
  obtains (same) "cs' = cs" "hw' = hw" "r \<noteq> Some True"
    | (again) "r = Some False" "hw' = hw" "eapol_counter (message3_replay cs) < g1_counter msg"
        "eapol_counter (message3_replay cs') = g1_counter msg" "gkeys cs' = gkeys cs"
        "ptksa (security_associations cs') = ptksa (security_associations cs)"
        "active_group_id (security_associations cs') = g1_key_id msg" "key_already_installed msg (security_associations cs)"
        "last_group_message cs' = Some msg"
    | (fresh) "r = Some True" "eapol_counter (message3_replay cs) < g1_counter msg"
        "eapol_counter (message3_replay cs') = g1_counter msg" "unat (g1_key_id msg) < 4"
        "gkeys cs' = (gkeys cs)[unat (g1_key_id msg) := Some \<lparr>tk_key = g1_key msg, tk_key_id = g1_key_id msg,
           replay_counter = g1_rsc msg, packet_number = 1\<rparr>]"
        "ptksa (security_associations cs') = ptksa (security_associations cs)"
        "active_group_id (security_associations cs') = g1_key_id msg"
        "\<not> key_reused msg (security_associations cs)" "\<not> key_already_installed msg (security_associations cs)"
        "last_group_message cs' = Some msg"
proof -
  let ?sa = "security_associations cs"
  show thesis
  proof (cases "g1_counter msg \<le> eapol_counter (message3_replay cs) \<or> 4 \<le> unat (g1_key_id msg) \<or> key_reused msg ?sa")
    case True
    then have "cs' = cs \<and> hw' = hw \<and> r \<noteq> Some True" using assms
      by (auto simp: accept_group_message_def Message3Replay_counter_def Let_def le_less split: if_splits)
    then show ?thesis using same by blast
  next
    case False
    then have "\<not> g1_counter msg \<le> eapol_counter (message3_replay cs)" by blast
    then have g: "eapol_counter (message3_replay cs) < g1_counter msg" by (rule not_le_imp_less)
    have guard: "\<not> g1_counter msg < eapol_counter (message3_replay cs)" "g1_counter msg \<noteq> eapol_counter (message3_replay cs)"
      "\<not> 4 \<le> unat (g1_key_id msg)" "\<not> key_reused msg ?sa"
      using order.asym [OF g] order.strict_implies_not_eq [OF g] False by metis+
    note D = assms(1) [unfolded accept_group_message_def Message3Replay_counter_def Let_def assms(2)]
    show ?thesis
    proof (cases "key_already_installed msg ?sa")
      case True
      then have "r = Some False" "hw' = hw" "cs' = cs\<lparr>security_associations := ?sa\<lparr>active_group_id := g1_key_id msg\<rparr>,
          message3_replay := (message3_replay cs)\<lparr>eapol_counter := g1_counter msg\<rparr>, last_group_message := Some msg\<rparr>"
        using D guard(1-4) by (simp_all add: Message3Replay_advance_def)
      then show ?thesis using g True by (intro again) simp_all
    next
      case False
      then have "r = Some True" "cs' = cs\<lparr>security_associations := (install_group_key msg ?sa)\<lparr>active_group_id := g1_key_id msg\<rparr>,
          message3_replay := (message3_replay cs)\<lparr>eapol_counter := g1_counter msg\<rparr>, last_group_message := Some msg\<rparr>"
        using D guard(1-4) by (simp_all add: Message3Replay_advance_def split: sum.splits)
      then show ?thesis using guard(3,4) g False
        by (intro fresh) (simp_all add: install_group_key_def TKSA_new_def with_receive_floor_def)
    qed
  qed
qed

lemma key_already_installed_Some:
  "key_already_installed msg sa \<Longrightarrow> group_key (g1_key_id msg) sa \<noteq> None"
  by (auto simp: key_already_installed_def split: option.splits)

lemma key_reused_iff:
  "key_reused msg sa \<longleftrightarrow>
     (\<exists>i k. i < length (group_keys sa) \<and> i \<noteq> unat (g1_key_id msg) \<and> group_keys sa ! i = Some k \<and> tk_key k = g1_key msg)"
  by (auto simp: key_reused_def split: option.splits)

lemma accept_group_message_ok [foa_inv]:
  assumes "crypto_ok cs" "accept_group_message co msg bssid cs hw = Inr (r, cs', hw')"
  shows "crypto_ok cs'"
proof -
  have K: "keys_ok (gkeys cs)" using assms(1) by (simp add: crypto_ok_def)
  then have len: "length (gkeys cs) = 4" by (simp add: keys_ok_def)
  show ?thesis using assms(2) len
  proof (cases rule: accept_group_message_cases)
    case same
    then show ?thesis using assms(1) by simp
  next
    case again
    have "group_key (g1_key_id msg) (security_associations cs') \<noteq> None"
      using key_already_installed_Some [OF again(8)] again(5) by (simp add: group_key_def)
    then show ?thesis using K again(5,7) by (simp add: crypto_ok_def)
  next
    case fresh
    have "group_key (active_group_id (security_associations cs')) (security_associations cs') \<noteq> None"
      using fresh(4,5,7) len by (simp add: group_key_def get_at_def)
    moreover have "keys_ok (gkeys cs')" unfolding fresh(5)
    proof (rule keys_ok_update [OF K])
      show "unat (g1_key_id msg) < length (gkeys cs)" using fresh(4) len by simp
      fix j k assume "j < length (gkeys cs)" "j \<noteq> unat (g1_key_id msg)" "gkeys cs ! j = Some k"
      then show "tk_key k \<noteq> tk_key \<lparr>tk_key = g1_key msg, tk_key_id = g1_key_id msg, replay_counter = g1_rsc msg, packet_number = 1\<rparr>"
        using fresh(8) unfolding key_reused_iff by auto
    qed simp
    ultimately show ?thesis by (simp add: crypto_ok_def)
  qed
qed

text \<open>Runs of a connection: group messages and received group data frames.\<close>

inductive group_run ::
  "('c, ccmp_parameters) crypto_ops \<Rightarrow> mac_address \<Rightarrow> crypto_state \<times> 'c key_hw \<Rightarrow> crypto_state \<times> 'c key_hw \<Rightarrow> bool"
  for co bssid s0 where
  group_start: "group_run co bssid s0 s0"
| group_message: "group_run co bssid s0 (cs, hw) \<Longrightarrow> accept_group_message co msg bssid cs hw = Inr (r, cs', hw') \<Longrightarrow>
     group_run co bssid s0 (cs', hw')"
| group_data: "group_run co bssid s0 (cs, hw) \<Longrightarrow> i < length (gkeys cs) \<Longrightarrow> gkeys cs ! i = Some k \<Longrightarrow>
     update_and_validate_replay_counter pn k = (ok, k') \<Longrightarrow>
     group_run co bssid s0
       (cs\<lparr>security_associations := (security_associations cs)\<lparr>group_keys := (gkeys cs)[i := Some k']\<rparr>\<rparr>, hw)"

lemma update_and_validate_same:
  "update_and_validate_replay_counter pn k = (ok, k') \<Longrightarrow> tk_key k' = tk_key k \<and> tk_key_id k' = tk_key_id k"
  by (auto simp: update_and_validate_replay_counter_def Let_def split: if_splits)

lemma group_data_ok [foa_inv]:
  assumes "crypto_ok cs" "i < length (gkeys cs)" "gkeys cs ! i = Some k" "tk_key k' = tk_key k" "tk_key_id k' = tk_key_id k"
  shows "crypto_ok (cs\<lparr>security_associations := (security_associations cs)\<lparr>group_keys := (gkeys cs)[i := Some k']\<rparr>\<rparr>)"
proof -
  have K: "keys_ok (gkeys cs)" "length (gkeys cs) = 4" using assms(1) by (auto simp: crypto_ok_def keys_ok_def)
  have "group_key (active_group_id (security_associations cs))
      ((security_associations cs)\<lparr>group_keys := (gkeys cs)[i := Some k']\<rparr>) \<noteq> None"
    using assms(1,2) by (simp add: crypto_ok_def group_key_def get_at_def nth_list_update split: if_splits)
  then show ?thesis using keys_ok_replace [OF K(1) assms(2-5)] by (simp add: crypto_ok_def)
qed

lemma group_run_ok: "group_run co bssid s0 s \<Longrightarrow> crypto_ok (fst s0) \<Longrightarrow> crypto_ok (fst s)"
proof (induction rule: group_run.induct)
  case group_start
  then show ?case .
next
  case (group_message cs hw msg r cs' hw')
  then show ?case using accept_group_message_ok by fastforce
next
  case (group_data cs hw i k pn ok k')
  then show ?case using group_data_ok [of cs i k k'] update_and_validate_same by fastforce
qed

section \<open>Properties\<close>

text \<open>A driver whose programming always succeeds, and a state with one group key.\<close>

definition counting_crypto :: "(nat, ccmp_parameters) crypto_ops" where
  "counting_crypto = \<lparr>driver_set_key = (\<lambda>_ _ _ _ _ c. (True, c + 1)), driver_delete_key = (\<lambda>_ c. (True, c))\<rparr>"

definition demo_crypto :: crypto_state where
  "demo_crypto =
     \<lparr>message3_replay = Message3Replay_new [] [] 3,
      gtk_key_slots = replicate 4 \<lparr>guard_slot = 0, guard_interface = 0\<rparr>, last_group_message = None, group_request_counter = 0,
      ptk_key_slot = \<lparr>guard_slot = 4, guard_interface = 0\<rparr>,
      security_associations = \<lparr>ptksa = TKSA_new [] 0,
        group_keys = [None, Some (with_receive_floor 9 (TKSA_new [1] 1)), None, None],
        active_group_id = 1, akm_suite = Psk, sa_cipher_suite = Ccmp128\<rparr>\<rparr>"

definition demo_g1 :: group_message1 where
  "demo_g1 = \<lparr>g1_counter = 4, g1_nonce = [], g1_key = [1], g1_key_id = 1, g1_rsc = 0\<rparr>"

lemma demo_crypto_ok: "crypto_ok demo_crypto"
proof -
  have "keys_ok ((replicate 4 None)[1 := Some (with_receive_floor 9 (TKSA_new [1] 1))])"
    by (rule keys_ok_update) (auto simp: keys_ok_def with_receive_floor_def TKSA_new_def)
  moreover have "replicate 4 None = [None, None, None, None :: tksa option]" by (simp add: numeral_eq_Suc)
  ultimately have "keys_ok (gkeys demo_crypto)" by (simp add: demo_crypto_def)
  then show ?thesis by (simp add: crypto_ok_def demo_crypto_def group_key_def get_at_def)
qed

lemma demo_accept:
  "accept_group_message counting_crypto demo_g1 [] demo_crypto (KeySlotManager_new 0) =
     Inr (Some False, demo_crypto\<lparr>message3_replay := Message3Replay_new [] [] 4, last_group_message := Some demo_g1\<rparr>,
       KeySlotManager_new 0)"
proof -
  have "\<not> key_reused demo_g1 (security_associations demo_crypto)"
    unfolding key_reused_iff by (auto simp: demo_crypto_def demo_g1_def nth_Cons split: nat.splits)
  moreover have "key_already_installed demo_g1 (security_associations demo_crypto)"
    by (simp add: key_already_installed_def group_key_def get_at_def demo_g1_def demo_crypto_def
        with_receive_floor_def TKSA_new_def)
  ultimately show ?thesis
    by (simp add: accept_group_message_def Let_def Message3Replay_counter_def)
      (simp add: demo_crypto_def demo_g1_def Message3Replay_new_def Message3Replay_advance_def word_less_nat_alt)
qed

text \<open>
  C17: replayed data frames are rejected. Whatever sequence of packet numbers arrives under a
  key, the accepted ones are strictly increasing and above the receive floor the key was
  installed with, so no frame is accepted twice.
\<close>

theorem ccmp_replay_rejected:
  "sorted_wrt (<) (accepted offer_pn (with_receive_floor floor (TKSA_new key kid)) pns) \<and>
   (\<forall>n. n \<in> set (accepted offer_pn (with_receive_floor floor (TKSA_new key kid)) pns) \<longrightarrow> unat floor < n)"
  using ccmp.accepted_increasing [of "with_receive_floor floor (TKSA_new key kid)" pns]
    ccmp.accepted_above [of _ "with_receive_floor floor (TKSA_new key kid)" pns]
  by (simp add: with_receive_floor_def)

theorem ccmp_replay_rejected_witness:
  "sorted_wrt (<) (accepted offer_pn (with_receive_floor 3 (TKSA_new [] 0)) [4, 4, 2, 9]) \<and>
   accepted offer_pn (with_receive_floor 3 (TKSA_new [] 0)) [4, 4, 2, 9] = [4, 9]"
  using ccmp_replay_rejected [of 3 "[]" 0 "[4, 4, 2, 9]"]
  by (simp add: offer_pn_def update_and_validate_replay_counter_def with_receive_floor_def TKSA_new_def
      Let_def word_less_nat_alt)

text \<open>
  Packet numbers are never reused for transmission. The first \<open>n\<close> frames sent under a new
  key carry the packet numbers one to \<open>n\<close>, as long as the 64-bit counter does not wrap.
\<close>

theorem transmit_packet_numbers:
  assumes "n < 2 ^ 64"
  shows "map unat (send_pns n (TKSA_new key kid)) = [1..<Suc n] \<and> distinct (send_pns n (TKSA_new key kid))"
proof -
  have "map unat (send_pns n (TKSA_new key kid)) = [1..<Suc n]"
    using send_pns_eq [of "TKSA_new key kid" n] assms by (simp add: TKSA_new_def)
  then show ?thesis by (metis distinct_map distinct_upt)
qed

theorem transmit_packet_numbers_witness:
  "map unat (send_pns 2 (TKSA_new [] 0)) = [1..<Suc 2]"
  using transmit_packet_numbers [of 2 "[]" 0] by simp

text \<open>
  C8: installed keys are never reinstalled. Whatever authenticated group message arrives, a
  group key that stays in place keeps its replay counter, the pairwise key with its packet
  numbers is untouched, the EAPOL counter never goes back, and the hardware is programmed
  only for a key no slot holds; a message that installs a key is newer than all before it.
\<close>

theorem group_key_not_reinstalled:
  assumes "crypto_ok cs" "accept_group_message co msg bssid cs hw = Inr (r, cs', hw')"
  shows "ptksa (security_associations cs') = ptksa (security_associations cs) \<and>
     eapol_counter (message3_replay cs) \<le> eapol_counter (message3_replay cs') \<and>
     (\<forall>i k k'. i < 4 \<and> gkeys cs ! i = Some k \<and> gkeys cs' ! i = Some k' \<and> tk_key k' = tk_key k \<longrightarrow> k' = k) \<and>
     (r \<noteq> Some True \<longrightarrow> hw' = hw \<and> gkeys cs' = gkeys cs) \<and>
     (r = Some True \<longrightarrow> eapol_counter (message3_replay cs) < g1_counter msg \<and>
        active_group_id (security_associations cs') = g1_key_id msg \<and>
        (\<forall>i k. i < 4 \<and> gkeys cs ! i = Some k \<longrightarrow> tk_key k \<noteq> g1_key msg))"
proof -
  have len: "length (gkeys cs) = 4" using assms(1) by (simp add: crypto_ok_def keys_ok_def)
  show ?thesis using assms(2) len
  proof (cases rule: accept_group_message_cases)
    case same
    then show ?thesis by auto
  next
    case again
    then show ?thesis using less_imp_le [OF again(3)] by auto
  next
    case fresh
    let ?i = "unat (g1_key_id msg)"
    have other: "tk_key k \<noteq> g1_key msg" if "i < 4" "gkeys cs ! i = Some k" for i k
    proof (cases "i = ?i")
      case True
      then show ?thesis using fresh(9) that len
        by (auto simp: key_already_installed_def group_key_def get_at_def)
    next
      case False
      then show ?thesis using fresh(8) that len unfolding key_reused_iff by metis
    qed
    have keep: "k' = k" if "i < 4" "gkeys cs ! i = Some k" "gkeys cs' ! i = Some k'" "tk_key k' = tk_key k" for i k k'
      using that other [of i k] fresh(5) len by (cases "i = ?i") auto
    show ?thesis using fresh(1,2,3,6,7) less_imp_le [OF fresh(2)] other keep by auto
  qed
qed

theorem group_key_not_reinstalled_witness:
  "\<exists>cs' hw'. accept_group_message counting_crypto demo_g1 [] demo_crypto (KeySlotManager_new 0) = Inr (Some False, cs', hw') \<and>
     gkeys cs' = gkeys demo_crypto \<and> hw' = KeySlotManager_new 0"
  using group_key_not_reinstalled [OF demo_crypto_ok demo_accept] demo_accept by auto

text \<open>
  In every state a connection reaches through group messages and received group frames,
  the active group key is installed, so reading it never panics, every key sits under its own
  ID, and no key material is installed under two IDs.
\<close>

theorem group_keys_wellformed:
  assumes "group_run co bssid (cs0, hw0) (cs, hw)" "crypto_ok cs0"
  shows "(\<exists>k. active_group_key (security_associations cs) = Inr k) \<and>
     (\<forall>i k. i < 4 \<and> gkeys cs ! i = Some k \<longrightarrow> unat (tk_key_id k) = i) \<and>
     (\<forall>i j k l. i < 4 \<and> j < 4 \<and> i \<noteq> j \<and> gkeys cs ! i = Some k \<and> gkeys cs ! j = Some l \<longrightarrow> tk_key k \<noteq> tk_key l)"
proof -
  have "crypto_ok cs" using group_run_ok [OF assms(1)] assms(2) by simp
  then have K: "keys_ok (gkeys cs)" and a: "group_key (active_group_id (security_associations cs)) (security_associations cs) \<noteq> None"
    by (auto simp: crypto_ok_def)
  have len: "length (gkeys cs) = 4" using K by (simp add: keys_ok_def)
  show ?thesis using a K [unfolded keys_ok_def len] by (auto simp: active_group_key_def split: option.splits)
qed

theorem group_keys_wellformed_witness:
  "\<exists>k. active_group_key (security_associations demo_crypto) = Inr k"
proof -
  have "group_run counting_crypto [] (demo_crypto, KeySlotManager_new 0) (demo_crypto, KeySlotManager_new 0)"
    by (rule group_start)
  from group_keys_wellformed [OF this demo_crypto_ok] show ?thesis by blast
qed

end
