(* ===== verification/Lmac_Channel.thy ===== *)
theory Lmac_Channel
  imports Foa_Prelude
begin

text \<open>
  Division of the channel between the interfaces, \<open>foa/src/lmac/mod.rs\<close> and
  \<open>foa/src/lmac/off_channel.rs\<close>: the channel lock, bringup operations, and off-channel
  operations with the grants they need. The driver is a parameter: \<open>tune\<close> is its \<open>set_channel\<close>,
  returning whether it succeeded, \<open>set_mode\<close> its \<open>set_scanning_mode\<close>. So is the completion
  watch. \<open>channel_driver\<close> and \<open>watch_laws\<close> state what the code relies on.
\<close>

section \<open>The channel lock\<close>

datatype lmac_error =
    InvalidChannel
  | ChannelLockedByOtherInterface
  | OffChannelRequestRejected
  | OffChannelOperationAlreadyInProgress

record 'c channel_state =
  locks :: "(bool list \<times> u8) option"
  off_channel_operation_interface :: "nat option"
  channel_controller :: 'c

record ('c, 'm) radio_ops =
  tune :: "u8 \<Rightarrow> 'c \<Rightarrow> bool \<times> 'c"
  set_mode :: "nat \<Rightarrow> 'm \<Rightarrow> 'c \<Rightarrow> 'c"
  mode_disabled :: 'm

definition channel_driver :: "u8 set \<Rightarrow> ('c \<Rightarrow> u8) \<Rightarrow> ('c, 'm) radio_ops \<Rightarrow> bool" where
  "channel_driver valid current ro \<longleftrightarrow>
     (\<forall>ch c. fst (tune ro ch c) = (ch \<in> valid) \<and>
        current (snd (tune ro ch c)) = (if ch \<in> valid then ch else current c)) \<and>
     (\<forall>i m c. current (set_mode ro i m c) = current c)"

definition ChannelState_new :: "'c \<Rightarrow> 'c channel_state" where
  "ChannelState_new c = \<lparr>locks = None, off_channel_operation_interface = None, channel_controller = c\<rparr>"

definition lock_count :: "bool list \<Rightarrow> nat" where
  "lock_count ls = length (filter (\<lambda>l. l) ls)"

text \<open>The decision of \<open>ChannelState::lock_channel\<close>: an error, or whether the channel changed,
  with the new locks.\<close>

definition lock_decision ::
  "nat \<Rightarrow> nat \<Rightarrow> u8 \<Rightarrow> (bool list \<times> u8) option \<Rightarrow> lmac_error + bool \<times> (bool list \<times> u8)" where
  "lock_decision I iface ch lk =
     (case lk of
        Some (ls, locked_channel) \<Rightarrow>
          (let already_locked_by_interface = ls ! iface;
               same_channel = (locked_channel = ch);
               interface_lock_count = lock_count ls
           in if \<not> same_channel \<and> (\<not> already_locked_by_interface \<or> interface_lock_count > 1)
              then Inl ChannelLockedByOtherInterface
              else if already_locked_by_interface \<and> interface_lock_count = 1
              then Inr (True, (ls, ch))
              else if \<not> already_locked_by_interface \<and> same_channel
              then Inr (False, (ls[iface := True], locked_channel))
              else Inr (False, (ls, locked_channel)))
      | None \<Rightarrow> Inr (True, (map (\<lambda>i. i = iface) [0..<I], ch)))"

definition ChannelState_lock_channel ::
  "nat \<Rightarrow> ('c, 'm) radio_ops \<Rightarrow> nat \<Rightarrow> u8 \<Rightarrow> 'c channel_state \<Rightarrow> (lmac_error + bool) \<times> 'c channel_state" where
  "ChannelState_lock_channel I ro iface ch cs =
     (case lock_decision I iface ch (locks cs) of
        Inl e \<Rightarrow> (Inl e, cs)
      | Inr (changed, lk) \<Rightarrow>
          (let cs1 = cs\<lparr>locks := Some lk\<rparr>
           in if changed
              then (let (ok, c) = tune ro ch (channel_controller cs1); cs2 = cs1\<lparr>channel_controller := c\<rparr>
                    in (if ok then Inr True else Inl InvalidChannel, cs2))
              else (Inr False, cs1)))"

definition ChannelState_unlock_channel :: "nat \<Rightarrow> nat \<Rightarrow> 'c channel_state \<Rightarrow> 'c channel_state" where
  "ChannelState_unlock_channel I iface cs =
     (case locks cs of
        Some (ls, ch) \<Rightarrow>
          (if ls ! iface
           then (let ls' = ls[iface := False]
                 in cs\<lparr>locks := (if ls' = replicate I False then None else Some (ls', ch))\<rparr>)
           else cs)
      | None \<Rightarrow> cs)"

definition off_channel_operation_in_progress :: "'c channel_state \<Rightarrow> bool" where
  "off_channel_operation_in_progress cs \<longleftrightarrow> off_channel_operation_interface cs \<noteq> None"

section \<open>The interface control\<close>

definition unlock_channel_internal :: "nat \<Rightarrow> nat \<Rightarrow> 'c channel_state \<Rightarrow> 'c channel_state" where
  "unlock_channel_internal I iface cs = ChannelState_unlock_channel I iface cs"

definition lock_channel_internal ::
  "nat \<Rightarrow> ('c, 'm) radio_ops \<Rightarrow> nat \<Rightarrow> u8 \<Rightarrow> 'c channel_state \<Rightarrow> (lmac_error + unit) \<times> 'c channel_state" where
  "lock_channel_internal I ro iface ch cs =
     (case ChannelState_lock_channel I ro iface ch cs of
        (Inl e, cs1) \<Rightarrow> (Inl e, cs1)
      | (Inr False, cs1) \<Rightarrow> (Inr (), cs1)
      | (Inr True, cs1) \<Rightarrow>
          (let (ok, c) = tune ro ch (channel_controller cs1); cs2 = cs1\<lparr>channel_controller := c\<rparr>
           in if ok then (Inr (), cs2) else (Inl InvalidChannel, unlock_channel_internal I iface cs2)))"

text \<open>A bringup operation is the guard of the interface it was started for.\<close>

definition begin_interface_bringup_operation ::
  "nat \<Rightarrow> ('c, 'm) radio_ops \<Rightarrow> nat \<Rightarrow> u8 \<Rightarrow> 'c channel_state \<Rightarrow> (lmac_error + nat) \<times> 'c channel_state" where
  "begin_interface_bringup_operation I ro iface ch cs =
     (case lock_channel_internal I ro iface ch cs of
        (Inl e, cs1) \<Rightarrow> (Inl e, cs1)
      | (Inr _, cs1) \<Rightarrow> (Inr iface, cs1))"

definition InterfaceBringupOperation_complete :: "nat \<Rightarrow> 'c channel_state \<Rightarrow> 'c channel_state" where
  "InterfaceBringupOperation_complete iface cs = cs"

definition InterfaceBringupOperation_drop :: "nat \<Rightarrow> nat \<Rightarrow> 'c channel_state \<Rightarrow> 'c channel_state" where
  "InterfaceBringupOperation_drop I iface cs = unlock_channel_internal I iface cs"

definition lock_channel ::
  "nat \<Rightarrow> ('c, 'm) radio_ops \<Rightarrow> nat \<Rightarrow> u8 \<Rightarrow> 'c channel_state \<Rightarrow> (lmac_error + unit) \<times> 'c channel_state" where
  "lock_channel I ro iface ch cs = lock_channel_internal I ro iface ch cs"

definition unlock_channel :: "nat \<Rightarrow> nat \<Rightarrow> 'c channel_state \<Rightarrow> 'c channel_state" where
  "unlock_channel I iface cs = unlock_channel_internal I iface cs"

definition home_channel :: "'c channel_state \<Rightarrow> u8 option" where
  "home_channel cs = map_option snd (locks cs)"

text \<open>The factory address adds the interface number to the last octet of the base address;
  the addition is checked in debug builds.\<close>

definition get_factory_mac_for_interface :: "mac_address \<Rightarrow> nat \<Rightarrow> panic + mac_address" where
  "get_factory_mac_for_interface base iface =
     (if unat (base ! 5) + unat (of_nat iface :: u8) < 256
      then Inr (base[5 := base ! 5 + of_nat iface])
      else Inl (Panic ''attempt to add with overflow''))"

section \<open>Off-channel requests\<close>

datatype off_channel_request_state = NotRequested | Requested | Granted | Rejected

definition request :: "off_channel_request_state \<Rightarrow> off_channel_request_state" where
  "request st = Requested"

definition request_poll ::
  "off_channel_request_state \<Rightarrow> (lmac_error + unit) poll \<times> off_channel_request_state" where
  "request_poll st =
     (case st of
        Granted \<Rightarrow> (Ready (Inr ()), NotRequested)
      | Rejected \<Rightarrow> (Ready (Inl OffChannelRequestRejected), Rejected)
      | _ \<Rightarrow> (Pending, st))"

definition wait_for_request :: "off_channel_request_state \<Rightarrow> unit poll" where
  "wait_for_request st = (if st = Requested then Ready () else Pending)"

definition grant :: "off_channel_request_state \<Rightarrow> off_channel_request_state" where
  "grant st = Granted"

definition OffChannelRequest_drop :: "off_channel_request_state \<Rightarrow> off_channel_request_state" where
  "OffChannelRequest_drop st = Rejected"

definition reject :: "off_channel_request_state \<Rightarrow> off_channel_request_state" where
  "reject st = OffChannelRequest_drop st"

section \<open>Off-channel operations\<close>

record off_channel_operation =
  op_interface :: nat
  previously_locked_channel :: "u8 option"

text \<open>
  \<open>try_begin_interface_off_channel_operation\<close> awaits one future per interface. Its state is
  the list of their outputs so far; the start requests a grant from every lock holder.
\<close>

type_synonym grant_results = "(lmac_error + unit) option list"

definition start_off_channel_operation ::
  "nat \<Rightarrow> 'c channel_state \<Rightarrow> off_channel_request_state list \<Rightarrow>
     off_channel_operation \<times> 'c channel_state" where
  "start_off_channel_operation iface cs rs =
     (let cs1 = cs\<lparr>off_channel_operation_interface := Some iface\<rparr>
      in (\<lparr>op_interface = iface, previously_locked_channel = map_option snd (locks cs1)\<rparr>, cs1))"

definition try_begin_request ::
  "'c channel_state \<Rightarrow> off_channel_request_state list \<Rightarrow>
     lmac_error + grant_results \<times> off_channel_request_state list" where
  "try_begin_request cs rs =
     (if off_channel_operation_in_progress cs then Inl OffChannelOperationAlreadyInProgress
      else case locks cs of
             None \<Rightarrow> Inr ([], rs)
           | Some (ls, _) \<Rightarrow>
               Inr (map (\<lambda>l. if l then None else Some (Inr ())) ls,
                    map (\<lambda>(l, st). if l then request st else st) (zip ls rs)))"

text \<open>One poll of the joined futures: those without an output are polled.\<close>

definition poll_grant ::
  "(lmac_error + unit) option \<Rightarrow> off_channel_request_state \<Rightarrow> (lmac_error + unit) option \<times> off_channel_request_state" where
  "poll_grant g st =
     (case g of
        Some r \<Rightarrow> (Some r, st)
      | None \<Rightarrow>
          (case request_poll st of
             (Pending, st') \<Rightarrow> (None, st')
           | (Ready r, st') \<Rightarrow> (Some r, st')))"

definition poll_grants ::
  "grant_results \<Rightarrow> off_channel_request_state list \<Rightarrow> grant_results \<times> off_channel_request_state list" where
  "poll_grants gs rs =
     (let polled = map (\<lambda>(g, st). poll_grant g st) (zip gs rs) in (map fst polled, map snd polled))"

fun first_error :: "grant_results \<Rightarrow> lmac_error option" where
  "first_error [] = None"
| "first_error (Some (Inl e) # gs) = Some e"
| "first_error (_ # gs) = first_error gs"

text \<open>When all outputs are there, the first error ends the attempt, and otherwise the
  operation starts.\<close>

definition try_begin_finish ::
  "nat \<Rightarrow> grant_results \<Rightarrow> 'c channel_state \<Rightarrow> off_channel_request_state list \<Rightarrow>
     (lmac_error + off_channel_operation) poll \<times> 'c channel_state" where
  "try_begin_finish iface gs cs rs =
     (if None \<in> set gs then (Pending, cs)
      else case first_error gs of
             Some e \<Rightarrow> (Ready (Inl e), cs)
           | None \<Rightarrow> (let (op, cs') = start_off_channel_operation iface cs rs in (Ready (Inr op), cs')))"

definition OffChannelOperation_set_channel ::
  "('c, 'm) radio_ops \<Rightarrow> u8 \<Rightarrow> 'c channel_state \<Rightarrow> (lmac_error + unit) \<times> 'c channel_state" where
  "OffChannelOperation_set_channel ro ch cs =
     (let (ok, c) = tune ro ch (channel_controller cs)
      in (if ok then Inr () else Inl InvalidChannel, cs\<lparr>channel_controller := c\<rparr>))"

definition OffChannelOperation_set_scanning_mode ::
  "('c, 'm) radio_ops \<Rightarrow> nat \<Rightarrow> 'm \<Rightarrow> 'c channel_state \<Rightarrow> 'c channel_state" where
  "OffChannelOperation_set_scanning_mode ro iface mode cs =
     cs\<lparr>channel_controller := set_mode ro iface mode (channel_controller cs)\<rparr>"

definition OffChannelOperation_drop ::
  "('c, 'm) radio_ops \<Rightarrow> ('w \<Rightarrow> 'w) \<Rightarrow> off_channel_operation \<Rightarrow> 'c channel_state \<times> 'w \<Rightarrow> 'c channel_state \<times> 'w" where
  "OffChannelOperation_drop ro watch_send op s =
     (let cs = fst s;
          back = (case home_channel cs of Some ch \<Rightarrow> Some ch | None \<Rightarrow> previously_locked_channel op);
          cs1 = (case back of None \<Rightarrow> cs | Some ch \<Rightarrow> snd (OffChannelOperation_set_channel ro ch cs));
          cs2 = OffChannelOperation_set_scanning_mode ro (op_interface op) (mode_disabled ro) cs1
      in (cs2\<lparr>off_channel_operation_interface := None\<rparr>, watch_send (snd s)))"

definition wait_for_off_channel_completion :: "('w \<Rightarrow> unit poll) \<Rightarrow> 'c channel_state \<Rightarrow> 'w \<Rightarrow> unit poll" where
  "wait_for_off_channel_completion watch_get cs w =
     (if \<not> off_channel_operation_in_progress cs then Ready () else watch_get w)"

definition begin_interface_off_channel_operation ::
  "('w \<Rightarrow> unit poll) \<Rightarrow> 'c channel_state \<Rightarrow> 'w \<Rightarrow> off_channel_request_state list \<Rightarrow>
     (lmac_error + grant_results \<times> off_channel_request_state list) poll" where
  "begin_interface_off_channel_operation watch_get cs w rs =
     (case wait_for_off_channel_completion watch_get cs w of
        Pending \<Rightarrow> Pending
      | Ready _ \<Rightarrow> Ready (try_begin_request cs rs))"

text \<open>The watch is ready once something was sent.\<close>

definition watch_laws :: "('w \<Rightarrow> unit poll) \<Rightarrow> ('w \<Rightarrow> 'w) \<Rightarrow> bool" where
  "watch_laws watch_get watch_send \<longleftrightarrow> (\<forall>w. watch_get (watch_send w) = Ready ())"

section \<open>The shape of the locks\<close>

definition locks_ok :: "nat \<Rightarrow> (bool list \<times> u8) option \<Rightarrow> bool" where
  "locks_ok I lk \<longleftrightarrow> (case lk of None \<Rightarrow> True | Some (ls, ch) \<Rightarrow> length ls = I \<and> True \<in> set ls)"

definition holds_lock :: "nat \<Rightarrow> 'c channel_state \<Rightarrow> bool" where
  "holds_lock i cs \<longleftrightarrow> (case locks cs of None \<Rightarrow> False | Some (ls, ch) \<Rightarrow> ls ! i)"

lemma lock_count_one:
  assumes "i < length ls" "ls ! i" "lock_count ls \<le> 1" "j < length ls" "ls ! j"
  shows "j = i"
proof -
  have "lock_count ls = card {k. k < length ls \<and> ls ! k}"
    by (simp add: lock_count_def length_filter_conv_card)
  then have "card {k. k < length ls \<and> ls ! k} \<le> Suc 0" using assms(3) by simp
  then show ?thesis using assms(1,2,4,5) by (auto simp: card_le_Suc0_iff_eq)
qed

lemma lock_count_pos: "True \<in> set ls \<Longrightarrow> 0 < lock_count ls"
  by (auto simp: lock_count_def filter_empty_conv)

text \<open>A successful lock records the interface on the requested channel, keeps every other
  holder, and reports a change only to a sole holder.\<close>

lemma lock_decision_ok:
  assumes "locks_ok I lk" "i < I" "lock_decision I i ch lk = Inr (changed, lk')"
  shows "locks_ok I (Some lk') \<and> snd lk' = ch \<and> fst lk' ! i \<and>
     (\<forall>j<I. j \<noteq> i \<longrightarrow> fst lk' ! j = (case lk of None \<Rightarrow> False | Some (ls, _) \<Rightarrow> ls ! j)) \<and>
     (\<not> changed \<longrightarrow> map_option snd lk = Some ch) \<and> (changed \<longrightarrow> (\<forall>j<I. fst lk' ! j \<longrightarrow> j = i))"
proof (cases lk)
  case None
  then show ?thesis using assms by (auto simp: lock_decision_def locks_ok_def image_iff)
next
  case (Some p)
  obtain ls c where p: "p = (ls, c)" by fastforce
  have ls: "length ls = I" "True \<in> set ls" using assms(1) Some p by (auto simp: locks_ok_def)
  have upd: "True \<in> set (ls[i := True])" using ls(1) assms(2) set_update_memI by fastforce
  have one: "\<forall>j<I. ls ! j \<longrightarrow> j = i" if "ls ! i" "lock_count ls = 1"
    using lock_count_one [of i ls] that ls(1) assms(2) by simp
  consider "changed" "lk' = (ls, ch)" "ls ! i" "lock_count ls = 1"
    | "\<not> changed" "c = ch" "lk' = (ls[i := True], c)"
    | "\<not> changed" "c = ch" "ls ! i" "lk' = (ls, c)"
    using assms(3) lock_count_pos [OF ls(2)] by (auto simp: Some p lock_decision_def Let_def split: if_splits)
  then show ?thesis
  proof cases
    case 1
    then show ?thesis using ls one Some p by (auto simp: locks_ok_def)
  next
    case 2
    then show ?thesis using ls upd assms(2) Some p by (auto simp: locks_ok_def)
  next
    case 3
    then show ?thesis using ls Some p by (auto simp: locks_ok_def)
  qed
qed

lemma lock_decision_other:
  "locks_ok I lk \<Longrightarrow> i < I \<Longrightarrow> lock_decision I i ch lk = Inr (changed, lk') \<Longrightarrow> j < I \<Longrightarrow> j \<noteq> i \<Longrightarrow>
     fst lk' ! j = (case lk of None \<Rightarrow> False | Some (ls, _) \<Rightarrow> ls ! j)"
  using lock_decision_ok by blast

lemma lock_decision_sole:
  "locks_ok I lk \<Longrightarrow> i < I \<Longrightarrow> lock_decision I i ch lk = Inr (True, lk') \<Longrightarrow> j < I \<Longrightarrow> fst lk' ! j \<Longrightarrow> j = i"
  using lock_decision_ok by blast

text \<open>A refused lock means another interface holds a different channel.\<close>

lemma lock_decision_error:
  assumes "locks_ok I lk" "i < I" "lock_decision I i ch lk = Inl e"
  shows "e = ChannelLockedByOtherInterface \<and>
     (\<exists>ls c j. lk = Some (ls, c) \<and> c \<noteq> ch \<and> j < I \<and> j \<noteq> i \<and> ls ! j)"
proof -
  obtain ls c where lk: "lk = Some (ls, c)" using assms(3) by (cases lk) (auto simp: lock_decision_def)
  have ls: "length ls = I" "True \<in> set ls" using assms(1) lk by (auto simp: locks_ok_def)
  have e: "e = ChannelLockedByOtherInterface" "c \<noteq> ch" "\<not> ls ! i \<or> 1 < lock_count ls"
    using assms(3) by (auto simp: lk lock_decision_def Let_def split: if_splits)
  have "\<exists>j<I. j \<noteq> i \<and> ls ! j"
  proof (rule ccontr)
    assume no: "\<not> (\<exists>j<I. j \<noteq> i \<and> ls ! j)"
    then have "{k. k < length ls \<and> ls ! k} \<subseteq> {i}" using ls(1) by auto
    then have "lock_count ls \<le> 1"
      unfolding lock_count_def length_filter_conv_card using card_mono [of "{i}"] by fastforce
    moreover have "ls ! i" using no ls by (metis in_set_conv_nth)
    ultimately show False using e(3) by simp
  qed
  then show ?thesis using e lk by auto
qed

lemma all_unlocked: "length ls = n \<Longrightarrow> ls = replicate n False \<longleftrightarrow> (\<forall>j<n. \<not> ls ! j)"
  by (auto simp: list_eq_iff_nth_eq)

lemma unlock_channel_locks:
  assumes "locks_ok I (locks cs)" "i < I"
  shows "locks_ok I (locks (ChannelState_unlock_channel I i cs))"
    and "j < I \<Longrightarrow> holds_lock j (ChannelState_unlock_channel I i cs) \<longleftrightarrow> j \<noteq> i \<and> holds_lock j cs"
    and "channel_controller (ChannelState_unlock_channel I i cs) = channel_controller cs"
    and "home_channel (ChannelState_unlock_channel I i cs) \<in> {None, home_channel cs}"
proof -
  show "locks_ok I (locks (ChannelState_unlock_channel I i cs))"
    using assms by (auto simp: ChannelState_unlock_channel_def locks_ok_def Let_def all_unlocked
        in_set_conv_nth split: option.splits)
  show "j < I \<Longrightarrow> holds_lock j (ChannelState_unlock_channel I i cs) \<longleftrightarrow> j \<noteq> i \<and> holds_lock j cs"
    using assms by (auto simp: ChannelState_unlock_channel_def holds_lock_def locks_ok_def Let_def all_unlocked
        nth_list_update split: option.splits if_splits)
  show "channel_controller (ChannelState_unlock_channel I i cs) = channel_controller cs"
    by (auto simp: ChannelState_unlock_channel_def Let_def split: option.splits)
  show "home_channel (ChannelState_unlock_channel I i cs) \<in> {None, home_channel cs}"
    by (auto simp: ChannelState_unlock_channel_def home_channel_def Let_def split: option.splits)
qed

section \<open>Runs of the channel state\<close>

text \<open>The four outcomes of \<open>lock_channel\<close>.\<close>

lemma lock_channel_cases:
  assumes "channel_driver valid current ro" "lock_channel I ro i ch cs = (r, cs')"
  obtains (refused) e where "lock_decision I i ch (locks cs) = Inl e" "r = Inl e" "cs' = cs"
    | (same) lk where "lock_decision I i ch (locks cs) = Inr (False, lk)" "r = Inr ()" "cs' = cs\<lparr>locks := Some lk\<rparr>"
    | (tuned) lk c where "lock_decision I i ch (locks cs) = Inr (True, lk)" "ch \<in> valid" "r = Inr ()"
        "cs' = cs\<lparr>locks := Some lk, channel_controller := c\<rparr>" "current c = ch"
    | (invalid) lk c where "lock_decision I i ch (locks cs) = Inr (True, lk)" "ch \<notin> valid" "r = Inl InvalidChannel"
        "cs' = cs\<lparr>locks := Some lk, channel_controller := c\<rparr>"
proof -
  have T: "fst (tune ro ch c) = (ch \<in> valid)" "ch \<in> valid \<Longrightarrow> current (snd (tune ro ch c)) = ch" for c
    using assms(1) by (simp_all add: channel_driver_def)
  show thesis
  proof (cases "lock_decision I i ch (locks cs)")
    case (Inl e)
    then show ?thesis using refused assms(2)
      by (simp add: lock_channel_def lock_channel_internal_def ChannelState_lock_channel_def)
  next
    case (Inr p)
    obtain b lk where p: "p = (b, lk)" by (cases p)
    show ?thesis
    proof (cases b)
      case False
      then show ?thesis using same Inr p assms(2)
        by (simp add: lock_channel_def lock_channel_internal_def ChannelState_lock_channel_def)
    next
      case b: True
      obtain ok c where t: "tune ro ch (channel_controller cs) = (ok, c)" by fastforce
      obtain ok' c' where t': "tune ro ch c = (ok', c')" by fastforce
      have ok: "ok = (ch \<in> valid)" "ok' = (ch \<in> valid)" "ch \<in> valid \<Longrightarrow> current c' = ch"
        using T(1) [of "channel_controller cs"] T [of c] t t' by auto
      show ?thesis using tuned [of lk c'] invalid [of lk c] Inr p b ok assms(2)
        by (cases ok) (auto simp: lock_channel_def lock_channel_internal_def ChannelState_lock_channel_def t t' Let_def)
    qed
  qed
qed

text \<open>
  Interfaces lock and unlock channels, start and cancel bringups, and run off-channel
  operations, which may tune anywhere. \<open>ops\<close> is the list of live operations.
\<close>

inductive lmac_run ::
  "('c, 'm) radio_ops \<Rightarrow> ('w \<Rightarrow> 'w) \<Rightarrow> u8 set \<Rightarrow> nat \<Rightarrow> 'c \<Rightarrow> 'w \<Rightarrow> off_channel_operation list \<Rightarrow> 'c channel_state \<Rightarrow> 'w \<Rightarrow> bool"
  for ro watch_send valid I c0 w0 where
  run_start: "lmac_run ro watch_send valid I c0 w0 [] (ChannelState_new c0) w0"
| run_lock: "lmac_run ro watch_send valid I c0 w0 ops cs w \<Longrightarrow> i < I \<Longrightarrow> ch \<in> valid \<Longrightarrow>
     lock_channel I ro i ch cs = (r, cs') \<Longrightarrow> lmac_run ro watch_send valid I c0 w0 ops cs' w"
| run_bringup: "lmac_run ro watch_send valid I c0 w0 ops cs w \<Longrightarrow> i < I \<Longrightarrow> ch \<in> valid \<Longrightarrow>
     begin_interface_bringup_operation I ro i ch cs = (g, cs') \<Longrightarrow> lmac_run ro watch_send valid I c0 w0 ops cs' w"
| run_unlock: "lmac_run ro watch_send valid I c0 w0 ops cs w \<Longrightarrow> i < I \<Longrightarrow>
     lmac_run ro watch_send valid I c0 w0 ops (unlock_channel I i cs) w"
| run_cancel: "lmac_run ro watch_send valid I c0 w0 ops cs w \<Longrightarrow> i < I \<Longrightarrow>
     lmac_run ro watch_send valid I c0 w0 ops (InterfaceBringupOperation_drop I i cs) w"
| run_begin: "lmac_run ro watch_send valid I c0 w0 ops cs w \<Longrightarrow> i < I \<Longrightarrow>
     try_begin_finish i gs cs rs = (Ready (Inr op), cs') \<Longrightarrow> lmac_run ro watch_send valid I c0 w0 (op # ops) cs' w"
| run_tune: "lmac_run ro watch_send valid I c0 w0 ops cs w \<Longrightarrow> op \<in> set ops \<Longrightarrow>
     OffChannelOperation_set_channel ro ch cs = (r, cs') \<Longrightarrow> lmac_run ro watch_send valid I c0 w0 ops cs' w"
| run_mode: "lmac_run ro watch_send valid I c0 w0 ops cs w \<Longrightarrow> op \<in> set ops \<Longrightarrow>
     lmac_run ro watch_send valid I c0 w0 ops (OffChannelOperation_set_scanning_mode ro (op_interface op) m cs) w"
| run_end: "lmac_run ro watch_send valid I c0 w0 ops cs w \<Longrightarrow> op \<in> set ops \<Longrightarrow>
     OffChannelOperation_drop ro watch_send op (cs, w) = (cs', w') \<Longrightarrow>
     lmac_run ro watch_send valid I c0 w0 (remove1 op ops) cs' w'"

definition lmac_inv :: "u8 set \<Rightarrow> ('c \<Rightarrow> u8) \<Rightarrow> nat \<Rightarrow> off_channel_operation list \<Rightarrow> 'c channel_state \<Rightarrow> bool" where
  "lmac_inv valid current I ops cs \<longleftrightarrow>
     locks_ok I (locks cs) \<and>
     (\<forall>ch. home_channel cs = Some ch \<longrightarrow> ch \<in> valid \<and> (ops = [] \<longrightarrow> current (channel_controller cs) = ch))"

lemma lmac_lock_inv [foa_inv]:
  assumes "channel_driver valid current ro" "lmac_inv valid current I ops cs" "i < I" "ch \<in> valid"
    and "lock_channel I ro i ch cs = (r, cs')"
  shows "lmac_inv valid current I ops cs'"
  using assms(1,5)
proof (cases rule: lock_channel_cases)
  case (refused e)
  then show ?thesis using assms(2) by simp
next
  case (same lk)
  note D = lock_decision_ok [OF _ assms(3) same(1)]
  then show ?thesis using assms(2) same(3) by (auto simp: lmac_inv_def home_channel_def)
next
  case (tuned lk c)
  note D = lock_decision_ok [OF _ assms(3) tuned(1)]
  then show ?thesis using assms(2) tuned by (auto simp: lmac_inv_def home_channel_def)
next
  case (invalid lk c)
  then show ?thesis using assms(4) by simp
qed

lemma lmac_unlock_inv [foa_inv]:
  assumes "lmac_inv valid current I ops cs" "i < I"
  shows "lmac_inv valid current I ops (ChannelState_unlock_channel I i cs)"
  using assms unlock_channel_locks [of I cs i] by (auto simp: lmac_inv_def)

lemma OffChannelOperation_drop_fields:
  assumes "channel_driver valid current ro" "OffChannelOperation_drop ro watch_send op (cs, w) = (cs', w')"
  shows "locks cs' = locks cs" "home_channel cs = Some ch \<Longrightarrow> ch \<in> valid \<Longrightarrow> current (channel_controller cs') = ch"
    "\<not> off_channel_operation_in_progress cs'" "w' = watch_send w"
proof -
  have cs': "cs' = (case (case home_channel cs of Some ch \<Rightarrow> Some ch | None \<Rightarrow> previously_locked_channel op) of
        None \<Rightarrow> cs | Some ch \<Rightarrow> cs\<lparr>channel_controller := snd (tune ro ch (channel_controller cs))\<rparr>)
      \<lparr>channel_controller := channel_controller cs', off_channel_operation_interface := None\<rparr>"
    and w: "w' = watch_send w"
    and c: "home_channel cs = Some ch \<Longrightarrow> channel_controller cs' =
        set_mode ro (op_interface op) (mode_disabled ro) (snd (tune ro ch (channel_controller cs)))"
    using assms(2)
    by (auto simp: OffChannelOperation_drop_def OffChannelOperation_set_channel_def
        OffChannelOperation_set_scanning_mode_def Let_def case_prod_beta split: option.splits)
  show "locks cs' = locks cs" by (subst cs') (simp split: option.splits)
  show "\<not> off_channel_operation_in_progress cs'"
    by (subst cs') (simp add: off_channel_operation_in_progress_def)
  show "w' = watch_send w" by (rule w)
  show "home_channel cs = Some ch \<Longrightarrow> ch \<in> valid \<Longrightarrow> current (channel_controller cs') = ch"
    using c assms(1) by (simp add: channel_driver_def)
qed

lemma lmac_run_inv:
  assumes cd: "channel_driver valid current ro"
  shows "lmac_run ro watch_send valid I c0 w0 ops cs w \<Longrightarrow> lmac_inv valid current I ops cs"
proof (induction rule: lmac_run.induct)
  case run_start
  then show ?case by (simp add: lmac_inv_def ChannelState_new_def locks_ok_def home_channel_def)
next
  case (run_lock ops cs w i ch r cs')
  then show ?case using lmac_lock_inv [OF cd] by blast
next
  case (run_bringup ops cs w i ch g cs')
  then obtain r where "lock_channel I ro i ch cs = (r, cs')"
    by (auto simp: begin_interface_bringup_operation_def lock_channel_def split: prod.splits sum.splits)
  then show ?case using lmac_lock_inv [OF cd] run_bringup by blast
next
  case (run_unlock ops cs w i)
  then show ?case using lmac_unlock_inv by (auto simp: unlock_channel_def unlock_channel_internal_def)
next
  case (run_cancel ops cs w i)
  then show ?case using lmac_unlock_inv
    by (auto simp: InterfaceBringupOperation_drop_def unlock_channel_internal_def)
next
  case (run_begin ops cs w i gs rs op cs')
  then have "locks cs' = locks cs"
    by (auto simp: try_begin_finish_def start_off_channel_operation_def Let_def split: if_splits option.splits)
  then show ?case using run_begin.IH by (auto simp: lmac_inv_def home_channel_def)
next
  case (run_tune ops cs w op ch r cs')
  then have "locks cs' = locks cs" "ops \<noteq> []"
    by (auto simp: OffChannelOperation_set_channel_def split: prod.splits)
  then show ?case using run_tune.IH by (auto simp: lmac_inv_def home_channel_def)
next
  case (run_mode ops cs w op m)
  then have "ops \<noteq> []" by auto
  then show ?case using run_mode.IH
    by (auto simp: lmac_inv_def home_channel_def OffChannelOperation_set_scanning_mode_def)
next
  case (run_end ops cs w op cs' w')
  note D = OffChannelOperation_drop_fields [OF cd run_end.hyps(3)]
  then show ?case using run_end.IH by (auto simp: lmac_inv_def home_channel_def)
qed

section \<open>Grants\<close>

text \<open>While an operation waits, the interfaces answer requests and the requester polls.
  \<open>G\<close> and \<open>J\<close> are the interfaces that granted and rejected.\<close>

inductive grant_run ::
  "'c channel_state \<Rightarrow> off_channel_request_state list \<Rightarrow> grant_results \<Rightarrow> off_channel_request_state list \<Rightarrow> nat set \<Rightarrow> nat set \<Rightarrow> bool"
  for cs rs0 where
  grant_start: "try_begin_request cs rs0 = Inr (gs, rs) \<Longrightarrow> grant_run cs rs0 gs rs {} {}"
| grant_grant: "grant_run cs rs0 gs rs G J \<Longrightarrow> i < length rs \<Longrightarrow> wait_for_request (rs ! i) = Ready () \<Longrightarrow>
     grant_run cs rs0 gs (rs[i := grant (rs ! i)]) (insert i G) J"
| grant_reject: "grant_run cs rs0 gs rs G J \<Longrightarrow> i < length rs \<Longrightarrow> wait_for_request (rs ! i) = Ready () \<Longrightarrow>
     grant_run cs rs0 gs (rs[i := reject (rs ! i)]) G (insert i J)"
| grant_poll: "grant_run cs rs0 gs rs G J \<Longrightarrow> poll_grants gs rs = (gs', rs') \<Longrightarrow> grant_run cs rs0 gs' rs' G J"

text \<open>What is known of interface \<open>i\<close>: \<open>l\<close> says whether it was asked, \<open>g\<close> is the output of its
  future and \<open>st\<close> the state of its requester.\<close>

definition grant_ok :: "bool \<Rightarrow> (lmac_error + unit) option \<Rightarrow> off_channel_request_state \<Rightarrow> bool \<Rightarrow> bool \<Rightarrow> bool" where
  "grant_ok l g st yes no \<longleftrightarrow>
     (if \<not> l then g = Some (Inr ())
      else case g of
             None \<Rightarrow> st \<noteq> NotRequested \<and> (st = Granted \<longrightarrow> yes) \<and> (st = Rejected \<longrightarrow> no)
           | Some (Inr _) \<Rightarrow> yes
           | Some (Inl e) \<Rightarrow> e = OffChannelRequestRejected \<and> no)"

lemma grant_ok_poll:
  "grant_ok l g st yes no \<Longrightarrow> grant_ok l (fst (poll_grant g st)) (snd (poll_grant g st)) yes no"
  by (cases g; cases st) (auto simp: grant_ok_def poll_grant_def request_poll_def split: if_splits)

lemma grant_ok_answer:
  "grant_ok l g Requested yes no \<Longrightarrow> grant_ok l g Granted True no"
  "grant_ok l g Requested yes no \<Longrightarrow> grant_ok l g Rejected yes True"
  by (auto simp: grant_ok_def split: option.splits sum.splits if_splits)

definition grant_inv ::
  "bool list \<Rightarrow> grant_results \<Rightarrow> off_channel_request_state list \<Rightarrow> nat set \<Rightarrow> nat set \<Rightarrow> bool" where
  "grant_inv ls gs rs G J \<longleftrightarrow>
     length gs = length ls \<and> length rs = length ls \<and>
     (\<forall>i < length ls. grant_ok (ls ! i) (gs ! i) (rs ! i) (i \<in> G) (i \<in> J))"

lemma grant_inv_answer:
  assumes "grant_inv ls gs rs G J" "i < length rs" "rs ! i = Requested"
  shows "grant_inv ls gs (rs[i := Granted]) (insert i G) J" "grant_inv ls gs (rs[i := Rejected]) G (insert i J)"
proof -
  have "grant_ok (ls ! i) (gs ! i) Requested (i \<in> G) (i \<in> J)"
    using assms unfolding grant_inv_def by metis
  note A = grant_ok_answer [OF this]
  show "grant_inv ls gs (rs[i := Granted]) (insert i G) J" "grant_inv ls gs (rs[i := Rejected]) G (insert i J)"
    using assms(1,2) A by (simp_all add: grant_inv_def nth_list_update)
qed

lemma grant_run_inv:
  "grant_run cs rs0 gs rs G J \<Longrightarrow> locks cs = Some (ls, ch) \<and> length rs0 = length ls \<Longrightarrow> grant_inv ls gs rs G J"
proof (induction rule: grant_run.induct)
  case (grant_start gs rs)
  then show ?case
    by (auto simp: try_begin_request_def grant_inv_def grant_ok_def request_def split: if_splits)
next
  case (grant_grant gs rs G J i)
  then show ?case using grant_inv_answer(1) [of ls gs rs G J i]
    by (simp add: wait_for_request_def grant_def split: if_splits)
next
  case (grant_reject gs rs G J i)
  then show ?case using grant_inv_answer(2) [of ls gs rs G J i]
    by (simp add: wait_for_request_def reject_def OffChannelRequest_drop_def split: if_splits)
next
  case (grant_poll gs rs G J gs' rs')
  have inv: "grant_inv ls gs rs G J" using grant_poll by simp
  have "gs' = map (\<lambda>(g, st). fst (poll_grant g st)) (zip gs rs)"
    "rs' = map (\<lambda>(g, st). snd (poll_grant g st)) (zip gs rs)"
    using grant_poll.hyps(2) by (auto simp: poll_grants_def Let_def)
  then show ?case using inv grant_ok_poll unfolding grant_inv_def by simp
qed

lemma first_error_None: "None \<notin> set gs \<Longrightarrow> first_error gs = None \<longleftrightarrow> (\<forall>i < length gs. gs ! i = Some (Inr ()))"
  by (induction gs rule: first_error.induct) (auto simp: nth_Cons split: nat.splits)

lemma first_error_mem: "first_error gs = Some e \<Longrightarrow> Some (Inl e) \<in> set gs"
  by (induction gs rule: first_error.induct) auto

section \<open>Properties\<close>

text \<open>A driver that remembers its channel, for the witnesses.\<close>

definition plain_radio :: "(u8, unit) radio_ops" where
  "plain_radio = \<lparr>tune = (\<lambda>ch c. if ch \<in> {1, 6, 11} then (True, ch) else (False, c)),
      set_mode = (\<lambda>_ _ c. c), mode_disabled = ()\<rparr>"

lemma plain_radio_ok: "channel_driver {1, 6, 11} (\<lambda>c. c) plain_radio"
  by (simp add: channel_driver_def plain_radio_def)

lemma plain_radio_locked:
  "lock_channel 2 plain_radio 0 6 (ChannelState_new 1) =
     (Inr (), \<lparr>locks = Some ([True, False], 6), off_channel_operation_interface = None, channel_controller = 6\<rparr>)"
  by (simp add: lock_channel_def lock_channel_internal_def ChannelState_lock_channel_def lock_decision_def
      ChannelState_new_def plain_radio_def upt_rec)

lemma plain_radio_run:
  "lmac_run plain_radio (\<lambda>w. w) {1, 6, 11} 2 1 () []
     \<lparr>locks = Some ([True, False], 6), off_channel_operation_interface = None, channel_controller = 6\<rparr> ()"
  by (rule run_lock [OF run_start _ _ plain_radio_locked]) simp_all





text \<open>
  Bringups are cancel safe. When a bringup operation starts and is dropped again, its
  interface holds no lock and every other interface holds exactly what it held before.
\<close>

theorem bringup_cancel_safe:
  assumes "channel_driver valid current ro" "lmac_run ro watch_send valid I c0 w0 ops cs w" "i < I"
    and "begin_interface_bringup_operation I ro i ch cs = (Inr g, cs')" "j < I"
  shows "holds_lock j (InterfaceBringupOperation_drop I g cs') \<longleftrightarrow> j \<noteq> i \<and> holds_lock j cs"
proof -
  have ok: "locks_ok I (locks cs)" using lmac_run_inv [OF assms(1,2)] by (simp add: lmac_inv_def)
  have g: "g = i" "lock_channel I ro i ch cs = (Inr (), cs')"
    using assms(4) by (auto simp: begin_interface_bringup_operation_def lock_channel_def split: prod.splits sum.splits)
  have "locks_ok I (locks cs') \<and> (j \<noteq> i \<longrightarrow> holds_lock j cs' = holds_lock j cs)"
    using assms(1) g(2)
  proof (cases rule: lock_channel_cases)
    case (same lk)
    then show ?thesis using lock_decision_ok [OF ok assms(3) same(1), THEN conjunct1]
        lock_decision_other [OF ok assms(3) same(1) assms(5)]
      by (cases lk) (simp add: holds_lock_def)
  next
    case (tuned lk c)
    then show ?thesis using lock_decision_ok [OF ok assms(3) tuned(1), THEN conjunct1]
        lock_decision_other [OF ok assms(3) tuned(1) assms(5)]
      by (cases lk) (simp add: holds_lock_def)
  qed auto
  then show ?thesis using unlock_channel_locks(2) [of I cs' i j] assms(3,5) g(1)
    by (auto simp: InterfaceBringupOperation_drop_def unlock_channel_internal_def)
qed

theorem bringup_cancel_safe_witness:
  "\<not> holds_lock 0 (InterfaceBringupOperation_drop 2 0
      (snd (begin_interface_bringup_operation 2 plain_radio 0 6 (ChannelState_new 1))))"
proof -
  have b: "begin_interface_bringup_operation 2 plain_radio 0 6 (ChannelState_new 1) =
      (Inr 0, \<lparr>locks = Some ([True, False], 6), off_channel_operation_interface = None, channel_controller = 6\<rparr>)"
    using plain_radio_locked by (simp add: begin_interface_bringup_operation_def lock_channel_def)
  from bringup_cancel_safe [OF plain_radio_ok run_start _ b, of 0] show ?thesis using b by simp
qed

text \<open>
  An invalid channel leaks the lock. Locking a channel the radio rejects, with nothing
  locked, returns the error \<open>InvalidChannel\<close> but leaves the interface registered as the holder
  of that channel, so that every other interface is refused every other channel.
\<close>

theorem invalid_channel_leaks_lock:
  assumes "channel_driver valid current ro" "locks cs = None" "i < I" "ch \<notin> valid"
    and "lock_channel I ro i ch cs = (r, cs')"
  shows "r = Inl InvalidChannel \<and> holds_lock i cs' \<and> home_channel cs' = Some ch \<and>
     (\<forall>j<I. \<forall>ch'. j \<noteq> i \<and> ch' \<noteq> ch \<longrightarrow> fst (lock_channel I ro j ch' cs') = Inl ChannelLockedByOtherInterface)"
proof -
  have d: "lock_decision I i ch (locks cs) = Inr (True, (map (\<lambda>k. k = i) [0..<I], ch))"
    using assms(2) by (simp add: lock_decision_def)
  have "r = Inl InvalidChannel \<and> locks cs' = Some (map (\<lambda>k. k = i) [0..<I], ch)"
    using assms(1,5) by (cases rule: lock_channel_cases) (simp_all add: d assms(4))
  then have r: "r = Inl InvalidChannel" and lk: "locks cs' = Some (map (\<lambda>k. k = i) [0..<I], ch)" by auto
  have "lock_decision I j ch' (locks cs') = Inl ChannelLockedByOtherInterface" if "j < I" "j \<noteq> i" "ch' \<noteq> ch" for j ch'
    using that by (simp add: lk lock_decision_def Let_def)
  then have "fst (lock_channel I ro j ch' cs') = Inl ChannelLockedByOtherInterface" if "j < I" "j \<noteq> i" "ch' \<noteq> ch" for j ch'
    using that by (simp add: lock_channel_def lock_channel_internal_def ChannelState_lock_channel_def)
  then show ?thesis using r assms(3) by (simp add: lk holds_lock_def home_channel_def)
qed

theorem invalid_channel_leaks_lock_witness:
  "fst (lock_channel 2 plain_radio 0 200 (ChannelState_new 1)) = Inl InvalidChannel \<and>
   home_channel (snd (lock_channel 2 plain_radio 0 200 (ChannelState_new 1))) = Some 200"
proof -
  obtain r cs' where r: "lock_channel 2 plain_radio 0 200 (ChannelState_new 1) = (r, cs')" by fastforce
  from invalid_channel_leaks_lock [OF plain_radio_ok _ _ _ r] show ?thesis
    using r by (simp add: ChannelState_new_def)
qed

text \<open>
  C31: an off-channel operation starts only with the consent of every lock holder. Whatever
  order the answers arrive in, when the attempt completes, it succeeds only if each interface
  that held the lock granted the request, and an error is a rejection some holder made.
\<close>

theorem off_channel_needs_grants:
  assumes "grant_run cs rs0 gs rs G J" "locks cs = Some (ls, ch)" "length rs0 = length ls"
    and "try_begin_finish iface gs cs2 rs = (Ready res, cs')"
  shows "case res of
           Inr op \<Rightarrow> (\<forall>i < length ls. ls ! i \<longrightarrow> i \<in> G) \<and> off_channel_operation_interface cs' = Some iface
         | Inl e \<Rightarrow> e = OffChannelRequestRejected \<and> (\<exists>i < length ls. ls ! i \<and> i \<in> J) \<and> cs' = cs2"
proof -
  have inv: "grant_inv ls gs rs G J" using grant_run_inv [OF assms(1)] assms(2,3) by simp
  have no: "None \<notin> set gs" using assms(4) by (auto simp: try_begin_finish_def split: if_splits)
  show ?thesis
  proof (cases "first_error gs")
    case None
    then have all: "\<forall>i < length ls. gs ! i = Some (Inr ())"
      using first_error_None [OF no] inv by (simp add: grant_inv_def)
    then have "i \<in> G" if "i < length ls" "ls ! i" for i
      using that inv by (auto simp: grant_inv_def grant_ok_def)
    then show ?thesis using assms(4) None no
      by (auto simp: try_begin_finish_def start_off_channel_operation_def Let_def)
  next
    case (Some e)
    then obtain i where i: "i < length ls" "gs ! i = Some (Inl e)"
      using first_error_mem [OF Some] inv by (auto simp: grant_inv_def in_set_conv_nth)
    then have "e = OffChannelRequestRejected \<and> ls ! i \<and> i \<in> J"
      using inv by (auto simp: grant_inv_def grant_ok_def split: if_splits)
    then show ?thesis using assms(4) Some no i by (auto simp: try_begin_finish_def)
  qed
qed

theorem off_channel_needs_grants_witness:
  "\<exists>gs rs G J. grant_run \<lparr>locks = Some ([True, False], 6), off_channel_operation_interface = None, channel_controller = 6 :: u8\<rparr>
      [NotRequested, NotRequested] gs rs G J \<and> None \<notin> set gs \<and> 0 \<in> G"
proof -
  let ?cs = "\<lparr>locks = Some ([True, False], 6), off_channel_operation_interface = None, channel_controller = 6\<rparr> :: u8 channel_state"
  let ?rs0 = "[NotRequested, NotRequested]"
  have "try_begin_request ?cs ?rs0 = Inr ([None, Some (Inr ())], [Requested, NotRequested])"
    by (simp add: try_begin_request_def off_channel_operation_in_progress_def request_def)
  from grant_grant [OF grant_start [OF this], of 0]
  have "grant_run ?cs ?rs0 [None, Some (Inr ())] [Granted, NotRequested] {0} {}"
    by (simp add: wait_for_request_def grant_def)
  from grant_poll [OF this]
  have run: "grant_run ?cs ?rs0 [Some (Inr ()), Some (Inr ())] [NotRequested, NotRequested] {0} {}"
    by (simp add: poll_grants_def poll_grant_def request_poll_def)
  have "\<exists>op cs'. try_begin_finish 1 [Some (Inr ()), Some (Inr ())] ?cs [NotRequested, NotRequested] = (Ready (Inr op), cs')"
    by (simp add: try_begin_finish_def start_off_channel_operation_def Let_def)
  then obtain op cs' where "try_begin_finish 1 [Some (Inr ()), Some (Inr ())] ?cs [NotRequested, NotRequested] = (Ready (Inr op), cs')"
    by blast
  from off_channel_needs_grants [OF run _ _ this] run show ?thesis
    by (intro exI [of _ "[Some (Inr ()), Some (Inr ())]"] exI [of _ "[NotRequested, NotRequested]"] exI [of _ "{0}"] exI [of _ "{}"]) auto
qed

text \<open>
  Waiting for a running off-channel operation works only once. After any operation has
  ended, the completion watch stays ready, so that beginning an operation while another one
  runs does not wait for it but fails with \<open>OffChannelOperationAlreadyInProgress\<close>.
\<close>

theorem off_channel_wait_not_repeated:
  assumes "watch_laws watch_get watch_send" "OffChannelOperation_drop ro watch_send op (cs, w) = (cs1, w1)"
    and "off_channel_operation_in_progress cs2"
  shows "begin_interface_off_channel_operation watch_get cs2 w1 rs = Ready (Inl OffChannelOperationAlreadyInProgress)"
proof -
  have "w1 = watch_send w" using assms(2) by (auto simp: OffChannelOperation_drop_def Let_def)
  then show ?thesis using assms(1,3)
    by (simp add: begin_interface_off_channel_operation_def wait_for_off_channel_completion_def
        try_begin_request_def watch_laws_def)
qed

theorem off_channel_wait_not_repeated_witness:
  "begin_interface_off_channel_operation (\<lambda>w. if w then Ready () else Pending)
     \<lparr>locks = None, off_channel_operation_interface = Some 1, channel_controller = 1 :: u8\<rparr> True [] =
   Ready (Inl OffChannelOperationAlreadyInProgress)"
proof -
  let ?op = "\<lparr>op_interface = 0, previously_locked_channel = None\<rparr>"
  have d: "OffChannelOperation_drop plain_radio (\<lambda>_. True) ?op (ChannelState_new 1, False) = (ChannelState_new 1, True)"
    by (simp add: OffChannelOperation_drop_def home_channel_def ChannelState_new_def plain_radio_def
        OffChannelOperation_set_scanning_mode_def)
  have w: "watch_laws (\<lambda>w. if w then Ready () else Pending) (\<lambda>_. True)" by (simp add: watch_laws_def)
  show ?thesis
    by (rule off_channel_wait_not_repeated [OF w d]) (simp add: off_channel_operation_in_progress_def)
qed

end
