(* ===== verification/Rx_Router.thy ===== *)
theory Rx_Router
  imports Foa_Prelude
begin

text \<open>
  The receive router of an interface, \<open>foa/src/util/rx_router.rs\<close>: two queues, the operation
  that is active on each, and the completion signal. The operation type of the interface and
  its trait are the record \<open>router_operation_ops\<close>; queues and signal are third-party code and
  parameters; \<open>generic\<close> parses a received frame far enough to classify it.
\<close>

section \<open>The router\<close>

datatype rx_router_queue = Foreground | Background

fun opposite :: "rx_router_queue \<Rightarrow> rx_router_queue" where
  "opposite Foreground = Background"
| "opposite Background = Foreground"

record ('o, 'g) router_operation_ops =
  CONCORRUENT_OPERATIONS_SUPPORTED :: bool
  frame_relevant :: "'o \<Rightarrow> 'g \<Rightarrow> bool"
  compatible_with :: "'o \<Rightarrow> 'o \<Rightarrow> bool"

record 's signal_ops =
  sig_new :: 's
  sig_signal :: "'s \<Rightarrow> 's"
  sig_reset :: "'s \<Rightarrow> 's"
  sig_wait :: "'s \<Rightarrow> 's poll"

text \<open>A signal holds at most one pending value, which a wait takes.\<close>

definition signal_laws :: "('s \<Rightarrow> bool) \<Rightarrow> 's signal_ops \<Rightarrow> bool" where
  "signal_laws pending sg \<longleftrightarrow>
     \<not> pending (sig_new sg) \<and> (\<forall>s. pending (sig_signal sg s)) \<and> (\<forall>s. \<not> pending (sig_reset sg s)) \<and>
     (\<forall>s. if pending s then (\<exists>s'. sig_wait sg s = Ready s' \<and> \<not> pending s') else sig_wait sg s = Pending)"

datatype rx_router_operation_error = OperationAlreadyInProgress | IncompatibleOperations

datatype rx_router_routing_error = QueueFull | InvalidFrame

record ('q, 'o) queue_state =
  rq_queue :: 'q
  operation_state :: "'o option"

record ('q, 'o, 's) rx_router =
  foreground_queue_state :: "('q, 'o) queue_state"
  background_queue_state :: "('q, 'o) queue_state"
  completion_signal :: 's

definition QueueState_new :: "('q, 'f) channel_ops \<Rightarrow> ('q, 'o) queue_state" where
  "QueueState_new ch = \<lparr>rq_queue = ch_new ch, operation_state = None\<rparr>"

definition frame_relevant_for_operation ::
  "('o, 'g) router_operation_ops \<Rightarrow> 'g \<Rightarrow> ('q, 'o) queue_state \<Rightarrow> bool" where
  "frame_relevant_for_operation ro g qs =
     (case operation_state qs of None \<Rightarrow> False | Some op \<Rightarrow> frame_relevant ro op g)"

definition operation_active :: "('q, 'o) queue_state \<Rightarrow> bool" where
  "operation_active qs \<longleftrightarrow> operation_state qs \<noteq> None"

definition RxRouter_new :: "('q, 'f) channel_ops \<Rightarrow> 's signal_ops \<Rightarrow> ('q, 'o, 's) rx_router" where
  "RxRouter_new ch sg =
     \<lparr>foreground_queue_state = QueueState_new ch, background_queue_state = QueueState_new ch,
      completion_signal = sig_new sg\<rparr>"

definition queue_state_of :: "rx_router_queue \<Rightarrow> ('q, 'o, 's) rx_router \<Rightarrow> ('q, 'o) queue_state" where
  "queue_state_of q r = (case q of Foreground \<Rightarrow> foreground_queue_state r | Background \<Rightarrow> background_queue_state r)"

definition set_queue_state ::
  "rx_router_queue \<Rightarrow> ('q, 'o) queue_state \<Rightarrow> ('q, 'o, 's) rx_router \<Rightarrow> ('q, 'o, 's) rx_router" where
  "set_queue_state q v r =
     (case q of Foreground \<Rightarrow> r\<lparr>foreground_queue_state := v\<rparr> | Background \<Rightarrow> r\<lparr>background_queue_state := v\<rparr>)"

definition router_receive ::
  "('q, 'f) channel_ops \<Rightarrow> rx_router_queue \<Rightarrow> ('q, 'o, 's) rx_router \<Rightarrow> ('f \<times> ('q, 'o, 's) rx_router) option" where
  "router_receive ch q r =
     (case ch_try_receive ch (rq_queue (queue_state_of q r)) of
        None \<Rightarrow> None
      | Some (f, c) \<Rightarrow> Some (f, set_queue_state q ((queue_state_of q r)\<lparr>rq_queue := c\<rparr>) r))"

text \<open>Where a frame goes: \<open>None\<close> drops it.\<close>

definition route_target :: "('o, 'g) router_operation_ops \<Rightarrow> 'g \<Rightarrow> ('q, 'o, 's) rx_router \<Rightarrow> rx_router_queue option" where
  "route_target ro g r =
     (if frame_relevant_for_operation ro g (foreground_queue_state r) then Some Foreground
      else if \<not> CONCORRUENT_OPERATIONS_SUPPORTED ro \<or> \<not> operation_active (background_queue_state r) \<or>
              frame_relevant_for_operation ro g (background_queue_state r)
      then Some Background
      else None)"

definition route_frame ::
  "('q, 'f) channel_ops \<Rightarrow> ('o, 'g) router_operation_ops \<Rightarrow> ('f \<Rightarrow> 'g option) \<Rightarrow> 'f \<Rightarrow> ('q, 'o, 's) rx_router \<Rightarrow>
     (rx_router_routing_error + unit) \<times> ('q, 'o, 's) rx_router" where
  "route_frame ch ro generic f r =
     (case generic f of
        None \<Rightarrow> (Inl InvalidFrame, r)
      | Some g \<Rightarrow>
          (case route_target ro g r of
             None \<Rightarrow> (Inr (), r)
           | Some q \<Rightarrow>
               (case ch_try_send ch (rq_queue (queue_state_of q r)) f of
                  None \<Rightarrow> (Inl QueueFull, r)
                | Some c \<Rightarrow> (Inr (), set_queue_state q ((queue_state_of q r)\<lparr>rq_queue := c\<rparr>) r))))"

definition queue_lengths :: "('q, 'f) channel_ops \<Rightarrow> ('q, 'o, 's) rx_router \<Rightarrow> nat list" where
  "queue_lengths ch r = [ch_len ch (rq_queue (foreground_queue_state r)), ch_len ch (rq_queue (background_queue_state r))]"

definition router_operation :: "rx_router_queue \<Rightarrow> ('q, 'o, 's) rx_router \<Rightarrow> 'o option" where
  "router_operation q r = operation_state (queue_state_of q r)"

section \<open>Operations of an endpoint\<close>

definition can_start_operation ::
  "('o, 'g) router_operation_ops \<Rightarrow> rx_router_queue \<Rightarrow> 'o \<Rightarrow> ('q, 'o, 's) rx_router \<Rightarrow> rx_router_operation_error + unit" where
  "can_start_operation ro q op r =
     (case router_operation (opposite q) r of
        Some opposing \<Rightarrow>
          if \<not> CONCORRUENT_OPERATIONS_SUPPORTED ro then Inl OperationAlreadyInProgress
          else if \<not> compatible_with ro opposing op then Inl IncompatibleOperations
          else Inr ()
      | None \<Rightarrow> Inr ())"

definition set_operation :: "rx_router_queue \<Rightarrow> 'o option \<Rightarrow> ('q, 'o, 's) rx_router \<Rightarrow> ('q, 'o, 's) rx_router" where
  "set_operation q op r = set_queue_state q ((queue_state_of q r)\<lparr>operation_state := op\<rparr>) r"

definition start_operation_internal ::
  "'s signal_ops \<Rightarrow> rx_router_queue \<Rightarrow> 'o \<Rightarrow> ('q, 'o, 's) rx_router \<Rightarrow> ('q, 'o, 's) rx_router" where
  "start_operation_internal sg q op r =
     set_operation q (Some op) (r\<lparr>completion_signal := sig_reset sg (completion_signal r)\<rparr>)"

definition stop_operation_internal ::
  "rx_router_queue \<Rightarrow> ('q, 'o, 's) rx_router \<Rightarrow> 'o option \<times> ('q, 'o, 's) rx_router" where
  "stop_operation_internal q r = (router_operation q r, set_operation q None r)"

definition signal_completion_internal :: "'s signal_ops \<Rightarrow> ('q, 'o, 's) rx_router \<Rightarrow> ('q, 'o, 's) rx_router" where
  "signal_completion_internal sg r = r\<lparr>completion_signal := sig_signal sg (completion_signal r)\<rparr>"

definition try_start_operation ::
  "('o, 'g) router_operation_ops \<Rightarrow> 's signal_ops \<Rightarrow> rx_router_queue \<Rightarrow> 'o \<Rightarrow> ('q, 'o, 's) rx_router \<Rightarrow>
     (rx_router_operation_error + unit) \<times> ('q, 'o, 's) rx_router" where
  "try_start_operation ro sg q op r =
     (case can_start_operation ro q op r of
        Inl e \<Rightarrow> (Inl e, r)
      | Inr _ \<Rightarrow> (Inr (), start_operation_internal sg q op r))"

text \<open>\<open>start_operation\<close> is a future: its first poll, and the polls of the wait it may be in.\<close>

definition start_operation_wait ::
  "'s signal_ops \<Rightarrow> rx_router_queue \<Rightarrow> 'o \<Rightarrow> ('q, 'o, 's) rx_router \<Rightarrow> unit poll \<times> ('q, 'o, 's) rx_router" where
  "start_operation_wait sg q op r =
     (case sig_wait sg (completion_signal r) of
        Pending \<Rightarrow> (Pending, r)
      | Ready s \<Rightarrow> (Ready (), start_operation_internal sg q op (r\<lparr>completion_signal := s\<rparr>)))"

definition start_operation ::
  "('o, 'g) router_operation_ops \<Rightarrow> 's signal_ops \<Rightarrow> rx_router_queue \<Rightarrow> 'o \<Rightarrow> ('q, 'o, 's) rx_router \<Rightarrow>
     unit poll \<times> ('q, 'o, 's) rx_router" where
  "start_operation ro sg q op r =
     (case can_start_operation ro q op r of
        Inl e \<Rightarrow> start_operation_wait sg q op r
      | Inr _ \<Rightarrow> (Ready (), start_operation_internal sg q op r))"

text \<open>A scoped operation is the guard of its queue.\<close>

definition scoped_operation :: "rx_router_queue \<Rightarrow> ('q, 'o, 's) rx_router \<Rightarrow> panic + 'o" where
  "scoped_operation q r =
     (case router_operation q r of
        None \<Rightarrow> Inl (Panic ''A live scoped operation always has an active operation.'')
      | Some op \<Rightarrow> Inr op)"

definition transition ::
  "('o, 'g) router_operation_ops \<Rightarrow> 's signal_ops \<Rightarrow> rx_router_queue \<Rightarrow> 'o \<Rightarrow> ('q, 'o, 's) rx_router \<Rightarrow>
     panic + bool \<times> ('q, 'o, 's) rx_router" where
  "transition ro sg q op r =
     (case stop_operation_internal q r of
        (None, _) \<Rightarrow> Inl (Panic ''The only way this could be None is, if this function was called during Drop.'')
      | (Some previous, r1) \<Rightarrow>
          (case can_start_operation ro q op r1 of
             Inr _ \<Rightarrow> Inr (True, start_operation_internal sg q op r1)
           | Inl e \<Rightarrow> Inr (False, start_operation_internal sg q previous r1)))"

definition scoped_operation_drop ::
  "'s signal_ops \<Rightarrow> rx_router_queue \<Rightarrow> ('q, 'o, 's) rx_router \<Rightarrow> ('q, 'o, 's) rx_router" where
  "scoped_operation_drop sg q r = signal_completion_internal sg (snd (stop_operation_internal q r))"

section \<open>Reading and updating the two queues\<close>

lemma opposite_opposite [simp]: "opposite (opposite q) = q" "opposite q \<noteq> q" "q \<noteq> opposite q"
  by (cases q; simp)+

lemma queue_state_set [simp]:
  "queue_state_of p (set_queue_state q v r) = (if p = q then v else queue_state_of p r)"
  "completion_signal (set_queue_state q v r) = completion_signal r"
  by (cases p; cases q; simp add: queue_state_of_def set_queue_state_def)+

lemma queue_state_signal [simp]: "queue_state_of p (r\<lparr>completion_signal := s\<rparr>) = queue_state_of p r"
  by (cases p) (simp_all add: queue_state_of_def)

lemma router_operation_set [simp]:
  "router_operation p (set_operation q op r) = (if p = q then op else router_operation p r)"
  "router_operation p (r\<lparr>completion_signal := s\<rparr>) = router_operation p r"
  "router_operation p (set_queue_state q ((queue_state_of q r)\<lparr>rq_queue := c\<rparr>) r) = router_operation p r"
  by (auto simp: router_operation_def set_operation_def)

lemma set_operation_signal [simp]: "completion_signal (set_operation q op r) = completion_signal r"
  by (simp add: set_operation_def)

lemmas router_step_defs = start_operation_internal_def stop_operation_internal_def signal_completion_internal_def
  try_start_operation_def start_operation_def start_operation_wait_def scoped_operation_drop_def transition_def
  can_start_operation_def

section \<open>Runs of a router without concurrent operations\<close>

text \<open>Each endpoint is borrowed by its guard, so a queue starts an operation only while it has
  none; frames are routed and received at any time.\<close>

inductive router_run ::
  "('q, 'f) channel_ops \<Rightarrow> ('o, 'g) router_operation_ops \<Rightarrow> 's signal_ops \<Rightarrow> ('f \<Rightarrow> 'g option) \<Rightarrow> ('q, 'o, 's) rx_router \<Rightarrow> bool"
  for ch ro sg generic where
  router_start: "router_run ch ro sg generic (RxRouter_new ch sg)"
| router_try: "router_run ch ro sg generic r \<Longrightarrow> router_operation q r = None \<Longrightarrow>
     try_start_operation ro sg q op r = (res, r') \<Longrightarrow> router_run ch ro sg generic r'"
| router_begin: "router_run ch ro sg generic r \<Longrightarrow> router_operation q r = None \<Longrightarrow>
     start_operation ro sg q op r = (res, r') \<Longrightarrow> router_run ch ro sg generic r'"
| router_wait: "router_run ch ro sg generic r \<Longrightarrow> router_operation q r = None \<Longrightarrow>
     start_operation_wait sg q op r = (res, r') \<Longrightarrow> router_run ch ro sg generic r'"
| router_transition: "router_run ch ro sg generic r \<Longrightarrow> router_operation q r \<noteq> None \<Longrightarrow>
     transition ro sg q op r = Inr (ok, r') \<Longrightarrow> router_run ch ro sg generic r'"
| router_drop: "router_run ch ro sg generic r \<Longrightarrow> router_operation q r \<noteq> None \<Longrightarrow>
     router_run ch ro sg generic (scoped_operation_drop sg q r)"
| router_route: "router_run ch ro sg generic r \<Longrightarrow> route_frame ch ro generic f r = (res, r') \<Longrightarrow>
     router_run ch ro sg generic r'"
| router_receive: "router_run ch ro sg generic r \<Longrightarrow> router_receive ch q r = Some (f, r') \<Longrightarrow>
     router_run ch ro sg generic r'"

definition single_op :: "('s \<Rightarrow> bool) \<Rightarrow> ('q, 'o, 's) rx_router \<Rightarrow> bool" where
  "single_op pending r \<longleftrightarrow>
     (\<forall>q. router_operation q r \<noteq> None \<longrightarrow> router_operation (opposite q) r = None \<and> \<not> pending (completion_signal r))"

lemma single_op_start:
  assumes "signal_laws pending sg" "router_operation (opposite q) r = None"
  shows "single_op pending (start_operation_internal sg q op r)"
  unfolding single_op_def
proof (intro allI impI)
  fix p assume "router_operation p (start_operation_internal sg q op r) \<noteq> None"
  then have "p = q" using assms(2) by (cases p; cases q) (auto simp: start_operation_internal_def)
  then show "router_operation (opposite p) (start_operation_internal sg q op r) = None \<and>
      \<not> pending (completion_signal (start_operation_internal sg q op r))"
    using assms by (simp add: start_operation_internal_def signal_laws_def)
qed

lemma single_op_idle: "(\<And>q. router_operation q r = None) \<Longrightarrow> single_op pending r"
  by (simp add: single_op_def)

lemma single_op_cong:
  "(\<And>q. router_operation q r' = router_operation q r) \<Longrightarrow> completion_signal r' = completion_signal r \<Longrightarrow>
     single_op pending r \<Longrightarrow> single_op pending r'"
  by (simp add: single_op_def)

lemma single_op_wait:
  assumes "signal_laws pending sg" "single_op pending r" "start_operation_wait sg q op r = (res, r')"
  shows "single_op pending r'"
proof (cases "pending (completion_signal r)")
  case True
  then have idle: "router_operation p r = None" for p using assms(2) by (auto simp: single_op_def)
  obtain s where "sig_wait sg (completion_signal r) = Ready s"
    using assms(1) True unfolding signal_laws_def by metis
  then have "r' = start_operation_internal sg q op (r\<lparr>completion_signal := s\<rparr>)"
    using assms(3) by (simp add: start_operation_wait_def)
  then show ?thesis
    using single_op_start [OF assms(1), of q "r\<lparr>completion_signal := s\<rparr>" op] idle by simp
next
  case False
  then have "sig_wait sg (completion_signal r) = Pending" using assms(1) unfolding signal_laws_def by metis
  then show ?thesis using assms(2,3) by (simp add: start_operation_wait_def)
qed

lemma router_run_single:
  assumes "signal_laws pending sg" "\<not> CONCORRUENT_OPERATIONS_SUPPORTED ro"
  shows "router_run ch ro sg generic r \<Longrightarrow> single_op pending r"
proof (induction rule: router_run.induct)
  case router_start
  show ?case by (rule single_op_idle)
    (simp add: RxRouter_new_def QueueState_new_def router_operation_def queue_state_of_def split: rx_router_queue.splits)
next
  case (router_try r q op res r')
  then show ?case using single_op_start [OF assms(1)] assms(2)
    by (auto simp: try_start_operation_def can_start_operation_def split: option.splits)
next
  case (router_begin r q op res r')
  then show ?case using single_op_start [OF assms(1)] single_op_wait [OF assms(1)] assms(2)
    by (auto simp: start_operation_def can_start_operation_def split: option.splits)
next
  case (router_wait r q op res r')
  show ?case by (rule single_op_wait [OF assms(1) router_wait.IH router_wait.hyps(3)])
next
  case (router_transition r q op ok r')
  have opp: "router_operation (opposite q) (set_operation q None r) = None"
    using router_transition by (simp add: single_op_def)
  from router_transition.hyps(2,3) obtain op' where "r' = start_operation_internal sg q op' (set_operation q None r)"
    by (auto simp: transition_def stop_operation_internal_def split: option.splits sum.splits)
  then show ?case using single_op_start [OF assms(1) opp] by simp
next
  case (router_drop r q)
  then have "router_operation p (scoped_operation_drop sg q r) = None" for p
    by (cases p; cases q) (auto simp: single_op_def router_step_defs)
  then show ?case by (rule single_op_idle)
next
  case (router_route r f res r')
  then show ?case
    by (auto simp: route_frame_def split: option.splits intro: single_op_cong)
next
  case (router_receive r q f r')
  then show ?case
    by (auto simp: router_receive_def split: option.splits intro: single_op_cong)
qed

section \<open>Properties\<close>

text \<open>A latch as signal and a two-operation interface, for the witnesses.\<close>

definition latch :: "bool signal_ops" where
  "latch = \<lparr>sig_new = False, sig_signal = (\<lambda>_. True), sig_reset = (\<lambda>_. False),
     sig_wait = (\<lambda>s. if s then Ready False else Pending)\<rparr>"

lemma latch_ok: "signal_laws (\<lambda>s. s) latch"
  by (auto simp: signal_laws_def latch_def)

definition parity_ops :: "(nat, nat) router_operation_ops" where
  "parity_ops = \<lparr>CONCORRUENT_OPERATIONS_SUPPORTED = False, frame_relevant = (\<lambda>op g. op = g), compatible_with = (\<lambda>_ _. False)\<rparr>"



text \<open>
  A frame is delivered to at most one queue. A frame of the foreground operation goes to
  the foreground queue, every other frame of an interface without concurrent operations to
  the background queue; it is appended there, or reported as lost when that queue is full,
  and the other queue and both operations never change.
\<close>

theorem route_frame_delivers_once:
  assumes "fifo_channel cap view ch" "\<not> CONCORRUENT_OPERATIONS_SUPPORTED ro" "generic f = Some g"
    and "route_frame ch ro generic f r = (res, r')"
    and "q = (if frame_relevant_for_operation ro g (foreground_queue_state r) then Foreground else Background)"
  shows "(if length (view (rq_queue (queue_state_of q r))) < cap
          then res = Inr () \<and> view (rq_queue (queue_state_of q r')) = view (rq_queue (queue_state_of q r)) @ [f]
          else res = Inl QueueFull \<and> r' = r) \<and>
     queue_state_of (opposite q) r' = queue_state_of (opposite q) r \<and>
     (\<forall>p. router_operation p r' = router_operation p r)"
proof -
  have t: "route_target ro g r = Some q" using assms(2,5) by (simp add: route_target_def)
  show ?thesis
  proof (cases "length (view (rq_queue (queue_state_of q r))) < cap")
    case True
    then obtain c where "ch_try_send ch (rq_queue (queue_state_of q r)) f = Some c"
      "view c = view (rq_queue (queue_state_of q r)) @ [f]"
      using fifo_send [OF assms(1)] by blast
    then show ?thesis using True t assms(3,4) by (auto simp: route_frame_def)
  next
    case False
    then show ?thesis using fifo_send_full [OF assms(1)] t assms(3,4) by (auto simp: route_frame_def)
  qed
qed

theorem route_frame_delivers_once_witness:
  "let r = RxRouter_new (list_channel 1) latch :: (nat list, nat, bool) rx_router
   in rq_queue (queue_state_of Background (snd (route_frame (list_channel 1) parity_ops Some 7 r))) = [7] \<and>
      queue_state_of Foreground (snd (route_frame (list_channel 1) parity_ops Some 7 r)) = queue_state_of Foreground r"
proof -
  let ?r = "RxRouter_new (list_channel 1) latch :: (nat list, nat, bool) rx_router"
  obtain res r' where r': "route_frame (list_channel 1) parity_ops Some 7 ?r = (res, r')" by fastforce
  have n: "\<not> frame_relevant_for_operation parity_ops 7 (foreground_queue_state ?r)"
    by (simp add: frame_relevant_for_operation_def RxRouter_new_def QueueState_new_def)
  have "rq_queue (queue_state_of Background ?r) = []"
    by (simp add: RxRouter_new_def QueueState_new_def queue_state_of_def list_channel_def)
  then show ?thesis
    using route_frame_delivers_once [OF list_channel_fifo _ _ r', of 7 Background] n r'
    by (simp add: parity_ops_def Let_def)
qed

end
