(* ===== verification/Scan.thy ===== *)
theory Scan
  imports Lmac_Channel Rx_Router
begin

text \<open>
  Scanning, \<open>foa/src/util/operations/scan.rs\<close>. The awaited steps before the loop are arguments:
  the result \<open>began\<close> of beginning the off-channel operation and the router after the scan
  operation was started. \<open>air n\<close> is the list of frames the router delivers during the \<open>n\<close>-th
  stay on a channel, before its time is up; \<open>beacon\<close> parses a beacon frame. The callback is a
  state transformer. A scan that does not end is \<open>None\<close>.
\<close>

datatype scan_strategy = SingleChannel u8 | CurrentChannel | Linear | NonOverlappingFirst | Custom "u8 list"

datatype 'r post_channel_scan_action = Continue | Stop 'r

record scan_config =
  channel_remain_time :: nat
  strategy :: scan_strategy

definition ScanConfig_default :: scan_config where
  "ScanConfig_default = \<lparr>channel_remain_time = 200, strategy = NonOverlappingFirst\<rparr>"

fun strategy_channels :: "u8 \<Rightarrow> scan_strategy \<Rightarrow> u8 list" where
  "strategy_channels current (SingleChannel ch) = [ch]"
| "strategy_channels current CurrentChannel = [current]"
| "strategy_channels current Linear = [1, 2, 3, 4, 5, 6, 7, 8, 9, 10, 11, 12, 13]"
| "strategy_channels current NonOverlappingFirst = [1, 6, 11, 2, 7, 12, 3, 8, 13, 4, 9, 5, 10]"
| "strategy_channels current (Custom chs) = chs"

type_synonym ('b, 'f, 's, 'r) scan_callback = "'b \<Rightarrow> 'f \<Rightarrow> u8 \<Rightarrow> 's \<Rightarrow> 'r post_channel_scan_action \<times> 's"

text \<open>Running out of frames is the timeout, which counts as \<open>Continue\<close>.\<close>

fun scan_on_channel ::
  "('f \<Rightarrow> 'b option) \<Rightarrow> ('b, 'f, 's, 'r) scan_callback \<Rightarrow> u8 \<Rightarrow> 'f list \<Rightarrow> 's \<Rightarrow> 'r post_channel_scan_action \<times> 's" where
  "scan_on_channel beacon cb ch [] s = (Continue, s)"
| "scan_on_channel beacon cb ch (f # fs) s =
     (case beacon f of
        None \<Rightarrow> scan_on_channel beacon cb ch fs s
      | Some b \<Rightarrow>
          (case cb b f ch s of
             (Stop r, s') \<Rightarrow> (Stop r, s')
           | (Continue, s') \<Rightarrow> scan_on_channel beacon cb ch fs s'))"

text \<open>The loop over the channels; \<open>n\<close> counts the stays.\<close>

fun scan_channels ::
  "('c, 'm) radio_ops \<Rightarrow> ('f \<Rightarrow> 'b option) \<Rightarrow> ('b, 'f, 's, 'r) scan_callback \<Rightarrow> (nat \<Rightarrow> 'f list) \<Rightarrow> u8 list \<Rightarrow>
     nat \<Rightarrow> 'c channel_state \<Rightarrow> 's \<Rightarrow> (lmac_error + 'r option \<times> nat) \<times> 'c channel_state \<times> 's" where
  "scan_channels ro beacon cb air [] n cs s = (Inr (None, n), cs, s)"
| "scan_channels ro beacon cb air (ch # chs) n cs s =
     (case OffChannelOperation_set_channel ro ch cs of
        (Inl e, cs') \<Rightarrow> (Inl e, cs', s)
      | (Inr _, cs') \<Rightarrow>
          (case scan_on_channel beacon cb ch (air n) s of
             (Stop r, s') \<Rightarrow> (Inr (Some r, Suc n), cs', s')
           | (Continue, s') \<Rightarrow> scan_channels ro beacon cb air chs (Suc n) cs' s'))"

text \<open>The outer loop: \<open>break\<close> in the inner one leaves only that, and \<open>continuous\<close> alone decides
  whether it runs again.\<close>

partial_function (option) scan_loop ::
  "('c, 'm) radio_ops \<Rightarrow> ('f \<Rightarrow> 'b option) \<Rightarrow> ('b, 'f, 's, 'r) scan_callback \<Rightarrow> (nat \<Rightarrow> 'f list) \<Rightarrow> u8 list \<Rightarrow> bool \<Rightarrow>
     nat \<Rightarrow> 'r option \<Rightarrow> 'c channel_state \<Rightarrow> 's \<Rightarrow> ((lmac_error + 'r option) \<times> 'c channel_state \<times> 's) option" where
  "scan_loop ro beacon cb air chs continuous n res cs s =
     (case scan_channels ro beacon cb air chs n cs s of
        (Inl e, cs', s') \<Rightarrow> Some (Inl e, cs', s')
      | (Inr (stopped, n'), cs', s') \<Rightarrow>
          (let res' = (case stopped of None \<Rightarrow> res | Some r \<Rightarrow> Some r)
           in if \<not> continuous then Some (Inr res', cs', s')
              else scan_loop ro beacon cb air chs continuous n' res' cs' s'))"

text \<open>Every way out of \<open>scan\<close> drops the router operation and the off-channel operation.\<close>

definition scan ::
  "('c, 'm) radio_ops \<Rightarrow> 'm \<Rightarrow> ('w \<Rightarrow> 'w) \<Rightarrow> 'g signal_ops \<Rightarrow> ('f \<Rightarrow> 'b option) \<Rightarrow> ('b, 'f, 's, 'r) scan_callback \<Rightarrow>
     (nat \<Rightarrow> 'f list) \<Rightarrow> scan_config option \<Rightarrow> bool \<Rightarrow> u8 \<Rightarrow> lmac_error + off_channel_operation \<Rightarrow> rx_router_queue \<Rightarrow>
     ('q, 'o, 'g) rx_router \<Rightarrow> 'c channel_state \<Rightarrow> 'w \<Rightarrow> 's \<Rightarrow>
     ((lmac_error + 'r option) \<times> ('q, 'o, 'g) rx_router \<times> 'c channel_state \<times> 'w \<times> 's) option" where
  "scan ro beacons_only watch_send sg beacon cb air cfg continuous current began q r cs w s =
     (case began of
        Inl e \<Rightarrow> Some (Inl e, r, cs, w, s)
      | Inr op \<Rightarrow>
          (let config = (case cfg of None \<Rightarrow> ScanConfig_default | Some c \<Rightarrow> c);
               chs = strategy_channels current (strategy config);
               cs1 = OffChannelOperation_set_scanning_mode ro (op_interface op) beacons_only cs
           in case scan_loop ro beacon cb air chs continuous 0 None cs1 s of
                None \<Rightarrow> None
              | Some (res, cs2, s') \<Rightarrow>
                  (let (cs3, w') = OffChannelOperation_drop ro watch_send op (cs2, w)
                   in Some (res, scoped_operation_drop sg q r, cs3, w', s'))))"

section \<open>Lemmas\<close>

lemma set_channel_locks:
  "OffChannelOperation_set_channel ro ch cs = (r, cs') \<Longrightarrow> locks cs' = locks cs"
  by (auto simp: OffChannelOperation_set_channel_def split: prod.splits)

lemma set_channel_valid:
  assumes "channel_driver valid current ro" "ch \<in> valid"
  shows "\<exists>cs'. OffChannelOperation_set_channel ro ch cs = (Inr (), cs')"
  using assms by (auto simp: OffChannelOperation_set_channel_def channel_driver_def split: prod.splits)
    (metis fst_conv)

lemma scan_channels_locks:
  "scan_channels ro beacon cb air chs n cs s = (res, cs', s') \<Longrightarrow> locks cs' = locks cs"
proof (induction chs arbitrary: n cs s)
  case Nil
  then show ?case by simp
next
  case (Cons ch chs)
  then show ?case
    by (auto dest: set_channel_locks split: prod.splits sum.splits post_channel_scan_action.splits)
qed

lemma scan_channels_valid:
  assumes "channel_driver valid current ro"
  shows "set chs \<subseteq> valid \<Longrightarrow> \<exists>st n' cs' s'. scan_channels ro beacon cb air chs n cs s = (Inr (st, n'), cs', s')"
proof (induction chs arbitrary: n cs s)
  case Nil
  then show ?case by simp
next
  case (Cons ch chs)
  obtain cs1 where c: "OffChannelOperation_set_channel ro ch cs = (Inr (), cs1)"
    using set_channel_valid [OF assms, of ch cs] Cons.prems by auto
  show ?case using Cons.IH [of "Suc n" cs1] Cons.prems
    by (auto simp: c split: prod.splits post_channel_scan_action.splits)
qed

lemma scan_loop_continuous:
  assumes "scan_loop ro beacon cb air chs continuous n res cs s = Some y"
  shows "\<not> (continuous \<and> channel_driver valid current ro \<and> set chs \<subseteq> valid)"
  apply (rule scan_loop.raw_induct [OF _ assms, where P = "\<lambda>ro beacon cb air chs continuous n res cs s y.
    \<not> (continuous \<and> channel_driver valid current ro \<and> set chs \<subseteq> valid)"])
  subgoal premises p for rec ro beacon cb air chs continuous n res cs s y
  proof
    assume a: "continuous \<and> channel_driver valid current ro \<and> set chs \<subseteq> valid"
    obtain st n' cs' s' where "scan_channels ro beacon cb air chs n cs s = (Inr (st, n'), cs', s')"
      using scan_channels_valid [of valid current ro chs beacon cb air n cs s] a by auto
    with p(2) a obtain res' where "rec ro beacon cb air chs continuous n' res' cs' s' = Some y"
      by (auto simp: Let_def)
    from p(1) [OF this] a show False by blast
  qed
  done

text \<open>Both sweeps visit each of the thirteen channels exactly once.\<close>

lemma sweeps_permutation:
  "mset (strategy_channels c NonOverlappingFirst) = mset (strategy_channels c Linear)"
  "distinct (strategy_channels c Linear)"
  by simp_all

section \<open>Properties\<close>



text \<open>
  A continuous scan never ends. On channels the radio supports, it does not return
  whatever the callback answers: stopping only ends the sweep that is running.
\<close>

theorem continuous_scan_never_stops:
  assumes "channel_driver valid current ro" "set (strategy_channels now (strategy cfg)) \<subseteq> valid"
  shows "scan ro beacons_only watch_send sg beacon cb air (Some cfg) True now (Inr op) q r cs w s = None"
proof -
  let ?cs = "OffChannelOperation_set_scanning_mode ro (op_interface op) beacons_only cs"
  have "scan_loop ro beacon cb air (strategy_channels now (strategy cfg)) True 0 None ?cs s = None"
    using scan_loop_continuous assms by (metis option.exhaust)
  then show ?thesis by (simp add: scan_def Let_def)
qed

theorem continuous_scan_never_stops_witness:
  "scan plain_radio () (\<lambda>w. w) latch (\<lambda>f :: nat. Some f) (\<lambda>b f ch s. (Stop b, s)) (\<lambda>n. [n])
       (Some \<lparr>channel_remain_time = 1, strategy = SingleChannel 6\<rparr>) True 6
       (Inr \<lparr>op_interface = 0, previously_locked_channel = Some 6\<rparr>) Foreground
       (RxRouter_new (list_channel 1) latch :: (nat list, nat, bool) rx_router)
       (ChannelState_new 6) () () = None"
  by (rule continuous_scan_never_stops [OF plain_radio_ok]) simp

end
