(* ===== verification/Sta_Bss.thy ===== *)
theory Sta_Bss
  imports Rsn Scan
begin

text \<open>
  What the station knows of a network, \<open>foa_sta/src/bss.rs\<close>, and its scan callbacks,
  \<open>foa_sta/src/operations/scan.rs\<close>. A parsed beacon is the record of the fields the code
  reads; the key derivation and the index map are third-party code and parameters.
\<close>

section \<open>Security configuration\<close>

datatype mfp_config = MfpDisabled | MfpCapable | MfpRequired | MfpInvalid

record rsn_element =
  group_data_cipher_suite :: "cipher_suite option"
  rsn_capabilities :: "mfp_config option"
  pairwise_cipher_suite_list :: "cipher_suite list option"
  akm_list :: "akm_type list option"

record beacon_frame =
  beacon_ssid :: "string option"
  beacon_bssid :: mac_address
  dsss_channel :: "u8 option"
  beacon_rsn :: "rsn_element option"

record rsn_report =
  group_cipher :: cipher_suite
  ccmp_present :: bool
  gcmp_present :: bool
  tkip_present :: bool
  owe_present :: bool
  sae_present :: bool
  psk_present :: bool
  mfp_required :: bool

datatype security_config =
    Open | Wep | Wpa | Wpa2TransitionMode | Wpa2 bool | Wpa3TransitionMode | Wpa3
  | OweTransitionMode | Owe | Invalid

definition report_cipher :: "cipher_suite \<Rightarrow> rsn_report \<Rightarrow> rsn_report" where
  "report_cipher c r =
     (case c of
        Ccmp128 \<Rightarrow> r\<lparr>ccmp_present := True\<rparr> | Ccmp256 \<Rightarrow> r\<lparr>ccmp_present := True\<rparr>
      | Gcmp128 \<Rightarrow> r\<lparr>gcmp_present := True\<rparr> | Gcmp256 \<Rightarrow> r\<lparr>gcmp_present := True\<rparr>
      | Tkip \<Rightarrow> r\<lparr>tkip_present := True\<rparr>
      | _ \<Rightarrow> r)"

definition report_akm :: "akm_type \<Rightarrow> rsn_report \<Rightarrow> rsn_report" where
  "report_akm a r =
     (case a of
        OpportunisticWirelessEncryption \<Rightarrow> r\<lparr>owe_present := True\<rparr>
      | Psk \<Rightarrow> r\<lparr>psk_present := True\<rparr>
      | Sae \<Rightarrow> r\<lparr>sae_present := True\<rparr>
      | _ \<Rightarrow> r)"

definition generate_rsn_report :: "rsn_element \<Rightarrow> rsn_report option" where
  "generate_rsn_report rsn =
     (case group_data_cipher_suite rsn of
        None \<Rightarrow> None
      | Some gc \<Rightarrow>
          if rsn_capabilities rsn = Some MfpInvalid then None
          else
            (let r0 = \<lparr>group_cipher = gc, ccmp_present = False, gcmp_present = False, tkip_present = False,
                       owe_present = False, sae_present = False, psk_present = False,
                       mfp_required = (rsn_capabilities rsn = Some MfpRequired)\<rparr>
             in case pairwise_cipher_suite_list rsn of
                  None \<Rightarrow> None
                | Some ciphers \<Rightarrow>
                    (case akm_list rsn of
                       None \<Rightarrow> None
                     | Some akms \<Rightarrow> Some (fold report_akm akms (fold report_cipher ciphers r0)))))"

definition SecurityConfig_from_beacon_like :: "beacon_frame \<Rightarrow> security_config" where
  "SecurityConfig_from_beacon_like b =
     (case beacon_rsn b of
        None \<Rightarrow> Open
      | Some rsn \<Rightarrow>
          (case generate_rsn_report rsn of
             None \<Rightarrow> Invalid
           | Some r \<Rightarrow>
               if group_cipher r = Ccmp128 \<and> ccmp_present r
               then (if owe_present r then Owe
                     else if psk_present r \<and> sae_present r then Wpa3TransitionMode
                     else if psk_present r then Wpa2 (mfp_required r)
                     else if sae_present r then Wpa3
                     else Invalid)
               else if group_cipher r = Tkip \<and> tkip_present r
               then (if ccmp_present r then Wpa2TransitionMode else Wpa)
               else Invalid))"

section \<open>BSS and credentials\<close>

record bss =
  ssid :: string
  channel :: u8
  bssid :: mac_address
  last_rssi :: int
  security_config :: security_config

text \<open>Pushing more than 32 bytes onto the fixed-capacity string fails and leaves it empty.\<close>

definition BSS_from_beacon_like :: "beacon_frame \<Rightarrow> int \<Rightarrow> bss option" where
  "BSS_from_beacon_like b rssi =
     (case beacon_ssid b of
        None \<Rightarrow> None
      | Some name \<Rightarrow>
          (case dsss_channel b of
             None \<Rightarrow> None
           | Some ch \<Rightarrow>
               Some \<lparr>ssid = (if length name \<le> 32 then name else []), channel = ch, bssid = beacon_bssid b,
                     last_rssi = rssi, security_config = SecurityConfig_from_beacon_like b\<rparr>))"

datatype credentials = PreSharedKey bytes | Passphrase string

text \<open>The output slice has \<open>n\<close> bytes; \<open>None\<close> is the length mismatch.\<close>

definition pmk :: "(string \<Rightarrow> string \<Rightarrow> nat \<Rightarrow> bytes) \<Rightarrow> credentials \<Rightarrow> nat \<Rightarrow> string \<Rightarrow> bytes option" where
  "pmk derive c n network =
     (case c of
        PreSharedKey psk \<Rightarrow> if n = length psk then Some psk else None
      | Passphrase p \<Rightarrow> Some (derive p network n))"

definition derive_psk :: "(string \<Rightarrow> string \<Rightarrow> nat \<Rightarrow> bytes) \<Rightarrow> credentials \<Rightarrow> string \<Rightarrow> bytes option" where
  "derive_psk derive c network = pmk derive c 32 network"

section \<open>Scan callbacks\<close>

definition search_cb ::
  "string \<Rightarrow> ('f \<Rightarrow> int) \<Rightarrow> beacon_frame \<Rightarrow> 'f \<Rightarrow> u8 \<Rightarrow> unit \<Rightarrow> bss post_channel_scan_action \<times> unit" where
  "search_cb name rssi b f ch s =
     (if beacon_ssid b \<noteq> Some name then (Continue, s)
      else case BSS_from_beacon_like b (rssi f) of
             None \<Rightarrow> (Continue, s)
           | Some x \<Rightarrow> (Stop x, s))"

text \<open>The fixed-capacity index map: \<open>im_insert\<close> may refuse.\<close>

record ('m, 'k, 'v) index_map_ops =
  im_new :: 'm
  im_get :: "'m \<Rightarrow> 'k \<Rightarrow> 'v option"
  im_len :: "'m \<Rightarrow> nat"
  im_insert :: "'m \<Rightarrow> 'k \<Rightarrow> 'v \<Rightarrow> 'm option"
  im_remove :: "'m \<Rightarrow> 'k \<Rightarrow> 'm"

definition index_map_laws :: "nat \<Rightarrow> ('m, 'k, 'v) index_map_ops \<Rightarrow> bool" where
  "index_map_laws cap im \<longleftrightarrow>
     (\<forall>k. im_get im (im_new im) k = None) \<and> im_len im (im_new im) = 0 \<and>
     (\<forall>m. im_len im m \<le> cap) \<and>
     (\<forall>m k v. im_len im m < cap \<or> im_get im m k \<noteq> None \<longrightarrow>
        (\<exists>m'. im_insert im m k v = Some m' \<and>
           (\<forall>j. im_get im m' j = (if j = k then Some v else im_get im m j)) \<and>
           im_len im m' = (if im_get im m k = None then im_len im m + 1 else im_len im m))) \<and>
     (\<forall>m k v. \<not> (im_len im m < cap \<or> im_get im m k \<noteq> None) \<longrightarrow> im_insert im m k v = None) \<and>
     (\<forall>m k j. im_get im (im_remove im m k) j = (if j = k then None else im_get im m j)) \<and>
     (\<forall>m k. im_len im (im_remove im m k) = (if im_get im m k = None then im_len im m else im_len im m - 1))"

definition enumerate_cb ::
  "nat \<Rightarrow> ('m, mac_address, bss) index_map_ops \<Rightarrow> ('f \<Rightarrow> int) \<Rightarrow> beacon_frame \<Rightarrow> 'f \<Rightarrow> u8 \<Rightarrow> 'm \<Rightarrow>
     unit post_channel_scan_action \<times> 'm" where
  "enumerate_cb cap im rssi b f ch m =
     (if im_get im m (beacon_bssid b) \<noteq> None then (Continue, m)
      else if im_len im m = cap then (Stop (), m)
      else case BSS_from_beacon_like b (rssi f) of
             None \<Rightarrow> (Continue, m)
           | Some x \<Rightarrow>
               (Continue, case im_insert im m (beacon_bssid b) x of None \<Rightarrow> m | Some m' \<Rightarrow> m'))"

text \<open>The unbounded map of the continuous scan is a map of the standard library.\<close>

definition continuous_cb ::
  "(bss \<Rightarrow> bool) \<Rightarrow> ('f \<Rightarrow> int) \<Rightarrow> beacon_frame \<Rightarrow> 'f \<Rightarrow> u8 \<Rightarrow> (mac_address \<rightharpoonup> bss) \<Rightarrow>
     unit post_channel_scan_action \<times> (mac_address \<rightharpoonup> bss)" where
  "continuous_cb found rssi b f ch m =
     (if m (beacon_bssid b) \<noteq> None then (Continue, m)
      else case BSS_from_beacon_like b (rssi f) of
             None \<Rightarrow> (Continue, m)
           | Some x \<Rightarrow> (if found x then Continue else Stop (), m(beacon_bssid b \<mapsto> x)))"

datatype 'e search_error = UnableToFindEss | ScanLMacError 'e

definition search_result :: "lmac_error + bss option \<Rightarrow> lmac_error search_error + bss" where
  "search_result r =
     (case r of Inr (Some b) \<Rightarrow> Inr b | Inr None \<Rightarrow> Inl UnableToFindEss | Inl e \<Rightarrow> Inl (ScanLMacError e))"

section \<open>Lemmas\<close>

lemma fold_report_cipher:
  "group_cipher (fold report_cipher cs r) = group_cipher r"
  "ccmp_present (fold report_cipher cs r) \<longleftrightarrow> ccmp_present r \<or> Ccmp128 \<in> set cs \<or> Ccmp256 \<in> set cs"
  "tkip_present (fold report_cipher cs r) \<longleftrightarrow> tkip_present r \<or> Tkip \<in> set cs"
  "owe_present (fold report_cipher cs r) = owe_present r"
  "sae_present (fold report_cipher cs r) = sae_present r"
  "psk_present (fold report_cipher cs r) = psk_present r"
  "mfp_required (fold report_cipher cs r) = mfp_required r"
  by (induction cs arbitrary: r) (auto simp: report_cipher_def split: cipher_suite.splits)

lemma fold_report_akm:
  "group_cipher (fold report_akm as r) = group_cipher r"
  "ccmp_present (fold report_akm as r) = ccmp_present r"
  "tkip_present (fold report_akm as r) = tkip_present r"
  "owe_present (fold report_akm as r) \<longleftrightarrow> owe_present r \<or> OpportunisticWirelessEncryption \<in> set as"
  "sae_present (fold report_akm as r) \<longleftrightarrow> sae_present r \<or> Sae \<in> set as"
  "psk_present (fold report_akm as r) \<longleftrightarrow> psk_present r \<or> Psk \<in> set as"
  "mfp_required (fold report_akm as r) = mfp_required r"
  by (induction "as" arbitrary: r) (auto simp: report_akm_def split: akm_type.splits)

text \<open>
  A network is taken for WPA2-PSK exactly when its RSN element says so: group cipher
  CCMP-128, a CCMP pairwise cipher, the PSK key management and neither SAE nor OWE, with valid
  management frame protection; a protected network is never taken for an open one.
\<close>

theorem wpa2_classification:
  "(SecurityConfig_from_beacon_like b = Wpa2 mfp \<longleftrightarrow>
      (\<exists>rsn ciphers akms. beacon_rsn b = Some rsn \<and> group_data_cipher_suite rsn = Some Ccmp128 \<and>
         rsn_capabilities rsn \<noteq> Some MfpInvalid \<and> mfp = (rsn_capabilities rsn = Some MfpRequired) \<and>
         pairwise_cipher_suite_list rsn = Some ciphers \<and> (Ccmp128 \<in> set ciphers \<or> Ccmp256 \<in> set ciphers) \<and>
         akm_list rsn = Some akms \<and> Psk \<in> set akms \<and> Sae \<notin> set akms \<and> OpportunisticWirelessEncryption \<notin> set akms)) \<and>
   (SecurityConfig_from_beacon_like b = Open \<longleftrightarrow> beacon_rsn b = None)"
  by (auto simp: SecurityConfig_from_beacon_like_def generate_rsn_report_def Let_def fold_report_cipher
      fold_report_akm split: option.splits if_splits)

text \<open>
  A search for a network returns the network that was asked for. Whatever frames arrive on
  a channel, if the search stops, one of them was a beacon with the requested name, and the
  result has that name, the beacon's BSSID and channel and its security configuration.
\<close>

theorem search_finds_requested:
  assumes "scan_on_channel beacon (search_cb name rssi) ch fs () = (Stop x, ())" "length name \<le> 32"
  shows "\<exists>f b. f \<in> set fs \<and> beacon f = Some b \<and> beacon_ssid b = Some name \<and> ssid x = name \<and>
     bssid x = beacon_bssid b \<and> dsss_channel b = Some (channel x) \<and>
     security_config x = SecurityConfig_from_beacon_like b"
  using assms(1)
proof (induction fs)
  case Nil
  then show ?case by simp
next
  case (Cons f fs)
  show ?case
  proof (cases "beacon f")
    case None
    then show ?thesis using Cons by auto
  next
    case (Some b)
    show ?thesis
    proof (cases "search_cb name rssi b f ch ()")
      case (Pair a u)
      show ?thesis
      proof (cases a)
        case Continue
        then show ?thesis using Cons Some Pair by auto
      next
        case (Stop y)
        then have y: "y = x" using Cons.prems Some Pair by simp
        have "beacon_ssid b = Some name" "BSS_from_beacon_like b (rssi f) = Some x"
          using Pair Stop y by (auto simp: search_cb_def split: if_splits option.splits)
        then show ?thesis using Some assms(2)
          by (intro exI [of _ f] exI [of _ b]) (auto simp: BSS_from_beacon_like_def split: option.splits)
      qed
    qed
  qed
qed

definition demo_beacon :: beacon_frame where
  "demo_beacon = \<lparr>beacon_ssid = Some ''net'', beacon_bssid = [1], dsss_channel = Some 6, beacon_rsn = None\<rparr>"

theorem search_finds_requested_witness:
  "\<exists>x. scan_on_channel (\<lambda>f :: nat. Some demo_beacon) (search_cb ''net'' (\<lambda>_. 0)) 6 [0] () = (Stop x, ()) \<and> ssid x = ''net''"
proof -
  obtain x where x: "scan_on_channel (\<lambda>f :: nat. Some demo_beacon) (search_cb ''net'' (\<lambda>_. 0)) 6 [0] () = (Stop x, ())"
    by (simp add: search_cb_def BSS_from_beacon_like_def demo_beacon_def)
  from search_finds_requested [OF x] x show ?thesis by auto
qed

end
