(* ===== verification/Rx_Filter.thy ===== *)
theory Rx_Filter
  imports Foa_Prelude
begin

text \<open>
  The receive filters of the driver, which the station and the AWDL interface set through their
  interface control: one address for every bank of an interface, or none. The operations are
  parameters; \<open>filter_laws\<close> states their documented behaviour on the addresses a filter state
  stands for.
\<close>

datatype filter_bank = ReceiverAddress | BssidBank

record 'fl filter_ops =
  driver_set_filter :: "filter_bank \<Rightarrow> mac_address \<Rightarrow> 'fl \<Rightarrow> 'fl"
  driver_clear_filter :: "filter_bank \<Rightarrow> 'fl \<Rightarrow> 'fl"

definition filter_laws :: "('fl \<Rightarrow> filter_bank \<Rightarrow> mac_address option) \<Rightarrow> 'fl filter_ops \<Rightarrow> bool" where
  "filter_laws view fo \<longleftrightarrow>
     (\<forall>b a s. view (driver_set_filter fo b a s) = (view s)(b \<mapsto> a)) \<and>
     (\<forall>b s. view (driver_clear_filter fo b s) = (view s)(b := None))"

lemma filter_lawsD:
  assumes "filter_laws view fo"
  shows "view (driver_set_filter fo b a s) = (view s)(b \<mapsto> a)" "view (driver_clear_filter fo b s) = (view s)(b := None)"
  using assms by (simp_all add: filter_laws_def)

text \<open>A driver that is the map itself.\<close>

definition map_filters :: "(filter_bank \<Rightarrow> mac_address option) filter_ops" where
  "map_filters = \<lparr>driver_set_filter = (\<lambda>b a s. s(b \<mapsto> a)), driver_clear_filter = (\<lambda>b s. s(b := None))\<rparr>"

lemma map_filters_laws: "filter_laws (\<lambda>s. s) map_filters"
  by (simp add: filter_laws_def map_filters_def)

end
