(* ===== verification/Net_Driver.thy ===== *)
theory Net_Driver
  imports Foa_Prelude
begin

unbundle bit_operations_syntax

text \<open>
  What the station and the AWDL interface share towards the network stack: the channel between
  the driver and the stack, which is third-party code and a parameter with its documented
  behaviour \<open>net_laws\<close>, and the random hardware address of \<open>foa/src/util/mod.rs\<close>.
\<close>

record 'n net_ops =
  net_tx_buf :: "'n \<Rightarrow> bytes option"
  net_tx_done :: "'n \<Rightarrow> 'n"
  net_rx_space :: "'n \<Rightarrow> bool"
  net_rx_done :: "bytes \<Rightarrow> 'n \<Rightarrow> 'n"
  net_set_link :: "bool \<Rightarrow> 'n \<Rightarrow> 'n"
  net_set_address :: "mac_address \<Rightarrow> 'n \<Rightarrow> 'n"

text \<open>What the code relies on: the transmit side is a queue whose head stays until it is done,
  the receive side hands over what is written.\<close>

definition net_laws ::
  "('n \<Rightarrow> bytes list) \<Rightarrow> ('n \<Rightarrow> bytes list) \<Rightarrow> 'n net_ops \<Rightarrow> bool" where
  "net_laws outgoing delivered no \<longleftrightarrow>
     (\<forall>n. net_tx_buf no n = (case outgoing n of [] \<Rightarrow> None | x # _ \<Rightarrow> Some x)) \<and>
     (\<forall>n. outgoing (net_tx_done no n) = tl (outgoing n) \<and> delivered (net_tx_done no n) = delivered n) \<and>
     (\<forall>b n. outgoing (net_rx_done no b n) = outgoing n \<and> delivered (net_rx_done no b n) = delivered n @ [b]) \<and>
     (\<forall>b n. outgoing (net_set_link no b n) = outgoing n \<and> delivered (net_set_link no b n) = delivered n) \<and>
     (\<forall>a n. outgoing (net_set_address no a n) = outgoing n \<and> delivered (net_set_address no a n) = delivered n)"

text \<open>A network stack of two lists.\<close>

definition list_net :: "(bytes list \<times> bytes list) net_ops" where
  "list_net =
     \<lparr>net_tx_buf = (\<lambda>n. case fst n of [] \<Rightarrow> None | x # _ \<Rightarrow> Some x), net_tx_done = (\<lambda>n. (tl (fst n), snd n)),
      net_rx_space = (\<lambda>n. True), net_rx_done = (\<lambda>b n. (fst n, snd n @ [b])), net_set_link = (\<lambda>_ n. n),
      net_set_address = (\<lambda>_ n. n)\<rparr>"

lemma list_net_ok: "net_laws fst snd list_net"
  by (auto simp: net_laws_def list_net_def split: list.splits)

text \<open>\<open>random_mac_address\<close> on the six bytes the generator fills in.\<close>

definition random_mac_address :: "bytes \<Rightarrow> mac_address" where
  "random_mac_address r = r[0 := (r ! 0 AND NOT 1) OR 2]"

lemma random_mac_address_local:
  assumes "length r = 6"
  shows "length (random_mac_address r) = 6 \<and> \<not> bit (random_mac_address r ! 0) 0 \<and> bit (random_mac_address r ! 0) 1"
  using assms by (auto simp: random_mac_address_def bit_simps)

end
