(* ===== verification/Sta_State.thy ===== *)
theory Sta_State
  imports Sta_Bss Lmac_Crypto Rx_Filter Net_Driver
begin

unbundle bit_operations_syntax

text \<open>
  The state a station interface shares between its control and its runners:
  \<open>foa_sta/src/connection_state.rs\<close>, \<open>rx_router.rs\<close> and the parts of \<open>lib.rs\<close> that hold state,
  with the two small utilities of \<open>foa/src/util\<close> it uses. What the station calls below itself
  is one record of parameters, \<open>sta_env\<close>: the laws its theorems need are the predicates of the
  components that own them.
\<close>

section \<open>Errors\<close>

datatype status_code = Success | OtherStatus nat

datatype sta_error =
    LMacError lmac_error
  | UnableToFindEss
  | AckTimeout
  | TxCompletionLost
  | ResponseTimeout
  | FrameDeserializationFailed
  | AuthenticationFailure status_code
  | AssociationFailure status_code
  | StillConnected
  | NotConnected
  | SameNetwork
  | InvalidBss
  | RouterOperationAlreadyInProgress
  | NoCredentialsForNetwork
  | FourWayHandshakeFailure
  | NoKeySlotsAvailable
  | InvalidPskLength
  | GroupKeyHandshakeFailure

section \<open>The connection state\<close>

text \<open>Durations are microseconds.\<close>

record connection_config =
  automatic_reconnect :: bool
  handshake_retries :: nat
  handshake_timeout :: nat
  beacon_timeout :: "nat option"

definition ConnectionConfig_default :: connection_config where
  "ConnectionConfig_default =
     \<lparr>automatic_reconnect = True, handshake_retries = 4, handshake_timeout = 100000, beacon_timeout = Some 3000000\<rparr>"

record connection_info =
  ci_bss :: bss
  own_address :: mac_address
  aid :: nat
  connection_config :: connection_config

datatype disconnection_reason = User | BeaconTimeout | Deauthenticated

datatype connection_state = Disconnected disconnection_reason | Connected connection_info

record 'g connection_state_tracker =
  tracked_state :: connection_state
  state_changed :: 'g

definition ConnectionStateTracker_new :: "'g signal_ops \<Rightarrow> 'g connection_state_tracker" where
  "ConnectionStateTracker_new sg = \<lparr>tracked_state = Disconnected User, state_changed = sig_new sg\<rparr>"

definition signal_state ::
  "'g signal_ops \<Rightarrow> connection_state \<Rightarrow> 'g connection_state_tracker \<Rightarrow> 'g connection_state_tracker" where
  "signal_state sg new_state t = \<lparr>tracked_state = new_state, state_changed = sig_signal sg (state_changed t)\<rparr>"

definition map_connection_info :: "(connection_info \<Rightarrow> 'o) \<Rightarrow> 'g connection_state_tracker \<Rightarrow> 'o option" where
  "map_connection_info f t = (case tracked_state t of Connected i \<Rightarrow> Some (f i) | Disconnected _ \<Rightarrow> None)"

definition connection_info_of :: "'g connection_state_tracker \<Rightarrow> connection_info option" where
  "connection_info_of t = (case tracked_state t of Connected i \<Rightarrow> Some i | Disconnected _ \<Rightarrow> None)"

definition disconnection_reason_of :: "'g connection_state_tracker \<Rightarrow> disconnection_reason option" where
  "disconnection_reason_of t = (case tracked_state t of Disconnected r \<Rightarrow> Some r | Connected _ \<Rightarrow> None)"

definition connected :: "'g connection_state_tracker \<Rightarrow> bool" where
  "connected t = (case tracked_state t of Connected _ \<Rightarrow> True | Disconnected _ \<Rightarrow> False)"

definition bssid_and_own_address :: "'g connection_state_tracker \<Rightarrow> (mac_address \<times> mac_address) option" where
  "bssid_and_own_address t = map_connection_info (\<lambda>i. (bssid (ci_bss i), own_address i)) t"

text \<open>
  The two waits are futures. Each round tests the state and then waits for the signal; nothing
  else runs during a poll, so the second round of a poll finds the state of the first one and
  the signal consumed. \<open>waiting\<close> says whether the future is already inside the signal.
\<close>

definition wait_for_connection ::
  "'g signal_ops \<Rightarrow> bool \<Rightarrow> 'g connection_state_tracker \<Rightarrow> connection_info poll \<times> 'g connection_state_tracker" where
  "wait_for_connection sg waiting t =
     (if \<not> waiting \<and> connected t
      then (case connection_info_of t of Some i \<Rightarrow> Ready i | None \<Rightarrow> Pending, t)
      else case sig_wait sg (state_changed t) of
             Pending \<Rightarrow> (Pending, t)
           | Ready s \<Rightarrow>
               (case connection_info_of t of
                  Some i \<Rightarrow> (Ready i, t\<lparr>state_changed := s\<rparr>)
                | None \<Rightarrow> (Pending, t\<lparr>state_changed := s\<rparr>)))"

definition wait_for_disconnection ::
  "'g signal_ops \<Rightarrow> bool \<Rightarrow> 'g connection_state_tracker \<Rightarrow> disconnection_reason poll \<times> 'g connection_state_tracker" where
  "wait_for_disconnection sg waiting t =
     (case (if waiting then None else disconnection_reason_of t) of
        Some r \<Rightarrow> (Ready r, t)
      | None \<Rightarrow>
          (case sig_wait sg (state_changed t) of
             Pending \<Rightarrow> (Pending, t)
           | Ready s \<Rightarrow>
               (case disconnection_reason_of t of
                  Some r \<Rightarrow> (Ready r, t\<lparr>state_changed := s\<rparr>)
                | None \<Rightarrow> (Pending, t\<lparr>state_changed := s\<rparr>))))"

section \<open>The operations of the RX router\<close>

datatype management_subtype =
  Beacon | ProbeResponse | Authentication | AssociationResponse | Deauthentication | OtherManagement nat

datatype frame_type = Management management_subtype | Control nat | DataType nat | OtherType

record generic_frame =
  gf_type :: frame_type
  gf_address_1 :: mac_address
  gf_eapol_key :: bool

datatype sta_operation =
    Authenticating mac_address
  | Associating mac_address
  | CryptoHandshake mac_address
  | Scanning

fun connecting_mac_address :: "sta_operation \<Rightarrow> mac_address option" where
  "connecting_mac_address (Authenticating a) = Some a"
| "connecting_mac_address (Associating a) = Some a"
| "connecting_mac_address (CryptoHandshake a) = Some a"
| "connecting_mac_address Scanning = None"

fun sta_frame_relevant :: "sta_operation \<Rightarrow> generic_frame \<Rightarrow> bool" where
  "sta_frame_relevant Scanning g = (gf_type g = Management Beacon \<or> gf_type g = Management ProbeResponse)"
| "sta_frame_relevant (Authenticating _) g = (gf_type g = Management Authentication)"
| "sta_frame_relevant (Associating _) g = (gf_type g = Management AssociationResponse)"
| "sta_frame_relevant (CryptoHandshake _) g = gf_eapol_key g"

text \<open>The trait's defaults: no concurrent operations.\<close>

definition sta_router_ops :: "(sta_operation, generic_frame) router_operation_ops" where
  "sta_router_ops =
     \<lparr>CONCORRUENT_OPERATIONS_SUPPORTED = False, frame_relevant = sta_frame_relevant, compatible_with = (\<lambda>_ _. False)\<rparr>"

text \<open>
  \<open>receive_connection_response\<close> on the frames that arrive before the caller's timeout: \<open>None\<close> is
  the timeout. A frame that does not belong to the running operation is dropped.
\<close>

fun receive_connection_response ::
  "(bytes \<Rightarrow> generic_frame option) \<Rightarrow> sta_operation \<Rightarrow> bytes list \<Rightarrow> bytes option" where
  "receive_connection_response generic op [] = None"
| "receive_connection_response generic op (f # fs) =
     (if (case generic f of None \<Rightarrow> False | Some g \<Rightarrow> sta_frame_relevant op g) then Some f
      else receive_connection_response generic op fs)"

section \<open>What the station is built on\<close>

datatype phy_rate = OfdmMbits6 | OtherRate nat

text \<open>An outgoing EAPOL key frame, by the fields the code fills in.\<close>

record eapol_out =
  eo_key_information :: nat
  eo_key_length :: nat
  eo_replay_counter :: u64
  eo_nonce :: bytes
  eo_rsn_element :: bool
  eo_kck :: bytes

text \<open>
  The parameters: the number of interfaces and our own, the driver, the hardware key slots, the
  channel and the signal of the executor, the frame parsers, and the key derivation.
\<close>

record ('c, 'm, 'k, 'fl, 'q, 'g) sta_env =
  e_interfaces :: nat
  e_iface :: nat
  e_radio :: "('c, 'm) radio_ops"
  e_bits :: bit_macro_ops
  e_key_slots :: nat
  e_crypto :: "('k, ccmp_parameters) crypto_ops"
  e_filters :: "'fl filter_ops"
  e_queue :: "('q, bytes) channel_ops"
  e_signal :: "'g signal_ops"
  e_generic :: "bytes \<Rightarrow> generic_frame option"
  e_parse :: data_parser
  e_decode :: eapol_decoder
  e_encode_ccmp :: "u64 \<Rightarrow> u8 \<Rightarrow> bytes option"
  e_max_pn :: u64
  e_serialize_eapol :: "mac_address \<Rightarrow> mac_address \<Rightarrow> eapol_out \<Rightarrow> bytes \<times> nat"
  e_ssid_fits :: "string \<Rightarrow> bool"
  e_parse_auth :: "bytes \<Rightarrow> status_code option"
  e_parse_assoc :: "bytes \<Rightarrow> (nat option \<times> status_code) option"
  e_partition :: ptk_partition
  e_derive_psk :: "string \<Rightarrow> string \<Rightarrow> nat \<Rightarrow> bytes"
  e_derive_ptk :: "bytes \<Rightarrow> mac_address \<Rightarrow> mac_address \<Rightarrow> bytes \<Rightarrow> bytes \<Rightarrow> bytes"

text \<open>The frames a station hands to the TX endpoint.\<close>

datatype sta_frame =
    AuthRequest mac_address mac_address
  | AssocRequest mac_address mac_address string bool
  | EapolFrame mac_address mac_address eapol_out "(u64 \<times> nat) option" bytes
  | Deauth mac_address mac_address mac_address phy_rate
  | DataOut mac_address mac_address mac_address "(u64 \<times> u8 \<times> nat) option" bytes

text \<open>\<open>StaTxRx\<close> with what it refers to, and the frames sent so far.\<close>

record ('c, 'k, 'fl, 'q, 'g) sta_tx_rx =
  lmac :: "'c channel_state"
  key_hw :: "'k key_hw"
  filters :: 'fl
  router :: "('q, sta_operation, 'g) rx_router"
  connection_state :: "'g connection_state_tracker"
  crypto :: "crypto_state option"
  phy_rate :: phy_rate
  sent :: "sta_frame list"

definition StaResources_new ::
  "('c, 'm, 'k, 'fl, 'q, 'g) sta_env \<Rightarrow> 'c channel_state \<Rightarrow> 'k key_hw \<Rightarrow> 'fl \<Rightarrow> ('c, 'k, 'fl, 'q, 'g) sta_tx_rx" where
  "StaResources_new e cs hw fl =
     \<lparr>lmac = cs, key_hw = hw, filters = fl, router = RxRouter_new (e_queue e) (e_signal e),
      connection_state = ConnectionStateTracker_new (e_signal e), crypto = None, phy_rate = OfdmMbits6, sent = []\<rparr>"

definition reset_phy_rate :: "('c, 'k, 'fl, 'q, 'g) sta_tx_rx \<Rightarrow> ('c, 'k, 'fl, 'q, 'g) sta_tx_rx" where
  "reset_phy_rate w = w\<lparr>phy_rate := OfdmMbits6\<rparr>"

definition set_phy_rate :: "phy_rate \<Rightarrow> ('c, 'k, 'fl, 'q, 'g) sta_tx_rx \<Rightarrow> ('c, 'k, 'fl, 'q, 'g) sta_tx_rx" where
  "set_phy_rate rate w = w\<lparr>phy_rate := rate\<rparr>"

definition in_off_channel_operation ::
  "('c, 'm, 'k, 'fl, 'q, 'g) sta_env \<Rightarrow> ('c, 'k, 'fl, 'q, 'g) sta_tx_rx \<Rightarrow> bool" where
  "in_off_channel_operation e w \<longleftrightarrow> off_channel_operation_interface (lmac w) = Some (e_iface e)"

text \<open>The closure reads and changes the crypto state, when there is one.\<close>

definition map_crypto_state ::
  "(crypto_state \<Rightarrow> 'o \<times> crypto_state) \<Rightarrow> ('c, 'k, 'fl, 'q, 'g) sta_tx_rx \<Rightarrow> 'o option \<times> ('c, 'k, 'fl, 'q, 'g) sta_tx_rx" where
  "map_crypto_state f w =
     (case crypto w of
        None \<Rightarrow> (None, w)
      | Some cs \<Rightarrow> (let (r, cs') = f cs in (Some r, w\<lparr>crypto := Some cs'\<rparr>)))"

definition rsna_activated :: "('c, 'k, 'fl, 'q, 'g) sta_tx_rx \<Rightarrow> bool" where
  "rsna_activated w \<longleftrightarrow> crypto w \<noteq> None"

definition set_filter ::
  "('c, 'm, 'k, 'fl, 'q, 'g) sta_env \<Rightarrow> filter_bank \<Rightarrow> mac_address \<Rightarrow> ('c, 'k, 'fl, 'q, 'g) sta_tx_rx \<Rightarrow>
     ('c, 'k, 'fl, 'q, 'g) sta_tx_rx" where
  "set_filter e b a w = w\<lparr>filters := driver_set_filter (e_filters e) b a (filters w)\<rparr>"

definition clear_filter ::
  "('c, 'm, 'k, 'fl, 'q, 'g) sta_env \<Rightarrow> filter_bank \<Rightarrow> ('c, 'k, 'fl, 'q, 'g) sta_tx_rx \<Rightarrow>
     ('c, 'k, 'fl, 'q, 'g) sta_tx_rx" where
  "clear_filter e b w = w\<lparr>filters := driver_clear_filter (e_filters e) b (filters w)\<rparr>"

definition transmit_frame :: "sta_frame \<Rightarrow> ('c, 'k, 'fl, 'q, 'g) sta_tx_rx \<Rightarrow> ('c, 'k, 'fl, 'q, 'g) sta_tx_rx" where
  "transmit_frame f w = w\<lparr>sent := sent w @ [f]\<rparr>"

section \<open>Utilities\<close>

text \<open>\<open>deauthenticate\<close>: receiver and transmitter depend on the direction.\<close>

definition deauthenticate ::
  "mac_address \<Rightarrow> mac_address \<Rightarrow> bool \<Rightarrow> phy_rate \<Rightarrow> ('c, 'k, 'fl, 'q, 'g) sta_tx_rx \<Rightarrow> ('c, 'k, 'fl, 'q, 'g) sta_tx_rx" where
  "deauthenticate bss_id sta_address to_ap rate w =
     (let (receiver, transmitter) = (if to_ap then (bss_id, sta_address) else (sta_address, bss_id))
      in transmit_frame (Deauth receiver transmitter bss_id rate) w)"

section \<open>Lemmas\<close>

lemma receive_connection_response_Some:
  "receive_connection_response generic op fs = Some f \<Longrightarrow>
   f \<in> set fs \<and> (\<exists>g. generic f = Some g \<and> sta_frame_relevant op g)"
  by (induction fs) (auto split: if_splits option.splits)

lemma receive_connection_response_None:
  "receive_connection_response generic op fs = None \<longleftrightarrow>
   (\<forall>f g. f \<in> set fs \<longrightarrow> generic f = Some g \<longrightarrow> \<not> sta_frame_relevant op g)"
  by (induction fs) (auto split: option.splits)

lemma connected_iff: "connected t \<longleftrightarrow> connection_info_of t \<noteq> None" "connected t \<longleftrightarrow> disconnection_reason_of t = None"
  by (simp_all add: connected_def connection_info_of_def disconnection_reason_of_def split: connection_state.splits)

text \<open>A waiting future wakes up for every state that was signalled.\<close>

lemma wait_for_connection_wakes:
  assumes "signal_laws pending sg"
  shows "\<exists>t'. wait_for_connection sg waiting (signal_state sg (Connected i) t) = (Ready i, t')"
proof -
  let ?t = "signal_state sg (Connected i) t"
  have "pending (state_changed ?t)" using assms by (simp add: signal_laws_def signal_state_def)
  then obtain s where "sig_wait sg (state_changed ?t) = Ready s" using assms unfolding signal_laws_def by metis
  then show ?thesis
    by (simp add: wait_for_connection_def connection_info_of_def connected_def signal_state_def)
qed

lemma wait_for_disconnection_wakes:
  assumes "signal_laws pending sg"
  shows "\<exists>t'. wait_for_disconnection sg waiting (signal_state sg (Disconnected r) t) = (Ready r, t')"
proof -
  let ?t = "signal_state sg (Disconnected r) t"
  have "pending (state_changed ?t)" using assms by (simp add: signal_laws_def signal_state_def)
  then obtain s where "sig_wait sg (state_changed ?t) = Ready s" using assms unfolding signal_laws_def by metis
  then show ?thesis
    by (simp add: wait_for_disconnection_def disconnection_reason_of_def signal_state_def)
qed

end
