(* ===== verification/Async_Ops.thy ===== *)
theory Async_Ops
  imports Foa_Prelude
begin

text \<open>
  Operations of an asynchronous function on a state \<open>'w\<close>: it has not returned (\<open>None\<close>), or it
  ended in the new state with a panic, with an error \<open>'e\<close>, or with its result. \<open>bind_op\<close> is the
  sequence with the operator \<open>?\<close> of the language, which passes errors on. The predicate
  \<open>keeps\<close> says that an operation leaves a part of the state alone; it composes along \<open>bind_op\<close>.
\<close>

datatype ('e, 'r) ending = Panicked panic | Failed 'e | Done 'r

type_synonym ('w, 'e, 'r) op = "'w \<Rightarrow> (('e, 'r) ending \<times> 'w) option"

definition end_op :: "('e, 'r) ending \<Rightarrow> ('w, 'e, 'r) op" where
  "end_op x w = Some (x, w)"

definition bind_op :: "('w, 'e, 'r) op \<Rightarrow> ('r \<Rightarrow> ('w, 'e, 's) op) \<Rightarrow> ('w, 'e, 's) op" where
  "bind_op m f w =
     (case m w of
        None \<Rightarrow> None
      | Some (Panicked p, w') \<Rightarrow> Some (Panicked p, w')
      | Some (Failed x, w') \<Rightarrow> Some (Failed x, w')
      | Some (Done r, w') \<Rightarrow> f r w')"

text \<open>An update of the state, and an expression that may panic.\<close>

definition update_op :: "('w \<Rightarrow> 'w) \<Rightarrow> ('w, 'e, unit) op" where
  "update_op f w = Some (Done (), f w)"

definition get_op :: "('w \<Rightarrow> ('e, 'r) ending) \<Rightarrow> ('w, 'e, 'r) op" where
  "get_op f w = Some (f w, w)"

lemma end_op_eq [simp]: "end_op x w = Some (y, w') \<longleftrightarrow> x = y \<and> w' = w"
  by (auto simp: end_op_def)

lemma update_op_eq [simp]: "update_op f w = Some (y, w') \<longleftrightarrow> y = Done () \<and> w' = f w"
  by (auto simp: update_op_def)

lemma get_op_eq [simp]: "get_op f w = Some (y, w') \<longleftrightarrow> f w = y \<and> w' = w"
  by (auto simp: get_op_def)

lemma bind_op_Done [simp]:
  "bind_op m f w = Some (Done s, w') \<longleftrightarrow> (\<exists>r w1. m w = Some (Done r, w1) \<and> f r w1 = Some (Done s, w'))"
  by (auto simp: bind_op_def split: option.splits ending.splits prod.splits)

lemma bind_op_Failed [simp]:
  "bind_op m f w = Some (Failed x, w') \<longleftrightarrow>
   m w = Some (Failed x, w') \<or> (\<exists>r w1. m w = Some (Done r, w1) \<and> f r w1 = Some (Failed x, w'))"
  by (auto simp: bind_op_def split: option.splits ending.splits prod.splits)

lemma bind_op_Panicked [simp]:
  "bind_op m f w = Some (Panicked p, w') \<longleftrightarrow>
   m w = Some (Panicked p, w') \<or> (\<exists>r w1. m w = Some (Done r, w1) \<and> f r w1 = Some (Panicked p, w'))"
  by (auto simp: bind_op_def split: option.splits ending.splits prod.splits)

lemma bind_op_None [simp]:
  "bind_op m f w = None \<longleftrightarrow> m w = None \<or> (\<exists>r w1. m w = Some (Done r, w1) \<and> f r w1 = None)"
  by (auto simp: bind_op_def split: option.splits ending.splits prod.splits)

lemma bind_op_Some:
  "bind_op m f w = Some (x, w') \<Longrightarrow>
   (\<exists>p. x = Panicked p \<and> m w = Some (Panicked p, w')) \<or> (\<exists>err. x = Failed err \<and> m w = Some (Failed err, w')) \<or>
   (\<exists>r w1. m w = Some (Done r, w1) \<and> f r w1 = Some (x, w'))"
  by (auto simp: bind_op_def split: option.splits ending.splits prod.splits)

section \<open>What an operation leaves alone\<close>

definition keeps :: "('w \<Rightarrow> 'a) \<Rightarrow> ('w, 'e, 'r) op \<Rightarrow> bool" where
  "keeps part m \<longleftrightarrow> (\<forall>w x w'. m w = Some (x, w') \<longrightarrow> part w' = part w)"

named_theorems keeps_intros \<open>rules that show what an operation keeps\<close>

lemma keepsD: "keeps part m \<Longrightarrow> m w = Some (x, w') \<Longrightarrow> part w' = part w"
  by (simp add: keeps_def)

lemma keepsI: "(\<And>w x w'. m w = Some (x, w') \<Longrightarrow> part w' = part w) \<Longrightarrow> keeps part m"
  by (simp add: keeps_def)

lemma keeps_end [keeps_intros]: "keeps part (end_op x)"
  by (simp add: keeps_def)

lemma keeps_get [keeps_intros]: "keeps part (get_op f)"
  by (simp add: keeps_def)

lemma keeps_update [keeps_intros]: "(\<And>w. part (f w) = part w) \<Longrightarrow> keeps part (update_op f)"
  by (simp add: keeps_def)

lemma keeps_bind [keeps_intros]:
  assumes "keeps part m" and "\<And>r. keeps part (f r)"
  shows "keeps part (bind_op m f)"
proof (rule keepsI)
  fix w x w'
  assume "bind_op m f w = Some (x, w')"
  then have "(\<exists>y. m w = Some (y, w')) \<or> (\<exists>r w1. m w = Some (Done r, w1) \<and> f r w1 = Some (x, w'))"
    by (auto dest: bind_op_Some)
  then consider y where "m w = Some (y, w')" | r w1 where "m w = Some (Done r, w1)" "f r w1 = Some (x, w')"
    by blast
  then show "part w' = part w"
  proof cases
    case 1
    then show ?thesis by (rule keepsD [OF assms(1)])
  next
    case 2
    then show ?thesis using keepsD [OF assms(1) 2(1)] keepsD [OF assms(2) 2(2)] by simp
  qed
qed

lemma keeps_if [keeps_intros]: "keeps part m \<Longrightarrow> keeps part n \<Longrightarrow> keeps part (if b then m else n)"
  by simp

end
