(* ===== verification/Sta_Connect.thy ===== *)
theory Sta_Connect
  imports Sta_State Async_Ops
begin

text \<open>
  Connecting to a network, \<open>foa_sta/src/operations/connect.rs\<close>: authentication, association, the
  four-way handshake and the guards that undo a failed attempt. What the radio and the air do
  is an argument: the completion of every transmission and the frames the router delivers at
  every wait. A wait that the air never ends is an operation that does not return.
\<close>

section \<open>Endings and the air\<close>

type_synonym ('c, 'k, 'fl, 'q, 'g, 'r) sta_op = "(('c, 'k, 'fl, 'q, 'g) sta_tx_rx, sta_error, 'r) op"

text \<open>The completion of a transmission: success, an error of the MAC, or lost.\<close>

type_synonym completion = "bool option"

text \<open>One attempt of a request: its completion, and the frames delivered before the timeout.\<close>

record attempt =
  at_completion :: completion
  at_frames :: "bytes list"

record air =
  auth_air :: "nat \<Rightarrow> attempt"
  assoc_air :: "nat \<Rightarrow> attempt"
  snonce :: bytes
  m1_air :: "bytes list"
  m2_done :: completion
  m3_air :: "(bytes \<times> completion) list"
  m4_done :: completion
  watch_air :: "unit poll"

record connection_parameters =
  cp_config :: connection_config
  cp_own_address :: mac_address
  cp_credentials :: "credentials option"

section \<open>EAPOL key frames\<close>

text \<open>Bit 3 of the key information says that a message belongs to the pairwise handshake.\<close>

definition is_pairwise :: "nat \<Rightarrow> bool" where
  "is_pairwise info = bit info 3"

definition tx_result :: "completion \<Rightarrow> (sta_error, unit) ending" where
  "tx_result c = (case c of Some True \<Rightarrow> Done () | Some False \<Rightarrow> Failed AckTimeout | None \<Rightarrow> Failed TxCompletionLost)"

text \<open>A group message takes a packet number of the pairwise key and is protected with it.\<close>

definition take_packet_number :: "crypto_state \<Rightarrow> (u64 \<times> nat) \<times> crypto_state" where
  "take_packet_number cs =
     (let sa = security_associations cs; (pn, k) = next_packet_number (ptksa sa)
      in ((pn, key_slot (ptk_key_slot cs)), cs\<lparr>security_associations := sa\<lparr>ptksa := k\<rparr>\<rparr>))"

definition transmit_op :: "sta_frame \<Rightarrow> ('c, 'k, 'fl, 'q, 'g, unit) sta_op" where
  "transmit_op f = update_op (transmit_frame f)"

definition reserve_packet_number :: "('c, 'k, 'fl, 'q, 'g, u64 \<times> nat) sta_op" where
  "reserve_packet_number w =
     (case map_crypto_state take_packet_number w of
        (None, w1) \<Rightarrow> Some (Failed GroupKeyHandshakeFailure, w1)
      | (Some r, w1) \<Rightarrow> Some (Done r, w1))"

definition send_eapol_key_frame ::
  "('c, 'm, 'k, 'fl, 'q, 'g) sta_env \<Rightarrow> mac_address \<Rightarrow> mac_address \<Rightarrow> eapol_out \<Rightarrow> completion \<Rightarrow>
     ('c, 'k, 'fl, 'q, 'g, unit) sta_op" where
  "send_eapol_key_frame e bss_id own out c =
     (let (buf, written) = e_serialize_eapol e bss_id own out
      in if is_pairwise (eo_key_information out)
         then bind_op (transmit_op (EapolFrame bss_id own out None (take written buf))) (\<lambda>_. end_op (tx_result c))
         else bind_op reserve_packet_number (\<lambda>(pn, slot).
                case protect_eapol (e_parse e) (e_encode_ccmp e) (e_max_pn e) buf written pn of
                  None \<Rightarrow> end_op (Failed GroupKeyHandshakeFailure)
                | Some (buf', len) \<Rightarrow>
                    bind_op (transmit_op (EapolFrame bss_id own out (Some (pn, slot)) (take len buf')))
                      (\<lambda>_. end_op (tx_result c))))"

definition message_2_out :: "bytes \<Rightarrow> bytes \<Rightarrow> u64 \<Rightarrow> eapol_out" where
  "message_2_out kck nonce counter =
     \<lparr>eo_key_information = 0x010a, eo_key_length = 16, eo_replay_counter = counter, eo_nonce = nonce,
      eo_rsn_element = True, eo_kck = kck\<rparr>"

definition message_4_out :: "bytes \<Rightarrow> bytes \<Rightarrow> u64 \<Rightarrow> eapol_out" where
  "message_4_out kck nonce counter =
     \<lparr>eo_key_information = 0x030a, eo_key_length = 16, eo_replay_counter = counter, eo_nonce = nonce,
      eo_rsn_element = False, eo_kck = kck\<rparr>"

definition group_message_2_out :: "bytes \<Rightarrow> u64 \<Rightarrow> eapol_out" where
  "group_message_2_out kck counter =
     \<lparr>eo_key_information = 0x0302, eo_key_length = 0, eo_replay_counter = counter, eo_nonce = replicate 32 0,
      eo_rsn_element = False, eo_kck = kck\<rparr>"

definition send_message_2 ::
  "('c, 'm, 'k, 'fl, 'q, 'g) sta_env \<Rightarrow> mac_address \<Rightarrow> mac_address \<Rightarrow> bytes \<Rightarrow> bytes \<Rightarrow> u64 \<Rightarrow> completion \<Rightarrow>
     ('c, 'k, 'fl, 'q, 'g, unit) sta_op" where
  "send_message_2 e bss_id own kck nonce counter =
     send_eapol_key_frame e bss_id own (message_2_out kck nonce counter)"

definition send_message_4 ::
  "('c, 'm, 'k, 'fl, 'q, 'g) sta_env \<Rightarrow> mac_address \<Rightarrow> mac_address \<Rightarrow> bytes \<Rightarrow> bytes \<Rightarrow> u64 \<Rightarrow> completion \<Rightarrow>
     ('c, 'k, 'fl, 'q, 'g, unit) sta_op" where
  "send_message_4 e bss_id own kck nonce counter =
     send_eapol_key_frame e bss_id own (message_4_out kck nonce counter)"

definition send_group_message_2 ::
  "('c, 'm, 'k, 'fl, 'q, 'g) sta_env \<Rightarrow> mac_address \<Rightarrow> mac_address \<Rightarrow> bytes \<Rightarrow> u64 \<Rightarrow> completion \<Rightarrow>
     ('c, 'k, 'fl, 'q, 'g, unit) sta_op" where
  "send_group_message_2 e bss_id own kck counter =
     send_eapol_key_frame e bss_id own (group_message_2_out kck counter)"

text \<open>The request for a new group key, of the builds with the handshake recorder.\<close>

definition group_request_out :: "bytes \<Rightarrow> u64 \<Rightarrow> eapol_out" where
  "group_request_out kck counter =
     \<lparr>eo_key_information = 0x0b02, eo_key_length = 0, eo_replay_counter = counter, eo_nonce = replicate 32 0,
      eo_rsn_element = False, eo_kck = kck\<rparr>"

definition send_group_request ::
  "('c, 'm, 'k, 'fl, 'q, 'g) sta_env \<Rightarrow> mac_address \<Rightarrow> mac_address \<Rightarrow> bytes \<Rightarrow> u64 \<Rightarrow> completion \<Rightarrow>
     ('c, 'k, 'fl, 'q, 'g, unit) sta_op" where
  "send_group_request e bss_id own kck counter =
     send_eapol_key_frame e bss_id own (group_request_out kck counter)"

section \<open>The four-way handshake\<close>

text \<open>No timeout ends the wait for message 1.\<close>

fun process_message_1 ::
  "data_parser \<Rightarrow> mac_address \<Rightarrow> mac_address \<Rightarrow> bytes list \<Rightarrow> ('c, 'k, 'fl, 'q, 'g, initial_handshake) sta_op" where
  "process_message_1 parse own bss_id [] w = None"
| "process_message_1 parse own bss_id (f # fs) w =
     (case from_message_1 parse f own bss_id of
        Some h \<Rightarrow> Some (Done h, w)
      | None \<Rightarrow> process_message_1 parse own bss_id fs w)"

text \<open>Every frame comes with the completion of the message 2 that may answer it.\<close>

fun process_message_3 ::
  "('c, 'm, 'k, 'fl, 'q, 'g) sta_env \<Rightarrow> mac_address \<Rightarrow> mac_address \<Rightarrow> bytes \<Rightarrow> bytes \<Rightarrow> bytes \<Rightarrow> nat \<Rightarrow>
     (bytes \<times> completion) list \<Rightarrow> initial_handshake \<Rightarrow> ('c, 'k, 'fl, 'q, 'g, tksa \<times> initial_handshake) sta_op" where
  "process_message_3 e own bss_id kck kek nonce scratch [] h w = None"
| "process_message_3 e own bss_id kck kek nonce scratch ((f, c) # fs) h w =
     (case message_1_retry (e_parse e) f own bss_id h of
        Some (counter, h') \<Rightarrow>
          bind_op (send_message_2 e bss_id own kck nonce counter c)
            (\<lambda>_. process_message_3 e own bss_id kck kek nonce scratch fs h') w
      | None \<Rightarrow>
          (case message_3 (e_parse e) (e_decode e) f scratch kck kek own bss_id h of
             Some (key, h') \<Rightarrow> Some (Done (TKSA_new (m3_gtk key) (m3_gtk_id key), h'), w)
           | None \<Rightarrow> process_message_3 e own bss_id kck kek nonce scratch fs h w))"

text \<open>The security associations of a completed handshake; the key ID indexes an array of four.\<close>

definition new_security_associations :: "tksa \<Rightarrow> tksa \<Rightarrow> (sta_error, security_associations) ending" where
  "new_security_associations ptk gtk =
     (if unat (tk_key_id gtk) < 4
      then Done \<lparr>ptksa = ptk, group_keys = (replicate 4 None)[unat (tk_key_id gtk) := Some gtk],
                 active_group_id = tk_key_id gtk, akm_suite = Psk, sa_cipher_suite = Ccmp128\<rparr>
      else Panicked (Panic ''index out of bounds''))"

text \<open>The key confirmation and encryption keys are converted to arrays of sixteen bytes.\<close>

definition derive_keys ::
  "('c, 'm, 'k, 'fl, 'q, 'g) sta_env \<Rightarrow> bytes \<Rightarrow> mac_address \<Rightarrow> mac_address \<Rightarrow> bytes \<Rightarrow> bytes \<Rightarrow>
     (sta_error, tksa \<times> bytes \<times> bytes) ending" where
  "derive_keys e pmk_key bss_id own anonce nonce =
     (let ptk = TKSA_new (e_derive_ptk e pmk_key bss_id own anonce nonce) 0
      in case e_partition e (tk_key ptk) Psk Ccmp128 of
           None \<Rightarrow> Panicked (Panic ''called Option::unwrap() on a None value'')
         | Some (kck, kek, _) \<Rightarrow>
             if length kck = 16 \<and> length kek = 16 then Done (ptk, kck, kek)
             else Panicked (Panic ''called Result::unwrap() on an Err value''))"

text \<open>The transition of the router operation, which the code expects to succeed.\<close>

definition sta_transition ::
  "('c, 'm, 'k, 'fl, 'q, 'g) sta_env \<Rightarrow> sta_operation \<Rightarrow> ('c, 'k, 'fl, 'q, 'g, unit) sta_op" where
  "sta_transition e op w =
     (case transition sta_router_ops (e_signal e) Foreground op (router w) of
        Inl p \<Rightarrow> Some (Panicked p, w)
      | Inr (True, r) \<Rightarrow> Some (Done (), w\<lparr>router := r\<rparr>)
      | Inr (False, r) \<Rightarrow> Some (Panicked (Panic ''This should not fail''), w\<lparr>router := r\<rparr>))"

definition do_4whs ::
  "('c, 'm, 'k, 'fl, 'q, 'g) sta_env \<Rightarrow> bytes \<Rightarrow> mac_address \<Rightarrow> mac_address \<Rightarrow> nat \<Rightarrow> air \<Rightarrow>
     ('c, 'k, 'fl, 'q, 'g, security_associations \<times> message3_replay) sta_op" where
  "do_4whs e pmk_key bss_id own scratch a =
     bind_op (sta_transition e (CryptoHandshake own)) (\<lambda>_.
     bind_op (process_message_1 (e_parse e) own bss_id (m1_air a)) (\<lambda>h.
     bind_op (end_op (derive_keys e pmk_key bss_id own (hs_nonce h) (snonce a))) (\<lambda>(ptk, kck, kek).
     bind_op (send_message_2 e bss_id own kck (snonce a) (hs_counter h) (m2_done a)) (\<lambda>_.
     bind_op (process_message_3 e own bss_id kck kek (snonce a) scratch (m3_air a) h) (\<lambda>(gtk, h').
     bind_op (send_message_4 e bss_id own kck (snonce a) (hs_counter h') (m4_done a)) (\<lambda>_.
     bind_op (end_op (new_security_associations ptk gtk)) (\<lambda>sa.
       end_op (Done (sa, Message3Replay_new (hs_nonce h) (snonce a) (hs_counter h'))))))))))"

section \<open>Authentication and association\<close>

text \<open>
  The attempts of one request, numbered from \<open>i\<close>. The result of a transmission is not looked at;
  a lost completion ends the step.
\<close>

fun connection_attempts ::
  "(bytes \<Rightarrow> generic_frame option) \<Rightarrow> sta_operation \<Rightarrow> sta_frame \<Rightarrow> (nat \<Rightarrow> attempt) \<Rightarrow> nat \<Rightarrow> nat \<Rightarrow>
     ('c, 'k, 'fl, 'q, 'g, bytes) sta_op" where
  "connection_attempts generic op f a 0 i w = Some (Failed ResponseTimeout, w)"
| "connection_attempts generic op f a (Suc n) i w =
     (let w1 = transmit_frame f w
      in case at_completion (a i) of
           None \<Rightarrow> Some (Failed ResponseTimeout, w1)
         | Some _ \<Rightarrow>
             (case receive_connection_response generic op (at_frames (a i)) of
                Some r \<Rightarrow> Some (Done r, w1)
              | None \<Rightarrow> connection_attempts generic op f a n (Suc i) w1))"

definition router_guard_operation :: "('c, 'k, 'fl, 'q, 'g, sta_operation) sta_op" where
  "router_guard_operation =
     get_op (\<lambda>w. case scoped_operation Foreground (router w) of Inl p \<Rightarrow> Panicked p | Inr op \<Rightarrow> Done op)"

definition do_bidirectional_connection_step ::
  "('c, 'm, 'k, 'fl, 'q, 'g) sta_env \<Rightarrow> connection_config \<Rightarrow> sta_frame \<Rightarrow> (nat \<Rightarrow> attempt) \<Rightarrow>
     ('c, 'k, 'fl, 'q, 'g, bytes) sta_op" where
  "do_bidirectional_connection_step e cfg f a =
     bind_op router_guard_operation (\<lambda>op.
       connection_attempts (e_generic e) op f a (handshake_retries cfg + 1) 0)"

definition do_auth ::
  "('c, 'm, 'k, 'fl, 'q, 'g) sta_env \<Rightarrow> connection_parameters \<Rightarrow> bss \<Rightarrow> air \<Rightarrow> ('c, 'k, 'fl, 'q, 'g, unit) sta_op" where
  "do_auth e cp b a =
     bind_op (do_bidirectional_connection_step e (cp_config cp) (AuthRequest (bssid b) (cp_own_address cp)) (auth_air a))
       (\<lambda>response. end_op
          (case e_parse_auth e response of
             None \<Rightarrow> Failed FrameDeserializationFailed
           | Some Success \<Rightarrow> Done ()
           | Some s \<Rightarrow> Failed (AuthenticationFailure s)))"

definition do_assoc ::
  "('c, 'm, 'k, 'fl, 'q, 'g) sta_env \<Rightarrow> connection_parameters \<Rightarrow> bss \<Rightarrow> air \<Rightarrow> ('c, 'k, 'fl, 'q, 'g, nat) sta_op" where
  "do_assoc e cp b a =
     bind_op (sta_transition e (Associating (cp_own_address cp))) (\<lambda>_.
     bind_op (end_op (if e_ssid_fits e (ssid b) then Done () else Failed InvalidBss)) (\<lambda>_.
     bind_op (do_bidirectional_connection_step e (cp_config cp)
                (AssocRequest (bssid b) (cp_own_address cp) (ssid b) (security_config b \<noteq> Open)) (assoc_air a))
       (\<lambda>response. end_op
          (case e_parse_assoc e response of
             None \<Rightarrow> Failed FrameDeserializationFailed
           | Some (Some i, Success) \<Rightarrow> Done i
           | Some (_, s) \<Rightarrow> Failed (AssociationFailure s)))))"

section \<open>The connection operation\<close>

text \<open>The guards a running attempt holds: the key slots it acquired.\<close>

definition drop_key_slots ::
  "('c, 'm, 'k, 'fl, 'q, 'g) sta_env \<Rightarrow> key_slot_guard list \<Rightarrow> 'k key_hw \<Rightarrow> 'k key_hw" where
  "drop_key_slots e gs hw = fold (KeySlot_drop (e_bits e) (e_crypto e)) gs hw"

definition ConnectionOperation_drop ::
  "('c, 'm, 'k, 'fl, 'q, 'g) sta_env \<Rightarrow> ('c, 'k, 'fl, 'q, 'g) sta_tx_rx \<Rightarrow> ('c, 'k, 'fl, 'q, 'g) sta_tx_rx" where
  "ConnectionOperation_drop e w = clear_filter e BssidBank (clear_filter e ReceiverAddress w)"

text \<open>Leaving a started attempt early drops the key slots, the router operation, the bringup
  operation and the connection operation itself.\<close>

definition connection_abort ::
  "('c, 'm, 'k, 'fl, 'q, 'g) sta_env \<Rightarrow> key_slot_guard list \<Rightarrow> ('c, 'k, 'fl, 'q, 'g) sta_tx_rx \<Rightarrow>
     ('c, 'k, 'fl, 'q, 'g) sta_tx_rx" where
  "connection_abort e gs w =
     ConnectionOperation_drop e
       (w\<lparr>key_hw := drop_key_slots e gs (key_hw w),
          router := scoped_operation_drop (e_signal e) Foreground (router w),
          lmac := InterfaceBringupOperation_drop (e_interfaces e) (e_iface e) (lmac w)\<rparr>)"

text \<open>
  The start of an attempt, up to the first frame on the air. It waits for the other endpoint to
  end its operation, and for an off-channel operation to complete: \<open>watch\<close> is what the watch of
  completed operations answers. An attempt that waits has not returned yet.
\<close>

definition begin_bringup ::
  "('c, 'm, 'k, 'fl, 'q, 'g) sta_env \<Rightarrow> bss \<Rightarrow> ('c, 'k, 'fl, 'q, 'g, unit) sta_op" where
  "begin_bringup e b w =
     (case begin_interface_bringup_operation (e_interfaces e) (e_radio e) (e_iface e) (channel b) (lmac w) of
        (Inl err, cs) \<Rightarrow> Some (Failed (LMacError err), ConnectionOperation_drop e (w\<lparr>lmac := cs\<rparr>))
      | (Inr _, cs) \<Rightarrow> Some (Done (), w\<lparr>lmac := cs\<rparr>))"

definition start_router_operation ::
  "('c, 'm, 'k, 'fl, 'q, 'g) sta_env \<Rightarrow> mac_address \<Rightarrow> unit poll \<Rightarrow> ('c, 'k, 'fl, 'q, 'g, unit) sta_op" where
  "start_router_operation e own watch w =
     (case start_operation sta_router_ops (e_signal e) Foreground (Authenticating own) (router w) of
        (Pending, _) \<Rightarrow> None
      | (Ready _, r) \<Rightarrow>
          (case wait_for_off_channel_completion (\<lambda>_. watch) (lmac w) () of
             Pending \<Rightarrow> None
           | Ready _ \<Rightarrow> Some (Done (), w\<lparr>router := r\<rparr>)))"

definition acquire_slots ::
  "('c, 'm, 'k, 'fl, 'q, 'g) sta_env \<Rightarrow> 'k key_hw \<Rightarrow> key_slot_guard option list \<times> 'k key_hw" where
  "acquire_slots e hw = acquire_n (acquire_key_slot_guard (e_bits e) (e_key_slots e) (e_iface e)) 5 hw"

definition guards :: "key_slot_guard option list \<Rightarrow> key_slot_guard list" where
  "guards slots = [g. Some g \<leftarrow> slots]"

text \<open>The PMK and the slots of a protected network with credentials; a failure drops what was
  acquired.\<close>

definition prepare_keys ::
  "('c, 'm, 'k, 'fl, 'q, 'g) sta_env \<Rightarrow> connection_parameters \<Rightarrow> bss \<Rightarrow>
     ('c, 'k, 'fl, 'q, 'g, (bytes \<times> key_slot_guard list) option) sta_op" where
  "prepare_keys e cp b w =
     (case cp_credentials cp of
        Some c \<Rightarrow>
          if security_config b \<noteq> Open
          then (let (slots, hw) = acquire_slots e (key_hw w);
                    gs = guards slots;
                    w1 = w\<lparr>key_hw := hw\<rparr>
                in case pmk (e_derive_psk e) c 32 (ssid b) of
                     None \<Rightarrow> Some (Failed InvalidPskLength, connection_abort e gs w1)
                   | Some k \<Rightarrow>
                       if None \<in> set slots then Some (Failed NoKeySlotsAvailable, connection_abort e gs w1)
                       else Some (Done (Some (k, gs)), w1))
          else Some (Done None, w)
      | None \<Rightarrow> Some (Done None, w))"

definition configure_rx_filters ::
  "('c, 'm, 'k, 'fl, 'q, 'g) sta_env \<Rightarrow> mac_address \<Rightarrow> bss \<Rightarrow> ('c, 'k, 'fl, 'q, 'g) sta_tx_rx \<Rightarrow>
     ('c, 'k, 'fl, 'q, 'g) sta_tx_rx" where
  "configure_rx_filters e own b w = set_filter e BssidBank (bssid b) (set_filter e ReceiverAddress own w)"

definition connection_prepare ::
  "('c, 'm, 'k, 'fl, 'q, 'g) sta_env \<Rightarrow> connection_parameters \<Rightarrow> bss \<Rightarrow> unit poll \<Rightarrow>
     ('c, 'k, 'fl, 'q, 'g, (bytes \<times> key_slot_guard list) option) sta_op" where
  "connection_prepare e cp b watch =
     bind_op (begin_bringup e b) (\<lambda>_.
     bind_op (start_router_operation e (cp_own_address cp) watch) (\<lambda>_.
     bind_op (prepare_keys e cp b) (\<lambda>keys.
     bind_op (update_op (configure_rx_filters e (cp_own_address cp) b)) (\<lambda>_.
       end_op (Done keys)))))"

text \<open>Installing the keys replaces an old crypto state, whose slots are dropped.\<close>

definition install_crypto_state ::
  "('c, 'm, 'k, 'fl, 'q, 'g) sta_env \<Rightarrow> bss \<Rightarrow> key_slot_guard list \<Rightarrow> security_associations \<Rightarrow> message3_replay \<Rightarrow>
     ('c, 'k, 'fl, 'q, 'g, unit) sta_op" where
  "install_crypto_state e b gs sa m3r w =
     (case CryptoState_new (e_crypto e) (e_partition e) (take 4 gs) (gs ! 4) (bssid b) sa m3r (key_hw w) of
        Inl p \<Rightarrow> Some (Panicked p, w)
      | Inr (cs, hw) \<Rightarrow>
          Some (Done (),
            w\<lparr>crypto := Some cs,
              key_hw := (case crypto w of
                           None \<Rightarrow> hw
                         | Some old \<Rightarrow> drop_key_slots e (gtk_key_slots old @ [ptk_key_slot old]) hw)\<rparr>))"

definition connection_exchange ::
  "('c, 'm, 'k, 'fl, 'q, 'g) sta_env \<Rightarrow> connection_parameters \<Rightarrow> bss \<Rightarrow> nat \<Rightarrow> air \<Rightarrow>
     (bytes \<times> key_slot_guard list) option \<Rightarrow> ('c, 'k, 'fl, 'q, 'g, nat \<times> (security_associations \<times> message3_replay) option) sta_op" where
  "connection_exchange e cp b scratch a keys =
     bind_op (do_auth e cp b a) (\<lambda>_.
     bind_op (do_assoc e cp b a) (\<lambda>i.
       case keys of
         None \<Rightarrow> end_op (Done (i, None))
       | Some (pmk_key, gs) \<Rightarrow>
           bind_op (do_4whs e pmk_key (bssid b) (cp_own_address cp) scratch a) (\<lambda>ks. end_op (Done (i, Some ks)))))"

definition held_guards :: "(bytes \<times> key_slot_guard list) option \<Rightarrow> key_slot_guard list" where
  "held_guards keys = (case keys of None \<Rightarrow> [] | Some (_, gs) \<Rightarrow> gs)"

text \<open>A failed exchange drops all guards; a completed one keeps the lock, the filters and the keys.\<close>

definition connection_finish ::
  "('c, 'm, 'k, 'fl, 'q, 'g) sta_env \<Rightarrow> connection_parameters \<Rightarrow> bss \<Rightarrow> nat \<Rightarrow> air \<Rightarrow>
     (bytes \<times> key_slot_guard list) option \<Rightarrow> ('c, 'k, 'fl, 'q, 'g, nat) sta_op" where
  "connection_finish e cp b scratch a keys w =
     (case connection_exchange e cp b scratch a keys w of
        None \<Rightarrow> None
      | Some (Panicked p, w1) \<Rightarrow> Some (Panicked p, w1)
      | Some (Failed err, w1) \<Rightarrow> Some (Failed err, connection_abort e (held_guards keys) w1)
      | Some (Done (i, installed), w1) \<Rightarrow>
          bind_op
            (case (keys, installed) of
               (Some (_, gs), Some (sa, m3r)) \<Rightarrow> install_crypto_state e b gs sa m3r
             | _ \<Rightarrow> end_op (Done ()))
            (\<lambda>_. bind_op (update_op (\<lambda>w. w\<lparr>router := scoped_operation_drop (e_signal e) Foreground (router w),
                       lmac := InterfaceBringupOperation_complete (e_iface e) (lmac w)\<rparr>))
                   (\<lambda>_. end_op (Done i))) w1)"

definition connection_run ::
  "('c, 'm, 'k, 'fl, 'q, 'g) sta_env \<Rightarrow> connection_parameters \<Rightarrow> bss \<Rightarrow> nat \<Rightarrow> air \<Rightarrow> ('c, 'k, 'fl, 'q, 'g, nat) sta_op" where
  "connection_run e cp b scratch a = bind_op (connection_prepare e cp b (watch_air a)) (connection_finish e cp b scratch a)"

section \<open>What the exchange with the access point leaves alone\<close>

text \<open>Everything but the router and the frames sent so far.\<close>

definition station_core where
  "station_core w = (lmac w, key_hw w, filters w, connection_state w, crypto w, phy_rate w)"

lemma station_core_simps [simp]:
  "station_core (transmit_frame f w) = station_core w"
  "station_core (w\<lparr>router := r\<rparr>) = station_core w"
  by (simp_all add: station_core_def transmit_frame_def)

lemma transmit_frame_router [simp]: "router (transmit_frame f w) = router w"
  by (simp add: transmit_frame_def)

lemma keeps_transmit [keeps_intros]:
  "keeps station_core (transmit_op f)" "keeps router (transmit_op f)"
  by (auto simp: transmit_op_def intro!: keeps_intros)

text \<open>A pairwise message goes out in the clear and takes no packet number.\<close>

lemma pairwise_messages [simp]:
  "is_pairwise (eo_key_information (message_2_out kck n c))" "is_pairwise (eo_key_information (message_4_out kck n c))"
  "\<not> is_pairwise (eo_key_information (group_message_2_out kck c))"
  by (simp_all add: is_pairwise_def message_2_out_def message_4_out_def group_message_2_out_def bit_numeral_rec)

definition clear_eapol where
  "clear_eapol e bss_id own out =
     EapolFrame bss_id own out None (let (buf, written) = e_serialize_eapol e bss_id own out in take written buf)"

lemma send_pairwise:
  "is_pairwise (eo_key_information out) \<Longrightarrow>
   send_eapol_key_frame e bss_id own out c =
     bind_op (transmit_op (clear_eapol e bss_id own out)) (\<lambda>_. end_op (tx_result c))"
  by (simp add: send_eapol_key_frame_def clear_eapol_def split: prod.splits)

lemma keeps_messages [keeps_intros]:
  "keeps station_core (send_message_2 e bss_id own kck n k c)" "keeps router (send_message_2 e bss_id own kck n k c)"
  "keeps station_core (send_message_4 e bss_id own kck n k c)" "keeps router (send_message_4 e bss_id own kck n k c)"
  by (auto simp: send_message_2_def send_message_4_def send_pairwise intro!: keeps_intros)

lemma process_message_1_Done:
  "process_message_1 parse own bss_id fs w = Some (x, w') \<Longrightarrow>
   w' = w \<and> (\<exists>f h. f \<in> set fs \<and> from_message_1 parse f own bss_id = Some h \<and> x = Done h)"
  by (induction fs) (auto split: option.splits)

lemma keeps_process_message_1 [keeps_intros]: "keeps part (process_message_1 parse own bss_id fs)"
  by (rule keepsI) (auto dest: process_message_1_Done)

lemma keeps_process_message_3:
  assumes "\<And>k c. keeps part (send_message_2 e bss_id own kck n k c)"
  shows "keeps part (process_message_3 e own bss_id kck kek n scratch fs h)"
proof (induction fs arbitrary: h)
  case Nil
  then show ?case by (simp add: keeps_def)
next
  case (Cons fc fs)
  obtain f c where fc: "fc = (f, c)" by (cases fc)
  have retry: "keeps part (bind_op (send_message_2 e bss_id own kck n k c)
      (\<lambda>_. process_message_3 e own bss_id kck kek n scratch fs h'))" for k h'
    by (intro keeps_intros assms Cons.IH)
  show ?case
    using keepsD [OF retry] keepsD [OF Cons.IH]
    by (intro keepsI) (fastforce simp: fc split: option.splits prod.splits)
qed

lemma keeps_transition [keeps_intros]: "keeps station_core (sta_transition e op)"
  by (rule keepsI) (auto simp: sta_transition_def split: sum.splits bool.splits prod.splits if_splits)

lemma keeps_do_4whs [keeps_intros]: "keeps station_core (do_4whs e pmk_key bss_id own scratch a)"
  unfolding do_4whs_def
  by (intro keeps_intros keeps_process_message_3 | simp add: split_beta)+

lemma connection_attempts_sent:
  "connection_attempts generic op f a n i w = Some (x, w') \<Longrightarrow>
   \<exists>k \<le> n. w' = w\<lparr>sent := sent w @ replicate k f\<rparr> \<and> (0 < n \<longrightarrow> 0 < k) \<and>
     (\<forall>j < k - 1. receive_connection_response generic op (at_frames (a (i + j))) = None) \<and>
     (case x of
        Done r \<Rightarrow> 0 < k \<and> receive_connection_response generic op (at_frames (a (i + k - 1))) = Some r
      | Failed err \<Rightarrow> err = ResponseTimeout \<and>
          (\<forall>j < k. at_completion (a (i + j)) = None \<or>
             receive_connection_response generic op (at_frames (a (i + j))) = None) \<and>
          (k < n \<longrightarrow> 0 < k \<and> at_completion (a (i + k - 1)) = None)
      | Panicked p \<Rightarrow> False)"
proof (induction n arbitrary: i w)
  case 0
  then show ?case by auto
next
  case (Suc n)
  let ?r = "receive_connection_response generic op (at_frames (a i))"
  show ?case
  proof (cases "at_completion (a i) = None \<or> ?r \<noteq> None")
    case True
    then show ?thesis using Suc.prems
      by (intro exI [of _ 1]) (auto simp: transmit_frame_def Let_def split: option.splits)
  next
    case False
    then have "connection_attempts generic op f a n (Suc i) (transmit_frame f w) = Some (x, w')" and r: "?r = None"
      using Suc.prems by (auto simp: Let_def)
    then obtain k where k: "k \<le> n" "w' = (transmit_frame f w)\<lparr>sent := sent (transmit_frame f w) @ replicate k f\<rparr>"
      "0 < n \<longrightarrow> 0 < k"
      "\<forall>j < k - 1. receive_connection_response generic op (at_frames (a (Suc i + j))) = None"
      "case x of
        Done r \<Rightarrow> 0 < k \<and> receive_connection_response generic op (at_frames (a (Suc i + k - 1))) = Some r
      | Failed err \<Rightarrow> err = ResponseTimeout \<and>
          (\<forall>j < k. at_completion (a (Suc i + j)) = None \<or>
             receive_connection_response generic op (at_frames (a (Suc i + j))) = None) \<and>
          (k < n \<longrightarrow> 0 < k \<and> at_completion (a (Suc i + k - 1)) = None)
      | Panicked p \<Rightarrow> False"
      using Suc.IH [of "Suc i" "transmit_frame f w"] by blast
    have "\<forall>j < Suc k - 1. receive_connection_response generic op (at_frames (a (i + j))) = None"
    proof (intro allI impI)
      fix j assume "j < Suc k - 1"
      then show "receive_connection_response generic op (at_frames (a (i + j))) = None"
        using r k(4) by (cases j) auto
    qed
    then show ?thesis using k(1,2,3,5) r
      by (intro exI [of _ "Suc k"]) (auto simp: transmit_frame_def All_less_Suc2 split: ending.splits)
  qed
qed

lemma keeps_attempts [keeps_intros]:
  "keeps station_core (connection_attempts generic op f a n i)" "keeps router (connection_attempts generic op f a n i)"
  by (rule keepsI, drule connection_attempts_sent, auto simp: station_core_def)+

lemma keeps_step [keeps_intros]:
  "keeps station_core (do_bidirectional_connection_step e cfg f a)" "keeps router (do_bidirectional_connection_step e cfg f a)"
  unfolding do_bidirectional_connection_step_def router_guard_operation_def by (intro keeps_intros)+

lemma keeps_auth [keeps_intros]: "keeps station_core (do_auth e cp b a)" "keeps router (do_auth e cp b a)"
  unfolding do_auth_def by (intro keeps_intros)+

lemma keeps_assoc [keeps_intros]: "keeps station_core (do_assoc e cp b a)"
  unfolding do_assoc_def by (intro keeps_intros)

lemma keeps_exchange: "keeps station_core (connection_exchange e cp b scratch a keys)"
  unfolding connection_exchange_def
  by (cases keys) (simp_all add: split_beta, (intro keeps_intros)+)

section \<open>The handshake\<close>

lemma message_1_retry_Some:
  "message_1_retry parse f own bss_id h = Some (c, h') \<Longrightarrow>
   hs_nonce h' = hs_nonce h \<and> hs_counter h' = c \<and> hs_counter h \<le> c"
  by (auto simp: message_1_retry_def not_less split: option.splits if_splits)

lemma message_3_Some:
  "message_3 parse decode f scratch kck kek own bss_id h = Some (key, h') \<Longrightarrow>
   decrypt_message_3 parse decode f scratch kck kek own bss_id = Some key \<and> m3_nonce key = hs_nonce h \<and>
   hs_counter h < m3_counter key \<and> hs_nonce h' = hs_nonce h \<and> hs_counter h' = m3_counter key"
  by (auto simp: message_3_def not_le split: option.splits if_splits)

lemma send_pairwise_Done:
  "is_pairwise (eo_key_information out) \<Longrightarrow>
   send_eapol_key_frame e bss_id own out c w = Some (Done r, w') \<longleftrightarrow>
   c = Some True \<and> w' = transmit_frame (clear_eapol e bss_id own out) w"
  by (auto simp: send_pairwise transmit_op_def tx_result_def split: option.splits bool.splits)

lemma process_message_3_Done:
  "process_message_3 e own bss_id kck kek n scratch fs h w = Some (Done (gtk, h'), w') \<Longrightarrow>
   \<exists>f h1 key ks. f \<in> fst ` set fs \<and>
     message_3 (e_parse e) (e_decode e) f scratch kck kek own bss_id h1 = Some (key, h') \<and>
     gtk = TKSA_new (m3_gtk key) (m3_gtk_id key) \<and> hs_nonce h1 = hs_nonce h \<and>
     w' = w\<lparr>sent := sent w @ map (\<lambda>k. clear_eapol e bss_id own (message_2_out kck n k)) ks\<rparr> \<and>
     sorted (hs_counter h # ks) \<and> last (hs_counter h # ks) = hs_counter h1"
proof (induction fs arbitrary: h w)
  case Nil
  then show ?case by simp
next
  case (Cons fc fs)
  obtain f c where fc: "fc = (f, c)" by (cases fc)
  let ?m2 = "\<lambda>k. clear_eapol e bss_id own (message_2_out kck n k)"
  show ?case
  proof (cases "message_1_retry (e_parse e) f own bss_id h")
    case None
    show ?thesis
    proof (cases "message_3 (e_parse e) (e_decode e) f scratch kck kek own bss_id h")
      case none3: None
      then have "process_message_3 e own bss_id kck kek n scratch fs h w = Some (Done (gtk, h'), w')"
        using Cons.prems None fc by simp
      then show ?thesis
        by (rule Cons.IH [THEN ex_forward]) (elim ex_forward conj_forward, auto)
    next
      case (Some kh)
      then show ?thesis using Cons.prems None fc
        by (intro exI [of _ f] exI [of _ h] exI [of _ "fst kh"] exI [of _ "[]"]) (auto split: prod.splits)
    qed
  next
    case (Some ch)
    obtain k h2 where ch: "ch = (k, h2)" by (cases ch)
    note R = message_1_retry_Some [OF Some [unfolded ch]]
    have "process_message_3 e own bss_id kck kek n scratch fs h2 (transmit_frame (?m2 k) w) = Some (Done (gtk, h'), w')"
      using Cons.prems Some ch fc by (auto simp: send_message_2_def send_pairwise_Done)
    from Cons.IH [OF this] obtain f1 h1 key ks where K: "f1 \<in> fst ` set fs"
      "message_3 (e_parse e) (e_decode e) f1 scratch kck kek own bss_id h1 = Some (key, h')"
      "gtk = TKSA_new (m3_gtk key) (m3_gtk_id key)" "hs_nonce h1 = hs_nonce h2"
      "w' = (transmit_frame (?m2 k) w)\<lparr>sent := sent (transmit_frame (?m2 k) w) @ map ?m2 ks\<rparr>"
      "sorted (hs_counter h2 # ks)" "last (hs_counter h2 # ks) = hs_counter h1"
      by (elim exE conjE)
    have "sorted (hs_counter h # k # ks)" using K(6) R by (simp only: sorted2)
    moreover have "f1 \<in> fst ` set (fc # fs)" "last (hs_counter h # k # ks) = hs_counter h1"
      using K(1,7) R by auto
    moreover have "w' = w\<lparr>sent := sent w @ map ?m2 (k # ks)\<rparr>" using K(5) by (simp add: transmit_frame_def)
    ultimately show ?thesis using K(2,3,4) R by metis
  qed
qed

lemma derive_keys_Done:
  "derive_keys e pmk_key bss_id own anonce nonce = Done (ptk, kck, kek) \<Longrightarrow>
   ptk = TKSA_new (e_derive_ptk e pmk_key bss_id own anonce nonce) 0 \<and>
   (\<exists>t. e_partition e (tk_key ptk) Psk Ccmp128 = Some (kck, kek, t))"
  by (auto simp: derive_keys_def Let_def split: option.splits if_splits)

lemma new_security_associations_Done:
  "new_security_associations ptk gtk = Done sa \<Longrightarrow>
   ptksa sa = ptk \<and> unat (tk_key_id gtk) < 4 \<and> active_group_id sa = tk_key_id gtk \<and>
   group_keys sa = (replicate 4 None)[unat (tk_key_id gtk) := Some gtk]"
  by (auto simp: new_security_associations_def split: if_splits)

lemma sta_transition_Done:
  "sta_transition e op w = Some (Done r, w') \<Longrightarrow>
   \<exists>q. w' = w\<lparr>router := q\<rparr> \<and> router_operation Foreground q = Some op \<and>
     router_operation Background q = router_operation Background (router w)"
  by (auto simp: sta_transition_def router_step_defs split: sum.splits option.splits bool.splits if_splits)

section \<open>Key slots of an attempt\<close>

lemma acquire_key_slot_guard_Some:
  assumes "bit_macros bm" "K \<le> 32" "acquire_key_slot_guard bm K iface hw = Some (g, hw')"
  shows "key_slot g < K" "key_slot g \<notin> slots_held K hw" "slots_held K hw' = insert (key_slot g) (slots_held K hw)"
    and "crypto_controller hw' = crypto_controller hw"
proof -
  obtain i where i: "acquire_key_slot bm K hw = Some (i, hw')" "guard_slot g = of_nat i"
    using assms(3) by (auto simp: acquire_key_slot_guard_def split: option.splits)
  note A = acquire_key_slot_Some [OF assms(1,2) i(1)]
  have "key_slot g = i" using i(2) A(1) assms(2) by (simp add: key_slot_def unat_of_nat)
  then show "key_slot g < K" "key_slot g \<notin> slots_held K hw" "slots_held K hw' = insert (key_slot g) (slots_held K hw)"
    "crypto_controller hw' = crypto_controller hw"
    using A by simp_all
qed

lemma guards_simps [simp]: "guards [] = []" "guards (None # xs) = guards xs" "guards (Some g # xs) = g # guards xs"
  by (simp_all add: guards_def)

lemma length_guards: "None \<notin> set slots \<Longrightarrow> length (guards slots) = length slots"
proof (induction slots)
  case (Cons x xs)
  then show ?case by (cases x) auto
qed simp

lemma length_acquire_n: "acquire_n acq n s = (hs, s') \<Longrightarrow> length hs = n"
  by (induction n arbitrary: s hs) (auto split: option.splits prod.splits)

lemma acquire_guards:
  assumes "bit_macros bm" "K \<le> 32"
  shows "acquire_n (acquire_key_slot_guard bm K iface) n hw = (slots, hw') \<Longrightarrow>
     distinct (map key_slot (guards slots)) \<and> key_slot ` set (guards slots) \<subseteq> {..<K} - slots_held K hw \<and>
     slots_held K hw' = slots_held K hw \<union> key_slot ` set (guards slots) \<and> crypto_controller hw' = crypto_controller hw"
proof (induction n arbitrary: hw slots)
  case 0
  then show ?case by simp
next
  case (Suc n)
  show ?case
  proof (cases "acquire_key_slot_guard bm K iface hw")
    case None
    then obtain xs where "acquire_n (acquire_key_slot_guard bm K iface) n hw = (xs, hw')" "slots = None # xs"
      using Suc.prems by (auto split: prod.splits)
    then show ?thesis using Suc.IH [of hw xs] by simp
  next
    case (Some gh)
    obtain g h where gh: "gh = (g, h)" by (cases gh)
    note A = acquire_key_slot_guard_Some [OF assms Some [unfolded gh]]
    obtain xs where xs: "acquire_n (acquire_key_slot_guard bm K iface) n h = (xs, hw')" "slots = Some g # xs"
      using Suc.prems Some gh by (auto split: prod.splits)
    then show ?thesis using Suc.IH [OF xs(1)] A by auto
  qed
qed

text \<open>Enough free slots make every acquisition succeed.\<close>

lemma acquire_guards_all:
  assumes "bit_macros bm" "K \<le> 32"
  shows "card (slots_held K hw) + n \<le> K \<Longrightarrow> acquire_n (acquire_key_slot_guard bm K iface) n hw = (slots, hw') \<Longrightarrow>
     None \<notin> set slots"
proof (induction n arbitrary: hw slots)
  case 0
  then show ?case by simp
next
  case (Suc n)
  have fin: "finite (slots_held K hw)" by (simp add: slots_held_def)
  have "slots_held K hw \<noteq> {..<K}" using Suc.prems(1) by (metis card_lessThan add_Suc_right not_less_eq_eq le_add1)
  then have "acquire_key_slot bm K hw \<noteq> None" using acquire_key_slot_None [OF assms] by blast
  then obtain g h where gh: "acquire_key_slot_guard bm K iface hw = Some (g, h)"
    by (auto simp: acquire_key_slot_guard_def)
  note A = acquire_key_slot_guard_Some [OF assms gh]
  obtain xs where xs: "acquire_n (acquire_key_slot_guard bm K iface) n h = (xs, hw')" "slots = Some g # xs"
    using Suc.prems gh by (auto split: prod.splits)
  have "card (slots_held K h) + n \<le> K" using A Suc.prems(1) fin by simp
  then show ?case using Suc.IH [OF _ xs(1)] xs(2) by simp
qed

lemma drop_key_slots_effect:
  assumes "bit_macros (e_bits e)" "crypto_laws installed (e_crypto e)" "K \<le> 32"
  shows "key_slot ` set gs \<subseteq> {..<K} \<Longrightarrow>
     slots_held K (drop_key_slots e gs hw) = slots_held K hw - key_slot ` set gs \<and>
     installed (crypto_controller (drop_key_slots e gs hw)) = installed (crypto_controller hw) - key_slot ` set gs"
proof (induction gs arbitrary: hw)
  case Nil
  then show ?case by (simp add: drop_key_slots_def)
next
  case (Cons g gs)
  then have g: "key_slot g < K" by simp
  have "drop_key_slots e (g # gs) hw = drop_key_slots e gs (KeySlot_drop (e_bits e) (e_crypto e) g hw)"
    by (simp add: drop_key_slots_def)
  then show ?case
    using Cons KeySlot_drop_effect [OF assms g, of hw] by auto
qed

section \<open>Start and end of an attempt\<close>

text \<open>What the station relies on of the code below it.\<close>

definition sta_env_ok where
  "sta_env_ok valid current view installed e \<longleftrightarrow>
     channel_driver valid current (e_radio e) \<and> filter_laws view (e_filters e) \<and> bit_macros (e_bits e) \<and>
     crypto_laws installed (e_crypto e) \<and> e_key_slots e \<le> 32 \<and> e_iface e < e_interfaces e"

lemma sta_env_okD:
  assumes "sta_env_ok valid current view installed e"
  shows "channel_driver valid current (e_radio e)" "filter_laws view (e_filters e)" "bit_macros (e_bits e)"
    "crypto_laws installed (e_crypto e)" "e_key_slots e \<le> 32" "e_iface e < e_interfaces e"
  using assms by (simp_all add: sta_env_ok_def)

lemma holds_lock_update [simp]:
  "holds_lock j (cs\<lparr>locks := Some lk\<rparr>) = fst lk ! j" "holds_lock j (cs\<lparr>channel_controller := c\<rparr>) = holds_lock j cs"
  "home_channel (cs\<lparr>locks := Some lk\<rparr>) = Some (snd lk)" "home_channel (cs\<lparr>channel_controller := c\<rparr>) = home_channel cs"
  by (cases lk; simp add: holds_lock_def home_channel_def)+

text \<open>The locks after an attempt to take one: the others hold what they held.\<close>

lemma lock_channel_effect:
  assumes cd: "channel_driver valid current ro" and ok: "locks_ok I (locks cs)" and i: "i < I"
    and lock: "lock_channel I ro i ch cs = (r, cs')"
  shows "locks_ok I (locks cs') \<and> (\<forall>j<I. j \<noteq> i \<longrightarrow> holds_lock j cs' = holds_lock j cs) \<and>
     off_channel_operation_interface cs' = off_channel_operation_interface cs \<and>
     (r = Inr () \<longrightarrow> holds_lock i cs' \<and> home_channel cs' = Some ch) \<and>
     (r = Inl ChannelLockedByOtherInterface \<longrightarrow> cs' = cs)"
proof -
  have D: "locks_ok I (Some lk) \<and> snd lk = ch \<and> fst lk ! i \<and>
      (\<forall>j<I. j \<noteq> i \<longrightarrow> fst lk ! j = holds_lock j cs)"
    if "lock_decision I i ch (locks cs) = Inr (changed, lk)" for changed lk
    using lock_decision_ok [OF ok i that] by (simp add: holds_lock_def)
  from cd lock show ?thesis
  proof (cases rule: lock_channel_cases)
    case (refused e)
    then show ?thesis using ok by simp
  next
    case (same lk)
    then show ?thesis using D [OF same(1)] by simp
  next
    case (tuned lk c)
    then show ?thesis using D [OF tuned(1)] by simp
  next
    case (invalid lk c)
    then show ?thesis using D [OF invalid(1)] by simp
  qed
qed

lemma begin_bringup_lock:
  "begin_bringup e b w = Some (x, w') \<Longrightarrow>
   \<exists>r cs. lock_channel (e_interfaces e) (e_radio e) (e_iface e) (channel b) (lmac w) = (r, cs) \<and>
     (case r of
        Inl k \<Rightarrow> x = Failed (LMacError k) \<and> w' = ConnectionOperation_drop e (w\<lparr>lmac := cs\<rparr>)
      | Inr _ \<Rightarrow> x = Done () \<and> w' = w\<lparr>lmac := cs\<rparr>)"
  by (cases "lock_channel (e_interfaces e) (e_radio e) (e_iface e) (channel b) (lmac w)")
    (auto simp: begin_bringup_def begin_interface_bringup_operation_def lock_channel_def
      split: sum.splits prod.splits)

lemma ConnectionOperation_drop_filters:
  assumes "filter_laws view (e_filters e)"
  shows "view (filters (ConnectionOperation_drop e w)) = (\<lambda>_. None)"
proof
  fix bank
  show "view (filters (ConnectionOperation_drop e w)) bank = None"
    using assms by (cases bank) (simp_all add: ConnectionOperation_drop_def clear_filter_def filter_laws_def)
qed

lemma ConnectionOperation_drop_fields [simp]:
  "lmac (ConnectionOperation_drop e w) = lmac w" "key_hw (ConnectionOperation_drop e w) = key_hw w"
  "router (ConnectionOperation_drop e w) = router w" "crypto (ConnectionOperation_drop e w) = crypto w"
  "connection_state (ConnectionOperation_drop e w) = connection_state w" "sent (ConnectionOperation_drop e w) = sent w"
  "phy_rate (ConnectionOperation_drop e w) = phy_rate w"
  by (simp_all add: ConnectionOperation_drop_def clear_filter_def)

text \<open>What an attempt that failed leaves of the state \<open>w\<close> it started in.\<close>

definition attempt_undone where
  "attempt_undone view e w w' \<longleftrightarrow>
     locks_ok (e_interfaces e) (locks (lmac w')) \<and>
     (\<forall>j < e_interfaces e. j \<noteq> e_iface e \<longrightarrow> holds_lock j (lmac w') = holds_lock j (lmac w)) \<and>
     view (filters w') = (\<lambda>_. None) \<and>
     router_operation Foreground (router w') = None \<and>
     slots_held (e_key_slots e) (key_hw w') = slots_held (e_key_slots e) (key_hw w) \<and>
     crypto w' = crypto w \<and> connection_state w' = connection_state w \<and> phy_rate w' = phy_rate w"

lemma connection_abort_undone:
  assumes env: "sta_env_ok valid current view installed e" and ok: "locks_ok (e_interfaces e) (locks (lmac w1))"
    and others: "\<forall>j < e_interfaces e. j \<noteq> e_iface e \<longrightarrow> holds_lock j (lmac w1) = holds_lock j (lmac w)"
    and slots: "key_slot ` set gs \<subseteq> {..<e_key_slots e} - slots_held (e_key_slots e) (key_hw w)"
      "slots_held (e_key_slots e) (key_hw w1) = slots_held (e_key_slots e) (key_hw w) \<union> key_slot ` set gs"
    and rest: "crypto w1 = crypto w" "connection_state w1 = connection_state w" "phy_rate w1 = phy_rate w"
  shows "attempt_undone view e w (connection_abort e gs w1) \<and> \<not> holds_lock (e_iface e) (lmac (connection_abort e gs w1))"
proof -
  note E = sta_env_okD [OF env]
  have "slots_held (e_key_slots e) (drop_key_slots e gs (key_hw w1)) = slots_held (e_key_slots e) (key_hw w)"
    using drop_key_slots_effect [OF E(3,4,5), of gs "key_hw w1"] slots by auto
  moreover have "holds_lock j (InterfaceBringupOperation_drop (e_interfaces e) (e_iface e) (lmac w1)) \<longleftrightarrow>
      j \<noteq> e_iface e \<and> holds_lock j (lmac w1)" if "j < e_interfaces e" for j
    using unlock_channel_locks(2) [OF ok E(6) that]
    by (simp add: InterfaceBringupOperation_drop_def unlock_channel_internal_def)
  moreover have "locks_ok (e_interfaces e) (locks (InterfaceBringupOperation_drop (e_interfaces e) (e_iface e) (lmac w1)))"
    using unlock_channel_locks(1) [OF ok E(6)]
    by (simp add: InterfaceBringupOperation_drop_def unlock_channel_internal_def)
  ultimately show ?thesis using others rest E(6)
    by (simp add: attempt_undone_def connection_abort_def ConnectionOperation_drop_filters [OF E(2)]
        router_step_defs)
qed

text \<open>What a prepared attempt holds, next to the key slots \<open>gs\<close>.\<close>

definition attempt_ready where
  "attempt_ready view e cp b gs w w' \<longleftrightarrow>
     locks_ok (e_interfaces e) (locks (lmac w')) \<and> holds_lock (e_iface e) (lmac w') \<and>
     home_channel (lmac w') = Some (channel b) \<and>
     (\<forall>j < e_interfaces e. j \<noteq> e_iface e \<longrightarrow> holds_lock j (lmac w') = holds_lock j (lmac w)) \<and>
     view (filters w') = [ReceiverAddress \<mapsto> cp_own_address cp, BssidBank \<mapsto> bssid b] \<and>
     distinct (map key_slot gs) \<and> key_slot ` set gs \<subseteq> {..<e_key_slots e} - slots_held (e_key_slots e) (key_hw w) \<and>
     slots_held (e_key_slots e) (key_hw w') = slots_held (e_key_slots e) (key_hw w) \<union> key_slot ` set gs \<and>
     crypto w' = crypto w \<and> connection_state w' = connection_state w \<and> phy_rate w' = phy_rate w"

definition protected_attempt where
  "protected_attempt cp b \<longleftrightarrow> cp_credentials cp \<noteq> None \<and> security_config b \<noteq> Open"

lemma held_guards_simps [simp]: "held_guards None = []" "held_guards (Some (k, gs)) = gs"
  by (simp_all add: held_guards_def)

text \<open>The state of an attempt between the first lock and the filters.\<close>

definition attempt_started where
  "attempt_started e b gs w w' \<longleftrightarrow>
     locks_ok (e_interfaces e) (locks (lmac w')) \<and> holds_lock (e_iface e) (lmac w') \<and>
     home_channel (lmac w') = Some (channel b) \<and>
     (\<forall>j < e_interfaces e. j \<noteq> e_iface e \<longrightarrow> holds_lock j (lmac w') = holds_lock j (lmac w)) \<and>
     distinct (map key_slot gs) \<and> key_slot ` set gs \<subseteq> {..<e_key_slots e} - slots_held (e_key_slots e) (key_hw w) \<and>
     slots_held (e_key_slots e) (key_hw w') = slots_held (e_key_slots e) (key_hw w) \<union> key_slot ` set gs \<and>
     crypto w' = crypto w \<and> connection_state w' = connection_state w \<and> phy_rate w' = phy_rate w"

lemma attempt_ready_started: "attempt_ready view e cp b gs w w' \<Longrightarrow> attempt_started e b gs w w'"
  by (simp add: attempt_ready_def attempt_started_def)

lemma connection_abort_started:
  "sta_env_ok valid current view installed e \<Longrightarrow> attempt_started e b gs w w1 \<Longrightarrow>
   attempt_undone view e w (connection_abort e gs w1) \<and> \<not> holds_lock (e_iface e) (lmac (connection_abort e gs w1))"
  by (rule connection_abort_undone) (simp_all add: attempt_started_def)

lemma prepare_keys_outcome:
  assumes env: "sta_env_ok valid current view installed e" and start: "attempt_started e b [] w w1"
    and run: "prepare_keys e cp b w1 = Some (x, w2)"
  shows "(\<exists>err. x = Failed err \<and> attempt_undone view e w w2 \<and> \<not> holds_lock (e_iface e) (lmac w2)) \<or>
     (\<exists>keys. x = Done keys \<and> attempt_started e b (held_guards keys) w w2 \<and> router w2 = router w1 \<and>
        (keys \<noteq> None \<longleftrightarrow> protected_attempt cp b) \<and> (keys \<noteq> None \<longrightarrow> length (held_guards keys) = 5))"
proof (cases "protected_attempt cp b")
  case False
  then show ?thesis using run start
    by (cases "cp_credentials cp") (auto simp: prepare_keys_def protected_attempt_def)
next
  case True
  then obtain c where c: "cp_credentials cp = Some c" "security_config b \<noteq> Open"
    by (auto simp: protected_attempt_def)
  obtain slots hw where A: "acquire_slots e (key_hw w1) = (slots, hw)" by fastforce
  let ?gs = "guards slots" and ?w = "w1\<lparr>key_hw := hw\<rparr>"
  note G = acquire_guards [OF sta_env_okD(3,5) [OF env] A [unfolded acquire_slots_def]]
  have st: "attempt_started e b ?gs w ?w" using start G by (auto simp: attempt_started_def)
  have "None \<notin> set slots \<Longrightarrow> length ?gs = 5"
    using length_guards length_acquire_n [OF A [unfolded acquire_slots_def]] by metis
  then show ?thesis
    using run c A connection_abort_started [OF env st] st True
    by (cases "pmk (e_derive_psk e) c 32 (ssid b)") (auto simp: prepare_keys_def Let_def split: if_splits)
qed

lemma configure_rx_filters_ready:
  assumes "sta_env_ok valid current view installed e" "attempt_started e b gs w w1"
  shows "attempt_ready view e cp b gs w (configure_rx_filters e (cp_own_address cp) b w1)"
proof -
  have "view (filters (configure_rx_filters e (cp_own_address cp) b w1)) bank =
      [ReceiverAddress \<mapsto> cp_own_address cp, BssidBank \<mapsto> bssid b] bank" for bank
    using sta_env_okD(2) [OF assms(1)]
    by (cases bank) (simp_all add: configure_rx_filters_def set_filter_def filter_laws_def)
  then show ?thesis using assms(2)
    by (auto simp: attempt_ready_def attempt_started_def configure_rx_filters_def set_filter_def)
qed

lemma start_router_operation_Some:
  "start_router_operation e own watch w = Some (x, w') \<Longrightarrow>
   x = Done () \<and> (\<exists>q. w' = w\<lparr>router := q\<rparr> \<and> router_operation Foreground q = Some (Authenticating own) \<and>
     router_operation Background q = router_operation Background (router w))"
  by (auto simp: start_router_operation_def router_step_defs split: sum.splits option.splits poll.splits if_splits prod.splits)

lemma connection_prepare_outcome:
  assumes env: "sta_env_ok valid current view installed e" and ok: "locks_ok (e_interfaces e) (locks (lmac w))"
    and free: "router_operation Foreground (router w) = None"
    and run: "connection_prepare e cp b watch w = Some (x, w')"
  shows "(\<exists>err. x = Failed err \<and> attempt_undone view e w w' \<and>
        ((\<forall>k. err \<noteq> LMacError k) \<longrightarrow> \<not> holds_lock (e_iface e) (lmac w'))) \<or>
     (\<exists>keys. x = Done keys \<and> attempt_ready view e cp b (held_guards keys) w w' \<and>
        (keys \<noteq> None \<longleftrightarrow> protected_attempt cp b) \<and> (keys \<noteq> None \<longrightarrow> length (held_guards keys) = 5))"
proof -
  note E = sta_env_okD [OF env]
  obtain x1 w1 where B: "begin_bringup e b w = Some (x1, w1)"
    using run by (cases "begin_bringup e b w") (auto simp: connection_prepare_def bind_op_def)
  obtain r cs where L: "lock_channel (e_interfaces e) (e_radio e) (e_iface e) (channel b) (lmac w) = (r, cs)"
    "case r of Inl k \<Rightarrow> x1 = Failed (LMacError k) \<and> w1 = ConnectionOperation_drop e (w\<lparr>lmac := cs\<rparr>)
      | Inr _ \<Rightarrow> x1 = Done () \<and> w1 = w\<lparr>lmac := cs\<rparr>"
    using begin_bringup_lock [OF B] by blast
  note LE = lock_channel_effect [OF E(1) ok E(6) L(1)]
  show ?thesis
  proof (cases r)
    case (Inl k)
    then have "x = Failed (LMacError k)" "w' = w1" "w1 = ConnectionOperation_drop e (w\<lparr>lmac := cs\<rparr>)"
      using L(2) B run by (auto simp: connection_prepare_def bind_op_def)
    then show ?thesis using LE free
      by (simp add: attempt_undone_def ConnectionOperation_drop_filters [OF E(2)])
  next
    case (Inr u)
    then have w1: "x1 = Done ()" "w1 = w\<lparr>lmac := cs\<rparr>" using L(2) by simp_all
    then obtain x2 w2 where S: "start_router_operation e (cp_own_address cp) watch w1 = Some (x2, w2)"
      using run B by (cases "start_router_operation e (cp_own_address cp) watch w1")
        (auto simp: connection_prepare_def bind_op_def)
    then obtain q where q: "x2 = Done ()" "w2 = w1\<lparr>router := q\<rparr>"
      using start_router_operation_Some by blast
    have st: "attempt_started e b [] w w2" using LE Inr w1 q by (simp add: attempt_started_def)
    obtain x3 w3 where P: "prepare_keys e cp b w2 = Some (x3, w3)"
      using run B S w1 q by (cases "prepare_keys e cp b w2") (auto simp: connection_prepare_def bind_op_def)
    from prepare_keys_outcome [OF env st P] show ?thesis
    proof (elim disjE exE conjE)
      fix err
      assume "x3 = Failed err" "attempt_undone view e w w3" "\<not> holds_lock (e_iface e) (lmac w3)"
      moreover from this have "x = Failed err" "w' = w3"
        using run B S P w1 q by (auto simp: connection_prepare_def bind_op_def)
      ultimately show ?thesis by simp
    next
      fix keys
      assume K: "x3 = Done keys" "attempt_started e b (held_guards keys) w w3"
        "(keys \<noteq> None) = protected_attempt cp b" "keys \<noteq> None \<longrightarrow> length (held_guards keys) = 5"
      then have "x = Done keys" "w' = configure_rx_filters e (cp_own_address cp) b w3"
        using run B S P w1 q by (auto simp: connection_prepare_def bind_op_def update_op_def end_op_def)
      then show ?thesis using K configure_rx_filters_ready [OF env K(2)] by blast
    qed
  qed
qed

lemma attempt_ready_core:
  "station_core w2 = station_core w1 \<Longrightarrow> attempt_ready view e cp b gs w w1 \<Longrightarrow> attempt_ready view e cp b gs w w2"
  by (simp add: attempt_ready_def station_core_def)

lemma connection_exchange_Done:
  assumes "connection_exchange e cp b scratch a keys w = Some (Done (i, inst), w')"
  shows "(inst \<noteq> None \<longleftrightarrow> keys \<noteq> None) \<and>
     (\<forall>ks. inst = Some ks \<longrightarrow>
        (\<exists>k w1 w2. do_4whs e k (bssid b) (cp_own_address cp) scratch a w1 = Some (Done ks, w2)))"
  using assms by (cases keys) (auto simp: connection_exchange_def, blast)

text \<open>The results of a completed handshake and the frames it sent.\<close>

lemma do_4whs_Done:
  assumes "do_4whs e pmk_key bss_id own scratch a w = Some (Done (sa, m3r), w')"
  obtains f1 h f3 key ks kck kek t where "f1 \<in> set (m1_air a)" "from_message_1 (e_parse e) f1 own bss_id = Some h"
    "ptksa sa = TKSA_new (e_derive_ptk e pmk_key bss_id own (hs_nonce h) (snonce a)) 0"
    "e_partition e (tk_key (ptksa sa)) Psk Ccmp128 = Some (kck, kek, t)"
    "f3 \<in> fst ` set (m3_air a)" "decrypt_message_3 (e_parse e) (e_decode e) f3 scratch kck kek own bss_id = Some key"
    "m3_nonce key = hs_nonce h" "unat (m3_gtk_id key) < 4" "active_group_id sa = m3_gtk_id key"
    "group_keys sa = (replicate 4 None)[unat (m3_gtk_id key) := Some (TKSA_new (m3_gtk key) (m3_gtk_id key))]"
    "m3r = Message3Replay_new (hs_nonce h) (snonce a) (m3_counter key)"
    "sent w' = sent w @ map (\<lambda>k. clear_eapol e bss_id own (message_2_out kck (snonce a) k)) (hs_counter h # ks) @
       [clear_eapol e bss_id own (message_4_out kck (snonce a) (m3_counter key))]"
    "sorted (hs_counter h # ks)" "last (hs_counter h # ks) < m3_counter key"
proof -
  let ?m2 = "\<lambda>kck k. clear_eapol e bss_id own (message_2_out kck (snonce a) k)"
  obtain w1 h w2 ptk kck kek w4 gtk h' w5 where S: "sta_transition e (CryptoHandshake own) w = Some (Done (), w1)"
      "process_message_1 (e_parse e) own bss_id (m1_air a) w1 = Some (Done h, w2)"
      "derive_keys e pmk_key bss_id own (hs_nonce h) (snonce a) = Done (ptk, kck, kek)"
      "w4 = transmit_frame (?m2 kck (hs_counter h)) w2"
      "process_message_3 e own bss_id kck kek (snonce a) scratch (m3_air a) h w4 = Some (Done (gtk, h'), w5)"
      "new_security_associations ptk gtk = Done sa" "m3r = Message3Replay_new (hs_nonce h) (snonce a) (hs_counter h')"
      "w' = transmit_frame (clear_eapol e bss_id own (message_4_out kck (snonce a) (hs_counter h'))) w5"
    using assms unfolding do_4whs_def
    by (auto simp: send_message_2_def send_message_4_def send_pairwise_Done split_beta)
  obtain q where q: "w1 = w\<lparr>router := q\<rparr>" using sta_transition_Done [OF S(1)] by blast
  obtain f1 where f1: "w2 = w1" "f1 \<in> set (m1_air a)" "from_message_1 (e_parse e) f1 own bss_id = Some h"
    using process_message_1_Done [OF S(2)] by auto
  obtain f3 h1 key ks where M3: "f3 \<in> fst ` set (m3_air a)"
     "message_3 (e_parse e) (e_decode e) f3 scratch kck kek own bss_id h1 = Some (key, h')"
     "gtk = TKSA_new (m3_gtk key) (m3_gtk_id key)" "hs_nonce h1 = hs_nonce h"
     "w5 = w4\<lparr>sent := sent w4 @ map (?m2 kck) ks\<rparr>"
     "sorted (hs_counter h # ks)" "last (hs_counter h # ks) = hs_counter h1"
    using process_message_3_Done [OF S(5)] by (elim exE conjE)
  note K = message_3_Some [OF M3(2)]
  obtain t where t: "ptk = TKSA_new (e_derive_ptk e pmk_key bss_id own (hs_nonce h) (snonce a)) 0"
    "e_partition e (tk_key ptk) Psk Ccmp128 = Some (kck, kek, t)"
    using derive_keys_Done [OF S(3)] by blast
  note N = new_security_associations_Done [OF S(6)]
  have id: "tk_key_id gtk = m3_gtk_id key" using M3(3) by (simp add: TKSA_new_def)
  have "sent w' = sent w @ map (?m2 kck) (hs_counter h # ks) @
       [clear_eapol e bss_id own (message_4_out kck (snonce a) (m3_counter key))]"
    using S(4,8) q f1(1) M3(5) K by (simp add: transmit_frame_def)
  moreover have "last (hs_counter h # ks) < m3_counter key" using M3(7) K by (simp only:)
  ultimately show ?thesis
    using that [of f1 h kck kek t f3 key ks] f1 t N M3 K S(7) id by (simp only: simp_thms)
qed

section \<open>The keys of a connection\<close>

definition crypto_slots :: "crypto_state \<Rightarrow> key_slot_guard list" where
  "crypto_slots cs = gtk_key_slots cs @ [ptk_key_slot cs]"

text \<open>The hardware slots the connection owns.\<close>

definition owned_slots where
  "owned_slots w = (case crypto w of None \<Rightarrow> {} | Some cs \<Rightarrow> key_slot ` set (crypto_slots cs))"

lemma set_key_state: "set_key co g k a p hw = (ok, hw') \<Longrightarrow> key_slot_state hw' = key_slot_state hw"
  by (auto simp: set_key_def split: prod.splits)

lemma CryptoState_new_Inr:
  "CryptoState_new co pt gs p b sa m3r hw = Inr (cs, hw') \<Longrightarrow>
   cs = \<lparr>message3_replay = m3r, gtk_key_slots = gs, last_group_message = None, group_request_counter = 0, ptk_key_slot = p,
         security_associations = sa\<rparr> \<and> key_slot_state hw' = key_slot_state hw"
  by (auto simp: CryptoState_new_def program_pairwise_key_def program_group_key_def Let_def
      dest!: set_key_state split: sum.splits option.splits if_splits prod.splits bool.splits)

lemma slots_held_cong: "key_slot_state hw' = key_slot_state hw \<Longrightarrow> slots_held K hw' = slots_held K hw"
  by (simp add: slots_held_def)

lemma single_group_key_ok:
  assumes "unat i < 4"
  shows "keys_ok ((replicate 4 None)[unat i := Some (TKSA_new k i)])"
  by (rule keys_ok_update) (use assms in \<open>auto simp: keys_ok_def TKSA_new_def\<close>)

lemma do_4whs_crypto_ok:
  assumes "do_4whs e pmk_key bss_id own scratch a w = Some (Done (sa, m3r), w')" "security_associations cs = sa"
  shows "crypto_ok cs \<and> packet_number (ptksa sa) = 1 \<and> replay_counter (ptksa sa) = 0"
  using assms(1)
proof (cases rule: do_4whs_Done)
  case (1 f1 h f3 key ks kck kek t)
  then show ?thesis using assms(2) single_group_key_ok [of "m3_gtk_id key" "m3_gtk key"]
    by (simp add: crypto_ok_def group_key_def get_at_def TKSA_new_def)
qed

lemma take_4_nth: "length gs = 5 \<Longrightarrow> take 4 gs @ [gs ! 4] = gs"
  using take_Suc_conv_app_nth [of 4 gs] by simp

lemma install_crypto_state_Done:
  assumes env: "sta_env_ok valid current view installed e" and len: "length gs = 5"
    and old: "owned_slots w \<subseteq> slots_held (e_key_slots e) (key_hw w)"
    and run: "install_crypto_state e b gs sa m3r w = Some (Done r, w')"
  obtains cs where "crypto w' = Some cs" "security_associations cs = sa" "message3_replay cs = m3r"
    "crypto_slots cs = gs" "w' = w\<lparr>crypto := Some cs, key_hw := key_hw w'\<rparr>"
    "slots_held (e_key_slots e) (key_hw w') = slots_held (e_key_slots e) (key_hw w) - owned_slots w"
proof -
  let ?K = "e_key_slots e"
  note E = sta_env_okD [OF env]
  obtain cs hw where C: "CryptoState_new (e_crypto e) (e_partition e) (take 4 gs) (gs ! 4) (bssid b) sa m3r (key_hw w) = Inr (cs, hw)"
    and w': "w' = w\<lparr>crypto := Some cs, key_hw := (case crypto w of None \<Rightarrow> hw
               | Some old \<Rightarrow> drop_key_slots e (gtk_key_slots old @ [ptk_key_slot old]) hw)\<rparr>"
    using run by (auto simp: install_crypto_state_def split: sum.splits)
  note N = CryptoState_new_Inr [OF C]
  have held: "slots_held ?K hw = slots_held ?K (key_hw w)" using N slots_held_cong by blast
  have sub: "owned_slots w \<subseteq> {..<?K}" using old by (auto simp: slots_held_def)
  have "slots_held ?K (key_hw w') = slots_held ?K (key_hw w) - owned_slots w"
  proof (cases "crypto w")
    case None
    then show ?thesis using w' held by (simp add: owned_slots_def)
  next
    case (Some old)
    then have "key_slot ` set (crypto_slots old) \<subseteq> {..<?K}" using sub by (simp add: owned_slots_def)
    then show ?thesis using w' held Some drop_key_slots_effect [OF E(3,4,5), of "crypto_slots old" hw]
      by (simp add: owned_slots_def crypto_slots_def)
  qed
  then show ?thesis using that [of cs] w' N take_4_nth [OF len] by (simp add: crypto_slots_def)
qed

section \<open>Outcomes of a connection attempt\<close>

lemma connection_run_Failed:
  assumes env: "sta_env_ok valid current view installed e" and ok: "locks_ok (e_interfaces e) (locks (lmac w))"
    and free: "router_operation Foreground (router w) = None"
    and run: "connection_run e cp b scratch a w = Some (Failed err, w')"
  shows "attempt_undone view e w w' \<and> ((\<forall>k. err \<noteq> LMacError k) \<longrightarrow> \<not> holds_lock (e_iface e) (lmac w'))"
proof -
  obtain x w1 where P: "connection_prepare e cp b (watch_air a) w = Some (x, w1)"
    using run by (cases "connection_prepare e cp b (watch_air a) w") (auto simp: connection_run_def connection_finish_def bind_op_def)
  from connection_prepare_outcome [OF env ok free P] show ?thesis
  proof (elim disjE exE conjE)
    fix err'
    assume "x = Failed err'" "attempt_undone view e w w1"
      "(\<forall>k. err' \<noteq> LMacError k) \<longrightarrow> \<not> holds_lock (e_iface e) (lmac w1)"
    then show ?thesis using run P by (auto simp: connection_run_def connection_finish_def bind_op_def)
  next
    fix keys
    assume x: "x = Done keys" and R: "attempt_ready view e cp b (held_guards keys) w w1"
    obtain x2 w2 where X: "connection_exchange e cp b scratch a keys w1 = Some (x2, w2)"
      using run P x by (cases "connection_exchange e cp b scratch a keys w1") (auto simp: connection_run_def connection_finish_def bind_op_def)
    have R2: "attempt_ready view e cp b (held_guards keys) w w2"
      using attempt_ready_core [OF keepsD [OF keeps_exchange X] R] .
    have "x2 = Failed err \<and> w' = connection_abort e (held_guards keys) w2"
      using run P x X
      by (auto simp: connection_run_def connection_finish_def bind_op_def [of "connection_prepare e cp b (watch_air a)"] install_crypto_state_def
          split: ending.splits option.splits sum.splits prod.splits)
    then show ?thesis using connection_abort_started [OF env attempt_ready_started [OF R2]] by simp
  qed
qed

lemma connection_run_Done:
  assumes env: "sta_env_ok valid current view installed e" and ok: "locks_ok (e_interfaces e) (locks (lmac w))"
    and free: "router_operation Foreground (router w) = None"
    and own: "owned_slots w \<subseteq> slots_held (e_key_slots e) (key_hw w)"
    and run: "connection_run e cp b scratch a w = Some (Done i, w')"
  obtains (clear) w2 where "\<not> protected_attempt cp b" "attempt_ready view e cp b [] w w2"
      "w' = w2\<lparr>router := scoped_operation_drop (e_signal e) Foreground (router w2)\<rparr>"
    | (protected) gs sa m3r cs w2 k w3 w4 where "protected_attempt cp b" "attempt_ready view e cp b gs w w2"
      "do_4whs e k (bssid b) (cp_own_address cp) scratch a w3 = Some (Done (sa, m3r), w4)"
      "crypto w' = Some cs" "security_associations cs = sa" "message3_replay cs = m3r" "crypto_slots cs = gs" "length gs = 5"
      "w' = w2\<lparr>crypto := Some cs, key_hw := key_hw w', router := scoped_operation_drop (e_signal e) Foreground (router w2)\<rparr>"
      "slots_held (e_key_slots e) (key_hw w') = slots_held (e_key_slots e) (key_hw w2) - owned_slots w"
proof -
  obtain keys w1 where P: "connection_prepare e cp b (watch_air a) w = Some (Done keys, w1)"
    using run by (auto simp: connection_run_def connection_finish_def)
  have R: "attempt_ready view e cp b (held_guards keys) w w1" "(keys \<noteq> None) = protected_attempt cp b"
    "keys \<noteq> None \<longrightarrow> length (held_guards keys) = 5"
    using connection_prepare_outcome [OF env ok free P] by auto
  obtain inst w2 where X: "connection_exchange e cp b scratch a keys w1 = Some (Done (i, inst), w2)"
    using run P by (auto simp: connection_run_def connection_finish_def split: option.splits ending.splits prod.splits)
  note XD = connection_exchange_Done [OF X]
  have R2: "attempt_ready view e cp b (held_guards keys) w w2"
    using attempt_ready_core [OF keepsD [OF keeps_exchange X] R(1)] .
  show ?thesis
  proof (cases keys)
    case None
    then have "inst = None" using XD by (cases inst) auto
    then have "w' = w2\<lparr>router := scoped_operation_drop (e_signal e) Foreground (router w2)\<rparr>"
      using run P X None by (simp add: connection_run_def connection_finish_def InterfaceBringupOperation_complete_def)
    then show ?thesis using clear [of w2] R2 R(2) None by simp
  next
    case (Some pg)
    obtain k gs where pg: "pg = (k, gs)" by (cases pg)
    obtain sa m3r where inst: "inst = Some (sa, m3r)" using XD Some by (cases inst) auto
    obtain w5 where I: "install_crypto_state e b gs sa m3r w2 = Some (Done (), w5)"
      and w': "w' = w5\<lparr>router := scoped_operation_drop (e_signal e) Foreground (router w5)\<rparr>"
      using run P X Some pg inst by (auto simp: connection_run_def connection_finish_def InterfaceBringupOperation_complete_def)
    have len: "length gs = 5" using R(3) Some pg by simp
    have owned: "owned_slots w2 = owned_slots w" "owned_slots w2 \<subseteq> slots_held (e_key_slots e) (key_hw w2)"
      using R2 own by (auto simp: attempt_ready_def owned_slots_def)
    from env len owned(2) I show ?thesis
    proof (cases rule: install_crypto_state_Done)
      case (1 cs)
      then have "w' = w2\<lparr>crypto := Some cs, key_hw := key_hw w', router := scoped_operation_drop (e_signal e) Foreground (router w2)\<rparr>"
        using w' by (metis (no_types, lifting) sta_tx_rx.select_convs(2,4) sta_tx_rx.surjective sta_tx_rx.update_convs(2,4,6))
      then show ?thesis using protected [of gs w2 _ _ sa m3r _ cs] R R2 XD inst Some pg 1 w' owned(1) len by auto
    qed
  qed
qed

section \<open>Properties\<close>

text \<open>A station whose radio, key hardware and access point are plain functions, for the witnesses.\<close>

definition ccmp_slots :: "(nat set, ccmp_parameters) crypto_ops" where
  "ccmp_slots = \<lparr>driver_set_key = (\<lambda>i _ _ _ _ c. (True, insert i c)), driver_delete_key = (\<lambda>i c. (True, c - {i}))\<rparr>"

definition demo_m1 :: bytes where
  "demo_m1 = [2, 3, 0, 95, 2, 0, 0x8a, 0, 16] @ replicate 90 0"

definition demo_env :: "(u8, unit, nat set, filter_bank \<Rightarrow> mac_address option, bytes list, bool) sta_env" where
  "demo_env =
     \<lparr>e_interfaces = 2, e_iface = 0, e_radio = plain_radio, e_bits = shift_macros, e_key_slots = 6,
      e_crypto = ccmp_slots, e_filters = map_filters, e_queue = list_channel 4, e_signal = latch,
      e_generic = (\<lambda>f. Some \<lparr>gf_type = (if f = [1] then Management Authentication
        else if f = [2] then Management AssociationResponse else DataType 0), gf_address_1 = [1], gf_eapol_key = (f = demo_m1)\<rparr>),
      e_parse = demo_parse,
      e_decode = (\<lambda>_ _ _ _. Some \<lparr>key_replay_counter = 5, key_nonce = replicate 32 0, gtk_kde = Some (replicate 16 1, 1)\<rparr>),
      e_encode_ccmp = (\<lambda>_ _. None), e_max_pn = 0, e_serialize_eapol = (\<lambda>_ _ _. ([], 0)), e_ssid_fits = (\<lambda>_. True),
      e_parse_auth = (\<lambda>_. Some Success), e_parse_assoc = (\<lambda>_. Some (Some 1, Success)),
      e_partition = (\<lambda>_ _ _. Some (replicate 16 2, replicate 16 3, replicate 16 4)),
      e_derive_psk = (\<lambda>_ _ n. replicate n 7), e_derive_ptk = (\<lambda>_ _ _ _ _. replicate 48 9)\<rparr>"

definition demo_attempt :: "bytes \<Rightarrow> nat \<Rightarrow> attempt" where
  "demo_attempt f i = \<lparr>at_completion = Some True, at_frames = [[9], f]\<rparr>"

definition demo_air :: air where
  "demo_air = \<lparr>auth_air = demo_attempt [1], assoc_air = demo_attempt [2], snonce = [5], m1_air = [demo_m1],
     m2_done = Some True, m3_air = [(demo_m3, Some True)], m4_done = Some True, watch_air = Pending\<rparr>"

lemma demo_air_watch [simp]: "watch_air demo_air = Pending"
  by (simp add: demo_air_def)

definition demo_bss :: bss where
  "demo_bss = \<lparr>ssid = ''net'', channel = 6, bssid = [2], last_rssi = 0, security_config = Wpa2 True\<rparr>"

definition demo_parameters :: connection_parameters where
  "demo_parameters = \<lparr>cp_config = ConnectionConfig_default, cp_own_address = [1],
     cp_credentials = Some (Passphrase ''secret'')\<rparr>"

definition demo_station :: "(u8, nat set, filter_bank \<Rightarrow> mac_address option, bytes list, bool) sta_tx_rx" where
  "demo_station = StaResources_new demo_env (ChannelState_new 1) (KeySlotManager_new {}) (\<lambda>_. None)"

lemma demo_env_ok: "sta_env_ok {1, 6, 11} (\<lambda>c. c) (\<lambda>f. f) (\<lambda>c. c) demo_env"
  using plain_radio_ok shift_macros_ok
  by (simp add: sta_env_ok_def demo_env_def filter_laws_def map_filters_def crypto_laws_def ccmp_slots_def)

lemma demo_station_ok:
  "locks_ok (e_interfaces demo_env) (locks (lmac demo_station))" "router_operation Foreground (router demo_station) = None"
  "owned_slots demo_station \<subseteq> slots_held (e_key_slots demo_env) (key_hw demo_station)"
  by (simp_all add: demo_station_def StaResources_new_def ChannelState_new_def locks_ok_def owned_slots_def
      RxRouter_new_def QueueState_new_def router_operation_def queue_state_of_def)

lemma demo_message_1:
  "from_message_1 demo_parse demo_m1 [1] [2] = Some \<lparr>hs_nonce = replicate 32 0, hs_counter = 0\<rparr>"
proof -
  have "key_payload demo_parse demo_m1 [1] [2] = Some demo_m1" "key_information demo_m1 = 0x008a"
    by (simp_all add: key_payload_def key_envelope_def demo_parse_def slice_defs EAPOL_LLC_def demo_m1_def
        be16_def nth_append key_information_def)
  moreover have "take 32 (drop 17 demo_m1) = replicate 32 0" "take 8 (drop 9 demo_m1) = replicate 8 0"
    by (simp_all add: demo_m1_def)
  moreover have "from_be_bytes (replicate 8 0) = 0" by (simp add: from_be_bytes_def numeral_eq_Suc)
  ultimately show ?thesis by (simp add: from_message_1_def)
qed

lemma demo_message_3:
  "message_1_retry demo_parse demo_m3 [1] [2] \<lparr>hs_nonce = replicate 32 0, hs_counter = 0\<rparr> = None"
  "message_3 demo_parse (e_decode demo_env) demo_m3 64 (replicate 16 2) (replicate 16 3) [1] [2]
     \<lparr>hs_nonce = replicate 32 0, hs_counter = 0\<rparr> =
   Some (\<lparr>m3_nonce = replicate 32 0, m3_counter = 5, m3_gtk = replicate 16 1, m3_gtk_id = 1\<rparr>,
     \<lparr>hs_nonce = replicate 32 0, hs_counter = 5\<rparr>)"
proof -
  have k: "key_payload demo_parse demo_m3 [1] [2] = Some demo_m3" "key_information demo_m3 = 0x13ca" "length demo_m3 = 123"
    using demo_envelope by (simp_all add: key_payload_def demo_m3_def key_information_def be16_def)
  show "message_1_retry demo_parse demo_m3 [1] [2] \<lparr>hs_nonce = replicate 32 0, hs_counter = 0\<rparr> = None"
    using k by (simp add: message_1_retry_def from_message_1_def)
  show "message_3 demo_parse (e_decode demo_env) demo_m3 64 (replicate 16 2) (replicate 16 3) [1] [2]
     \<lparr>hs_nonce = replicate 32 0, hs_counter = 0\<rparr> =
   Some (\<lparr>m3_nonce = replicate 32 0, m3_counter = 5, m3_gtk = replicate 16 1, m3_gtk_id = 1\<rparr>,
     \<lparr>hs_nonce = replicate 32 0, hs_counter = 5\<rparr>)"
    using k by (simp add: message_3_def decrypt_message_3_def demo_env_def)
qed

lemma demo_4whs:
  assumes "router_operation Foreground (router w) = Some op" "router_operation Background (router w) = None"
  shows "\<exists>sa m3r w'. do_4whs demo_env k [2] [1] 64 demo_air w = Some (Done (sa, m3r), w')"
proof -
  have t: "\<exists>w'. sta_transition demo_env (CryptoHandshake [1]) w = Some (Done (), w')"
    using assms by (simp add: sta_transition_def router_step_defs)
  note env = demo_env_def [THEN arg_cong, of e_parse, simplified]
  have d: "derive_keys demo_env k [2] [1] n s = Done (TKSA_new (replicate 48 9) 0, replicate 16 2, replicate 16 3)" for n s
    by (simp add: derive_keys_def demo_env_def)
  have n: "\<exists>sa. new_security_associations p (TKSA_new g 1) = Done sa" for p g
    by (simp add: new_security_associations_def TKSA_new_def)
  show ?thesis using t n
    by (auto simp: do_4whs_def env demo_air_def demo_message_1 d demo_message_3 send_message_2_def send_message_4_def
        send_pairwise_Done)
qed

lemma demo_prepare:
  obtains keys w where "connection_prepare demo_env demo_parameters demo_bss Pending demo_station = Some (Done (Some keys), w)"
    "router_operation Foreground (router w) = Some (Authenticating [1])" "router_operation Background (router w) = None"
    "crypto w = None" "length (snd keys) = 5"
proof -
  let ?w1 = "demo_station\<lparr>lmac := \<lparr>locks = Some ([True, False], 6), off_channel_operation_interface = None, channel_controller = 6\<rparr>\<rparr>"
  have 1: "begin_bringup demo_env demo_bss demo_station = Some (Done (), ?w1)"
    using plain_radio_locked
    by (simp add: begin_bringup_def begin_interface_bringup_operation_def lock_channel_def demo_env_def demo_bss_def
        demo_station_def StaResources_new_def)
  obtain w2 where 2: "start_router_operation demo_env [1] Pending ?w1 = Some (Done (), w2)"
    "router_operation Foreground (router w2) = Some (Authenticating [1])"
    "router_operation Background (router w2) = None" "key_hw w2 = KeySlotManager_new {}" "crypto w2 = None"
    by (simp add: start_router_operation_def wait_for_off_channel_completion_def demo_station_def StaResources_new_def router_step_defs
        off_channel_operation_in_progress_def RxRouter_new_def QueueState_new_def router_operation_def queue_state_of_def
        set_operation_def set_queue_state_def)
  obtain slots hw where A: "acquire_slots demo_env (key_hw w2) = (slots, hw)" by fastforce
  have "slots_held 6 (key_hw w2) = {}" by (auto simp: 2 slots_held_def KeySlotManager_new_def)
  then have full: "None \<notin> set slots"
    using acquire_guards_all [OF shift_macros_ok _ _ A [unfolded acquire_slots_def demo_env_def, simplified]] by simp
  show ?thesis
    using that [of "(replicate 32 7, guards slots)" "configure_rx_filters demo_env [1] demo_bss (w2\<lparr>key_hw := hw\<rparr>)"] 1 2 A full
      length_guards [OF full] length_acquire_n [OF A [unfolded acquire_slots_def]]
    by (simp add: connection_prepare_def demo_parameters_def prepare_keys_def demo_bss_def pmk_def configure_rx_filters_def
        set_filter_def bind_op_def update_op_def end_op_def demo_env_def)
qed

lemma demo_step:
  assumes "router_operation Foreground (router w) = Some op"
    "(op, r) \<in> {(Authenticating [1], [1]), (Associating [1], [2])}"
  shows "do_bidirectional_connection_step demo_env ConnectionConfig_default f (demo_attempt r) w = Some (Done r, transmit_frame f w)"
proof -
  have "connection_attempts (e_generic demo_env) op f (demo_attempt r) (Suc n) 0 w = Some (Done r, transmit_frame f w)" for n
    using assms(2) by (auto simp: demo_attempt_def demo_env_def)
  then show ?thesis using assms(1)
    by (simp add: do_bidirectional_connection_step_def router_guard_operation_def scoped_operation_def
        del: connection_attempts.simps)
qed

lemma demo_names [simp]:
  "bssid demo_bss = [2]" "ssid demo_bss = ''net''" "security_config demo_bss = Wpa2 True"
  "cp_config demo_parameters = ConnectionConfig_default" "cp_own_address demo_parameters = [1]"
  "auth_air demo_air = demo_attempt [1]" "assoc_air demo_air = demo_attempt [2]"
  "e_ssid_fits demo_env n" "e_parse_auth demo_env f = Some Success" "e_parse_assoc demo_env f = Some (Some 1, Success)"
  by (simp_all add: demo_bss_def demo_parameters_def demo_air_def demo_env_def)

lemma demo_auth:
  "router_operation Foreground (router w) = Some (Authenticating [1]) \<Longrightarrow>
   do_auth demo_env demo_parameters demo_bss demo_air w = Some (Done (), transmit_frame (AuthRequest [2] [1]) w)"
  by (simp add: do_auth_def demo_step)

lemma demo_assoc:
  assumes "router_operation Foreground (router w) = Some op" "router_operation Background (router w) = None"
  shows "\<exists>w'. do_assoc demo_env demo_parameters demo_bss demo_air w = Some (Done 1, w') \<and>
     router_operation Foreground (router w') = Some (Associating [1]) \<and> router_operation Background (router w') = None"
proof -
  obtain w1 where w1: "sta_transition demo_env (Associating [1]) w = Some (Done (), w1)"
    using assms by (simp add: sta_transition_def router_step_defs)
  from sta_transition_Done [OF w1] assms w1 show ?thesis
    by (auto simp: do_assoc_def demo_step)
qed

lemma demo_exchange:
  assumes "router_operation Foreground (router w) = Some (Authenticating [1])" "router_operation Background (router w) = None"
  shows "\<exists>ks w'. connection_exchange demo_env demo_parameters demo_bss 64 demo_air (Some keys) w = Some (Done (1, Some ks), w')"
proof -
  let ?w1 = "transmit_frame (AuthRequest [2] [1]) w"
  obtain w2 where w2: "do_assoc demo_env demo_parameters demo_bss demo_air ?w1 = Some (Done 1, w2)"
    "router_operation Foreground (router w2) = Some (Associating [1])" "router_operation Background (router w2) = None"
    using demo_assoc [of ?w1] assms by auto
  obtain sa m3r w3 where w3: "do_4whs demo_env (fst keys) [2] [1] 64 demo_air w2 = Some (Done (sa, m3r), w3)"
    using demo_4whs [OF w2(2,3)] by blast
  show ?thesis using demo_auth [OF assms(1)] w2(1) w3
    by (auto simp: connection_exchange_def split_beta)
qed

lemma demo_install:
  assumes "unat (active_group_id sa) < 4" "crypto w = None"
    "group_keys sa = (replicate 4 None)[unat (active_group_id sa) := Some g]"
  shows "\<exists>w'. install_crypto_state demo_env demo_bss gs sa m3r w = Some (Done (), w')"
  using assms
  by (simp add: install_crypto_state_def CryptoState_new_def program_pairwise_key_def pairwise_temporal_key_def tk_def
      program_group_key_def group_key_def get_at_def set_key_def demo_env_def ccmp_slots_def Let_def)

lemma demo_run: "\<exists>w'. connection_run demo_env demo_parameters demo_bss 64 demo_air demo_station = Some (Done 1, w')"
proof (rule demo_prepare)
  fix keys w
  assume P: "connection_prepare demo_env demo_parameters demo_bss Pending demo_station = Some (Done (Some keys), w)"
    and op: "router_operation Foreground (router w) = Some (Authenticating [1])" "router_operation Background (router w) = None"
    and none: "crypto w = None"
  obtain sa m3r w1 where X:
    "connection_exchange demo_env demo_parameters demo_bss 64 demo_air (Some keys) w = Some (Done (1, Some (sa, m3r)), w1)"
    using demo_exchange [OF op] by fastforce
  obtain k w2 w3 where H: "do_4whs demo_env k (bssid demo_bss) (cp_own_address demo_parameters) 64 demo_air w2 = Some (Done (sa, m3r), w3)"
    using connection_exchange_Done [OF X] by blast
  have "crypto w1 = None" using keepsD [OF keeps_exchange X] none by (simp add: station_core_def)
  moreover from H have "\<exists>g. unat (active_group_id sa) < 4 \<and> group_keys sa = (replicate 4 None)[unat (active_group_id sa) := Some g]"
    by (cases rule: do_4whs_Done) auto
  ultimately obtain w4 where "install_crypto_state demo_env demo_bss (snd keys) sa m3r w1 = Some (Done (), w4)"
    using demo_install by blast
  then show ?thesis using P X by (cases keys) (auto simp: connection_run_def connection_finish_def)
qed


text \<open>An access point that never answers the authentication request.\<close>

definition silent_air :: air where
  "silent_air = demo_air\<lparr>auth_air := (\<lambda>_. \<lparr>at_completion = Some False, at_frames = []\<rparr>)\<rparr>"

lemma silent_air_watch: "watch_air silent_air = Pending"
  by (simp add: silent_air_def)

lemma silent_attempts: "\<exists>w'. connection_attempts g op f (auth_air silent_air) n i w = Some (Failed ResponseTimeout, w')"
  by (induction n arbitrary: i w) (auto simp: silent_air_def Let_def)

lemma silent_run:
  "\<exists>w'. connection_run demo_env demo_parameters demo_bss 64 silent_air demo_station = Some (Failed ResponseTimeout, w')"
proof (rule demo_prepare)
  fix keys w
  assume P: "connection_prepare demo_env demo_parameters demo_bss Pending demo_station = Some (Done (Some keys), w)"
    and op: "router_operation Foreground (router w) = Some (Authenticating [1])"
  obtain w1 where "do_auth demo_env demo_parameters demo_bss silent_air w = Some (Failed ResponseTimeout, w1)"
    using op silent_attempts [of "e_generic demo_env" "Authenticating [1]" "AuthRequest [2] [1]"]
    by (simp add: do_auth_def do_bidirectional_connection_step_def router_guard_operation_def
        scoped_operation_def del: connection_attempts.simps) blast
  then have "connection_exchange demo_env demo_parameters demo_bss 64 silent_air (Some keys) w = Some (Failed ResponseTimeout, w1)"
    by (simp add: connection_exchange_def)
  then show ?thesis using P by (simp add: connection_run_def connection_finish_def bind_op_def silent_air_watch)
qed




text \<open>
  C2: keys come from an authenticated handshake. When the four-way handshake completes, a message 1
  and a message 3 of the access point were received, and the decoder accepted message 3 under the
  keys derived from the PMK and both nonces; it repeats the nonce of message 1. The installed keys
  are the derived pairwise key and the group key of message 3. The station answered with one or
  more messages 2, with counters that never go back, and a single message 4 with the counter of
  message 3, which is newer than all of them.
\<close>

theorem handshake_authenticated:
  assumes "do_4whs e pmk_key bss_id own scratch a w = Some (Done (sa, m3r), w')"
  shows "\<exists>f1 h f3 key ks kck kek t. f1 \<in> set (m1_air a) \<and> from_message_1 (e_parse e) f1 own bss_id = Some h \<and>
     ptksa sa = TKSA_new (e_derive_ptk e pmk_key bss_id own (hs_nonce h) (snonce a)) 0 \<and>
     e_partition e (tk_key (ptksa sa)) Psk Ccmp128 = Some (kck, kek, t) \<and>
     f3 \<in> fst ` set (m3_air a) \<and> decrypt_message_3 (e_parse e) (e_decode e) f3 scratch kck kek own bss_id = Some key \<and>
     m3_nonce key = hs_nonce h \<and> active_group_id sa = m3_gtk_id key \<and>
     group_keys sa = (replicate 4 None)[unat (m3_gtk_id key) := Some (TKSA_new (m3_gtk key) (m3_gtk_id key))] \<and>
     m3r = Message3Replay_new (hs_nonce h) (snonce a) (m3_counter key) \<and>
     sent w' = sent w @ map (\<lambda>k. clear_eapol e bss_id own (message_2_out kck (snonce a) k)) (hs_counter h # ks) @
       [clear_eapol e bss_id own (message_4_out kck (snonce a) (m3_counter key))] \<and>
     sorted (hs_counter h # ks) \<and> last (hs_counter h # ks) < m3_counter key"
  using assms
proof (cases rule: do_4whs_Done)
  case (1 f1 h f3 key ks kck kek t)
  then show ?thesis
    by (intro exI [of _ f1] exI [of _ h] exI [of _ f3] exI [of _ key] exI [of _ ks] exI [of _ kck] exI [of _ kek]
        exI [of _ t] conjI)
qed

theorem handshake_authenticated_witness:
  "\<exists>w sa m3r w' f3 key kck kek. do_4whs demo_env [] [2] [1] 64 demo_air w = Some (Done (sa, m3r), w') \<and>
     f3 \<in> fst ` set (m3_air demo_air) \<and>
     decrypt_message_3 (e_parse demo_env) (e_decode demo_env) f3 64 kck kek [1] [2] = Some key \<and>
     active_group_id sa = m3_gtk_id key"
proof (rule demo_prepare)
  fix keys w
  assume "connection_prepare demo_env demo_parameters demo_bss Pending demo_station = Some (Done (Some keys), w)"
    and op: "router_operation Foreground (router w) = Some (Authenticating [1])" "router_operation Background (router w) = None"
  from op obtain sa m3r w' where r: "do_4whs demo_env [] [2] [1] 64 demo_air w = Some (Done (sa, m3r), w')"
    using demo_4whs by blast
  from handshake_authenticated [OF r] r show ?thesis by blast
qed



text \<open>No timeout bounds the wait for message 1, although the configuration has one: without a
  message 1 the handshake does not return.\<close>

lemma handshake_waits_forever:
  assumes "\<forall>f \<in> set (m1_air a). from_message_1 (e_parse e) f own bss_id = None"
    and "router_operation Foreground (router w) = Some op" "router_operation Background (router w) = None"
  shows "do_4whs e pmk_key bss_id own scratch a w = None"
proof -
  have "process_message_1 (e_parse e) own bss_id fs w' = None"
    if "\<forall>f \<in> set fs. from_message_1 (e_parse e) f own bss_id = None" for fs w'
    using that by (induction fs) auto
  then show ?thesis using assms by (auto simp: do_4whs_def sta_transition_def router_step_defs)
qed

end
