(* ===== verification/Sta_Control.thy ===== *)
theory Sta_Control
  imports Sta_Connect
begin

text \<open>
  The user's side of a station interface, \<open>foa_sta/src/control.rs\<close>, with the scan operations of
  \<open>operations/scan.rs\<close> it calls and the construction of the interface in \<open>lib.rs\<close>. The state is
  the station's shared state and the MAC address the control owns. The interface runners, which
  run between the awaits of these operations, are the theory \<open>Sta_Runner\<close>.
\<close>

record ('c, 'k, 'fl, 'q, 'g) sta_control =
  ctl_mac_address :: mac_address
  sta :: "('c, 'k, 'fl, 'q, 'g) sta_tx_rx"

text \<open>\<open>new_sta_interface\<close>: the factory address of the interface is the first MAC address.\<close>

definition new_sta_interface ::
  "('c, 'm, 'k, 'fl, 'q, 'g) sta_env \<Rightarrow> mac_address \<Rightarrow> 'c channel_state \<Rightarrow> 'k key_hw \<Rightarrow> 'fl \<Rightarrow>
     panic + ('c, 'k, 'fl, 'q, 'g) sta_control" where
  "new_sta_interface e base cs hw fl =
     (case get_factory_mac_for_interface base (e_iface e) of
        Inl p \<Rightarrow> Inl p
      | Inr mac \<Rightarrow> Inr \<lparr>ctl_mac_address = mac, sta = StaResources_new e cs hw fl\<rparr>)"

section \<open>Address and state of the interface\<close>

definition set_mac_address ::
  "mac_address \<Rightarrow> ('c, 'k, 'fl, 'q, 'g) sta_control \<Rightarrow> (sta_error + unit) \<times> ('c, 'k, 'fl, 'q, 'g) sta_control" where
  "set_mac_address m c =
     (if connection_info_of (connection_state (sta c)) \<noteq> None then (Inl StillConnected, c)
      else (Inr (), c\<lparr>ctl_mac_address := m\<rparr>))"

text \<open>The argument is what the random number generator filled in.\<close>

definition randomize_mac_address ::
  "bytes \<Rightarrow> ('c, 'k, 'fl, 'q, 'g) sta_control \<Rightarrow> (sta_error + mac_address) \<times> ('c, 'k, 'fl, 'q, 'g) sta_control" where
  "randomize_mac_address rng c =
     (let m = random_mac_address rng
      in case set_mac_address m c of (Inl err, c') \<Rightarrow> (Inl err, c') | (Inr _, c') \<Rightarrow> (Inr m, c'))"

definition control_connected :: "('c, 'k, 'fl, 'q, 'g) sta_control \<Rightarrow> bool" where
  "control_connected c = connected (connection_state (sta c))"

definition get_aid :: "('c, 'k, 'fl, 'q, 'g) sta_control \<Rightarrow> nat option" where
  "get_aid c = map_connection_info aid (connection_state (sta c))"

definition control_phy_rate :: "('c, 'k, 'fl, 'q, 'g) sta_control \<Rightarrow> phy_rate" where
  "control_phy_rate c = phy_rate (sta c)"

definition override_phy_rate :: "phy_rate \<Rightarrow> ('c, 'k, 'fl, 'q, 'g) sta_control \<Rightarrow> ('c, 'k, 'fl, 'q, 'g) sta_control" where
  "override_phy_rate rate c = c\<lparr>sta := set_phy_rate rate (sta c)\<rparr>"

section \<open>Scanning\<close>

text \<open>
  What a scan meets: the result of beginning the off-channel operation, the frames on each
  channel and their parser. The router is the one after the scan operation was started.
\<close>

record ('m, 'wt, 'f) scan_setup =
  scan_mode :: 'm
  watch_sender :: "'wt \<Rightarrow> 'wt"
  parse_beacon :: "'f \<Rightarrow> beacon_frame option"
  frame_rssi :: "'f \<Rightarrow> int"
  scan_air :: "nat \<Rightarrow> 'f list"
  current_channel :: u8
  scan_began :: "lmac_error + off_channel_operation"

definition control_scan ::
  "('c, 'm, 'k, 'fl, 'q, 'g) sta_env \<Rightarrow> ('m, 'wt, 'f) scan_setup \<Rightarrow> (beacon_frame, 'f, 's, 'r) scan_callback \<Rightarrow>
     scan_config option \<Rightarrow> bool \<Rightarrow> 'wt \<Rightarrow> 's \<Rightarrow> ('c, 'k, 'fl, 'q, 'g) sta_control \<Rightarrow>
     ((lmac_error + 'r option) \<times> 'wt \<times> 's \<times> ('c, 'k, 'fl, 'q, 'g) sta_control) option" where
  "control_scan e su cb cfg continuous wt s c =
     (case Scan.scan (e_radio e) (scan_mode su) (watch_sender su) (e_signal e) (parse_beacon su) cb (scan_air su) cfg
             continuous (current_channel su) (scan_began su) Foreground (router (sta c)) (lmac (sta c)) wt s of
        None \<Rightarrow> None
      | Some (res, r', cs', wt', s') \<Rightarrow> Some (res, wt', s', c\<lparr>sta := (sta c)\<lparr>router := r', lmac := cs'\<rparr>\<rparr>))"

text \<open>\<open>scan\<close>: the networks found are in the index map.\<close>

definition sta_scan ::
  "('c, 'm, 'k, 'fl, 'q, 'g) sta_env \<Rightarrow> ('m, 'wt, 'f) scan_setup \<Rightarrow> nat \<Rightarrow> ('im, mac_address, bss) index_map_ops \<Rightarrow>
     scan_config option \<Rightarrow> 'wt \<Rightarrow> 'im \<Rightarrow> ('c, 'k, 'fl, 'q, 'g) sta_control \<Rightarrow>
     ((sta_error + unit) \<times> 'wt \<times> 'im \<times> ('c, 'k, 'fl, 'q, 'g) sta_control) option" where
  "sta_scan e su cap im cfg wt found c =
     (case control_scan e su (enumerate_cb cap im (frame_rssi su)) cfg False wt found c of
        None \<Rightarrow> None
      | Some (Inl err, rest) \<Rightarrow> Some (Inl (LMacError err), rest)
      | Some (Inr _, rest) \<Rightarrow> Some (Inr (), rest))"

definition sta_scan_continuously ::
  "('c, 'm, 'k, 'fl, 'q, 'g) sta_env \<Rightarrow> ('m, 'wt, 'f) scan_setup \<Rightarrow> (bss \<Rightarrow> bool) \<Rightarrow>
     scan_config option \<Rightarrow> 'wt \<Rightarrow> (mac_address \<rightharpoonup> bss) \<Rightarrow> ('c, 'k, 'fl, 'q, 'g) sta_control \<Rightarrow>
     ((sta_error + unit) \<times> 'wt \<times> (mac_address \<rightharpoonup> bss) \<times> ('c, 'k, 'fl, 'q, 'g) sta_control) option" where
  "sta_scan_continuously e su bss_found_cb cfg wt found c =
     (case control_scan e su (continuous_cb bss_found_cb (frame_rssi su)) cfg True wt found c of
        None \<Rightarrow> None
      | Some (Inl err, rest) \<Rightarrow> Some (Inl (LMacError err), rest)
      | Some (Inr _, rest) \<Rightarrow> Some (Inr (), rest))"

definition find_ess ::
  "('c, 'm, 'k, 'fl, 'q, 'g) sta_env \<Rightarrow> ('m, 'wt, 'f) scan_setup \<Rightarrow> scan_config option \<Rightarrow> string \<Rightarrow> 'wt \<Rightarrow>
     ('c, 'k, 'fl, 'q, 'g) sta_control \<Rightarrow> ((sta_error + bss) \<times> 'wt \<times> ('c, 'k, 'fl, 'q, 'g) sta_control) option" where
  "find_ess e su cfg network wt c =
     (case control_scan e su (search_cb network (frame_rssi su)) cfg False wt () c of
        None \<Rightarrow> None
      | Some (Inr (Some b), wt', _, c') \<Rightarrow> Some (Inr b, wt', c')
      | Some (Inr None, wt', _, c') \<Rightarrow> Some (Inl Sta_State.UnableToFindEss, wt', c')
      | Some (Inl err, wt', _, c') \<Rightarrow> Some (Inl (LMacError err), wt', c'))"

section \<open>Connecting and disconnecting\<close>

definition disconnect_internal ::
  "('c, 'm, 'k, 'fl, 'q, 'g) sta_env \<Rightarrow> connection_info \<Rightarrow> ('c, 'k, 'fl, 'q, 'g) sta_tx_rx \<Rightarrow>
     ('c, 'k, 'fl, 'q, 'g) sta_tx_rx" where
  "disconnect_internal e info w =
     (let w1 = w\<lparr>connection_state := signal_state (e_signal e) (Disconnected User) (connection_state w)\<rparr>;
          w2 = reset_phy_rate w1
      in deauthenticate (bssid (ci_bss info)) (own_address info) True (phy_rate w2) w2)"

definition disconnect ::
  "('c, 'm, 'k, 'fl, 'q, 'g) sta_env \<Rightarrow> ('c, 'k, 'fl, 'q, 'g) sta_control \<Rightarrow>
     (sta_error + unit) \<times> ('c, 'k, 'fl, 'q, 'g) sta_control" where
  "disconnect e c =
     (case connection_info_of (connection_state (sta c)) of
        None \<Rightarrow> (Inl NotConnected, c)
      | Some info \<Rightarrow>
          (let w = (sta c)\<lparr>lmac := unlock_channel (e_interfaces e) (e_iface e) (lmac (sta c))\<rparr>
           in (Inr (), c\<lparr>sta := disconnect_internal e info w\<rparr>)))"

text \<open>
  \<open>connect\<close> up to the connection operation: the checks, and leaving the current network. The
  result is the state in which the attempt starts.
\<close>

definition connect_checks ::
  "('c, 'm, 'k, 'fl, 'q, 'g) sta_env \<Rightarrow> bss \<Rightarrow> credentials option \<Rightarrow> ('c, 'k, 'fl, 'q, 'g) sta_tx_rx \<Rightarrow>
     sta_error + ('c, 'k, 'fl, 'q, 'g) sta_tx_rx" where
  "connect_checks e b creds w =
     (if security_config b \<noteq> Open \<and> creds = None then Inl NoCredentialsForNetwork
      else case connection_info_of (connection_state w) of
             Some info \<Rightarrow>
               if bssid (ci_bss info) = bssid b then Inl SameNetwork
               else Inr (reset_phy_rate (disconnect_internal e info w))
           | None \<Rightarrow> Inr (reset_phy_rate w))"

definition connect_parameters ::
  "('c, 'k, 'fl, 'q, 'g) sta_control \<Rightarrow> connection_config option \<Rightarrow> credentials option \<Rightarrow> connection_parameters" where
  "connect_parameters c cfg creds =
     \<lparr>cp_config = (case cfg of None \<Rightarrow> ConnectionConfig_default | Some x \<Rightarrow> x),
      cp_own_address = ctl_mac_address c, cp_credentials = creds\<rparr>"

definition signal_connected ::
  "('c, 'm, 'k, 'fl, 'q, 'g) sta_env \<Rightarrow> bss \<Rightarrow> connection_parameters \<Rightarrow> nat \<Rightarrow> ('c, 'k, 'fl, 'q, 'g) sta_tx_rx \<Rightarrow>
     ('c, 'k, 'fl, 'q, 'g) sta_tx_rx" where
  "signal_connected e b cp i w =
     w\<lparr>connection_state := signal_state (e_signal e)
         (Connected \<lparr>ci_bss = b, own_address = cp_own_address cp, aid = i, connection_config = cp_config cp\<rparr>)
         (connection_state w)\<rparr>"

text \<open>No runner acts between the awaits here; \<open>None\<close> is a call that has not returned.\<close>

definition connect ::
  "('c, 'm, 'k, 'fl, 'q, 'g) sta_env \<Rightarrow> bss \<Rightarrow> connection_config option \<Rightarrow> credentials option \<Rightarrow> nat \<Rightarrow> air \<Rightarrow>
     ('c, 'k, 'fl, 'q, 'g) sta_control \<Rightarrow> ((sta_error, unit) ending \<times> ('c, 'k, 'fl, 'q, 'g) sta_control) option" where
  "connect e b cfg creds scratch a c =
     (case connect_checks e b creds (sta c) of
        Inl err \<Rightarrow> Some (Failed err, c)
      | Inr w \<Rightarrow>
          (case connection_run e (connect_parameters c cfg creds) b scratch a w of
             None \<Rightarrow> None
           | Some (Panicked p, w') \<Rightarrow> Some (Panicked p, c\<lparr>sta := w'\<rparr>)
           | Some (Failed err, w') \<Rightarrow> Some (Failed err, c\<lparr>sta := w'\<rparr>)
           | Some (Done i, w') \<Rightarrow>
               Some (Done (), c\<lparr>sta := signal_connected e b (connect_parameters c cfg creds) i w'\<rparr>)))"

definition connect_by_ssid ::
  "('c, 'm, 'k, 'fl, 'q, 'g) sta_env \<Rightarrow> ('m, 'wt, 'f) scan_setup \<Rightarrow> string \<Rightarrow> connection_config option \<Rightarrow>
     credentials option \<Rightarrow> nat \<Rightarrow> air \<Rightarrow> 'wt \<Rightarrow> ('c, 'k, 'fl, 'q, 'g) sta_control \<Rightarrow>
     ((sta_error, unit) ending \<times> ('c, 'k, 'fl, 'q, 'g) sta_control) option" where
  "connect_by_ssid e su network cfg creds scratch a wt c =
     (case find_ess e su None network wt c of
        None \<Rightarrow> None
      | Some (Inl err, _, c') \<Rightarrow> Some (Failed err, c')
      | Some (Inr b, _, c') \<Rightarrow> connect e b cfg creds scratch a c')"

section \<open>Requesting a new group key\<close>

text \<open>
  \<open>request_group_rekey\<close>, of the builds with the handshake recorder: the requests have a counter of
  their own in the crypto state, which a request takes before its frame is sent.
\<close>

definition take_group_request ::
  "('c, 'm, 'k, 'fl, 'q, 'g) sta_env \<Rightarrow> crypto_state \<Rightarrow> (bytes \<times> u64) option \<times> crypto_state" where
  "take_group_request e cs =
     (let sa = security_associations cs
      in case e_partition e (tk_key (ptksa sa)) (akm_suite sa) (sa_cipher_suite sa) of
           None \<Rightarrow> (None, cs)
         | Some (kck, _, _) \<Rightarrow>
             if length kck \<noteq> 16 then (None, cs)
             else (let counter = group_request_counter cs
                   in if counter = - 1 then (None, cs)
                      else (Some (kck, counter), cs\<lparr>group_request_counter := counter + 1\<rparr>)))"

definition request_group_rekey ::
  "('c, 'm, 'k, 'fl, 'q, 'g) sta_env \<Rightarrow> completion \<Rightarrow> ('c, 'k, 'fl, 'q, 'g) sta_control \<Rightarrow>
     ((sta_error, unit) ending \<times> ('c, 'k, 'fl, 'q, 'g) sta_control) option" where
  "request_group_rekey e done c =
     (case connection_info_of (connection_state (sta c)) of
        None \<Rightarrow> Some (Failed NotConnected, c)
      | Some info \<Rightarrow>
          (case map_crypto_state (take_group_request e) (sta c) of
             (Some (Some (kck, counter)), w) \<Rightarrow>
               map_option (\<lambda>(x, w'). (x, c\<lparr>sta := w'\<rparr>))
                 (send_group_request e (bssid (ci_bss info)) (own_address info) kck counter done w)
           | (_, w) \<Rightarrow> Some (Failed GroupKeyHandshakeFailure, c\<lparr>sta := w\<rparr>)))"

end
