(* ===== verification/Sta_Runner.thy ===== *)
theory Sta_Runner
  imports Sta_Control Net_Driver
begin

unbundle bit_operations_syntax

text \<open>
  The background tasks of a station interface, \<open>foa_sta/src/runner.rs\<close>: the connection runner
  with its EAPOL replies, beacon timeout, MSDU transmission and teardown, and the routing runner,
  which hands received data to the network stack and everything else to the RX router. An
  asynchronous loop is modelled by one round of it: what it does when it is polled. The channel
  to the network stack and the frame codecs are third-party code and parameters.
\<close>

section \<open>Parameters\<close>

record 'n runner_env =
  r_net :: "'n net_ops"
  r_multicast :: "mac_address \<Rightarrow> bool"
  r_destination :: "data_frame \<Rightarrow> mac_address option"
  r_source :: "data_frame \<Rightarrow> mac_address option"
  r_amsdu :: "bytes \<Rightarrow> (bytes \<times> mac_address \<times> mac_address) list"
  r_llc :: "bytes \<Rightarrow> (nat \<times> bytes) option"
  r_write_ethernet :: "mac_address \<Rightarrow> mac_address \<Rightarrow> nat \<Rightarrow> bytes \<Rightarrow> bytes option"
  r_parse_ethernet :: "bytes \<Rightarrow> (mac_address \<times> nat \<times> bytes) option"
  r_crypto_header :: "u64 \<Rightarrow> u8 \<Rightarrow> bool"
  r_write_data :: "mac_address \<Rightarrow> mac_address \<Rightarrow> mac_address \<Rightarrow> nat \<Rightarrow> bytes \<Rightarrow> (u64 \<times> u8) option \<Rightarrow> bytes option"
  r_management :: "bytes \<Rightarrow> management_subtype option"

section \<open>EAPOL frames of an established connection\<close>

text \<open>The reply: key confirmation key, nonce, replay counter, and whether it is a group message.\<close>

type_synonym eapol_reply = "bytes \<times> bytes \<times> u64 \<times> bool"

text \<open>The packet number of a protected frame advances the replay counter even when the message
  inside turns out to be invalid.\<close>

definition check_packet_number :: "u64 option \<Rightarrow> crypto_state \<Rightarrow> bool \<times> crypto_state" where
  "check_packet_number pn cs =
     (case pn of
        None \<Rightarrow> (True, cs)
      | Some n \<Rightarrow>
          (let sa = security_associations cs; (ok, k) = update_and_validate_replay_counter n (ptksa sa)
           in (ok, cs\<lparr>security_associations := sa\<lparr>ptksa := k\<rparr>\<rparr>)))"

definition is_group_message :: "data_parser \<Rightarrow> bytes \<Rightarrow> connection_info \<Rightarrow> bool" where
  "is_group_message parse frame info =
     (case group_key_payload parse frame (own_address info) (bssid (ci_bss info)) of
        None \<Rightarrow> False
      | Some key \<Rightarrow> key_information key = 0x1382)"

text \<open>The closure \<open>handle_eapol_retry\<close> runs on the crypto state.\<close>

definition reply_to_eapol ::
  "('c, 'm, 'k, 'fl, 'q, 'g) sta_env \<Rightarrow> connection_info \<Rightarrow> nat \<Rightarrow> bytes \<Rightarrow> u64 option \<Rightarrow> crypto_state \<Rightarrow> 'k key_hw \<Rightarrow>
     panic + eapol_reply option \<times> crypto_state \<times> 'k key_hw" where
  "reply_to_eapol e info scratch frame pn cs hw =
     (let sa = security_associations cs; own = own_address info; bss_id = bssid (ci_bss info)
      in case e_partition e (tk_key (ptksa sa)) (akm_suite sa) (sa_cipher_suite sa) of
           None \<Rightarrow> Inr (None, cs, hw)
         | Some (kck, kek, _) \<Rightarrow>
             if length kck \<noteq> 16 \<or> length kek \<noteq> 16 then Inr (None, cs, hw)
             else
               (let (fresh, cs1) = check_packet_number pn cs
                in if \<not> fresh then Inr (None, cs1, hw)
                   else if is_group_message (e_parse e) frame info
                   then (case decode_group_message_1 (e_parse e) (e_decode e) frame scratch kck kek own bss_id of
                           None \<Rightarrow> Inr (None, cs1, hw)
                         | Some m \<Rightarrow>
                             (case accept_group_message (e_crypto e) m bss_id cs1 hw of
                                Inl p \<Rightarrow> Inl p
                              | Inr (None, cs2, hw2) \<Rightarrow> Inr (None, cs2, hw2)
                              | Inr (Some _, cs2, hw2) \<Rightarrow> Inr (Some (kck, replicate 32 0, g1_counter m, True), cs2, hw2)))
                   else (case active_group_key (security_associations cs1) of
                           Inl p \<Rightarrow> Inl p
                         | Inr gtk \<Rightarrow>
                             (case Message3Replay_accept (e_parse e) (e_decode e) frame scratch kck kek
                                     (tk_key gtk) (tk_key_id gtk) own bss_id (message3_replay cs1) of
                                None \<Rightarrow> Inr (None, cs1, hw)
                              | Some (counter, r) \<Rightarrow>
                                  Inr (Some (kck, supplicant_nonce r, counter, False), cs1\<lparr>message3_replay := r\<rparr>, hw)))))"

text \<open>The result of the transmission is not looked at.\<close>

definition ignore_result :: "('w, 'e, 'r) op \<Rightarrow> ('w, 'e, unit) op" where
  "ignore_result m w =
     (case m w of
        None \<Rightarrow> None
      | Some (Panicked p, w') \<Rightarrow> Some (Panicked p, w')
      | Some (_, w') \<Rightarrow> Some (Done (), w'))"

definition send_eapol_reply ::
  "('c, 'm, 'k, 'fl, 'q, 'g) sta_env \<Rightarrow> connection_info \<Rightarrow> eapol_reply option \<Rightarrow> completion \<Rightarrow>
     ('c, 'k, 'fl, 'q, 'g, unit) sta_op" where
  "send_eapol_reply e info reply c =
     (case reply of
        None \<Rightarrow> end_op (Done ())
      | Some (kck, nonce, counter, is_group) \<Rightarrow>
          ignore_result
            (if is_group then send_group_message_2 e (bssid (ci_bss info)) (own_address info) kck counter c
             else send_message_4 e (bssid (ci_bss info)) (own_address info) kck nonce counter c))"

definition handle_eapol_retry ::
  "('c, 'm, 'k, 'fl, 'q, 'g) sta_env \<Rightarrow> connection_info \<Rightarrow> nat \<Rightarrow> bytes \<Rightarrow> completion \<Rightarrow> ('c, 'k, 'fl, 'q, 'g, unit) sta_op" where
  "handle_eapol_retry e info scratch buf c w =
     (case normalize (e_parse e) buf (own_address info) (bssid (ci_bss info)) of
        None \<Rightarrow> Some (Done (), w)
      | Some (buf', len, pn) \<Rightarrow>
          (case crypto w of
             None \<Rightarrow> Some (Done (), w)
           | Some cs \<Rightarrow>
               (case reply_to_eapol e info scratch (take len buf') pn cs (key_hw w) of
                  Inl p \<Rightarrow> Some (Panicked p, w)
                | Inr (reply, cs', hw') \<Rightarrow> send_eapol_reply e info reply c (w\<lparr>crypto := Some cs', key_hw := hw'\<rparr>))))"

section \<open>The connection loop\<close>

datatype connection_rx_event = RxDisconnected disconnection_reason | BeaconReceived

definition handle_deauth :: connection_rx_event where
  "handle_deauth = RxDisconnected Deauthenticated"

definition handle_bg_rx :: "'n runner_env \<Rightarrow> bytes \<Rightarrow> connection_rx_event option" where
  "handle_bg_rx re buf =
     (case r_management re buf of
        Some Deauthentication \<Rightarrow> Some handle_deauth
      | Some Beacon \<Rightarrow> Some BeaconReceived
      | _ \<Rightarrow> None)"

text \<open>The local state of \<open>run_connection\<close>: whether it waits for an off-channel operation to
  complete, and when the beacon ticker expires.\<close>

record connection_loop =
  awaiting_completion :: bool
  beacon_deadline :: "nat option"

datatype round = Idle | Again | Leave disconnection_reason | Crash panic

definition next_beacon_deadline :: "nat \<Rightarrow> connection_info \<Rightarrow> nat option" where
  "next_beacon_deadline now info = map_option (\<lambda>d. now + d) (beacon_timeout (connection_config info))"

definition run_connection_start :: "nat \<Rightarrow> connection_info \<Rightarrow> connection_loop" where
  "run_connection_start now info = \<lparr>awaiting_completion = False, beacon_deadline = next_beacon_deadline now info\<rparr>"

text \<open>What happens with a frame of the background queue; the last result is whether the beacon
  ticker is reset.\<close>

definition handle_bg_frame ::
  "('c, 'm, 'k, 'fl, 'q, 'g) sta_env \<Rightarrow> 'n runner_env \<Rightarrow> connection_info \<Rightarrow> nat \<Rightarrow> completion \<Rightarrow> bytes \<Rightarrow>
     ('c, 'k, 'fl, 'q, 'g) sta_tx_rx \<Rightarrow> round \<times> ('c, 'k, 'fl, 'q, 'g) sta_tx_rx \<times> bool" where
  "handle_bg_frame e re info scratch c f w =
     (if is_key_frame (e_parse e) f
      then (case handle_eapol_retry e info scratch f c w of
              None \<Rightarrow> (Idle, w, False)
            | Some (Panicked p, w') \<Rightarrow> (Crash p, w', False)
            | Some (_, w') \<Rightarrow> (Again, w', False))
      else case handle_bg_rx re f of
             Some (RxDisconnected r) \<Rightarrow> (Leave r, w, False)
           | Some BeaconReceived \<Rightarrow> (Again, w, True)
           | None \<Rightarrow> (Again, w, False))"

text \<open>
  One round of \<open>run_connection\<close> at time \<open>now\<close>. The three sources are polled in order: the
  off-channel request, the background queue, the ticker. \<open>watch_get\<close> is the completion of
  off-channel operations.
\<close>

definition run_connection_round ::
  "('c, 'm, 'k, 'fl, 'q, 'g) sta_env \<Rightarrow> 'n runner_env \<Rightarrow> ('wt \<Rightarrow> unit poll) \<Rightarrow> 'wt \<Rightarrow> connection_info \<Rightarrow> nat \<Rightarrow> nat \<Rightarrow>
     completion \<Rightarrow> connection_loop \<times> off_channel_request_state list \<times> ('c, 'k, 'fl, 'q, 'g) sta_tx_rx \<Rightarrow>
     round \<times> connection_loop \<times> off_channel_request_state list \<times> ('c, 'k, 'fl, 'q, 'g) sta_tx_rx" where
  "run_connection_round e re watch_get wt info scratch now c s =
     (let (l, rs, w) = s
      in if awaiting_completion l
         then (case wait_for_off_channel_completion watch_get (lmac w) wt of
                 Pending \<Rightarrow> (Idle, s)
               | Ready _ \<Rightarrow> (Again, l\<lparr>awaiting_completion := False\<rparr>, rs, w))
         else case wait_for_request (rs ! e_iface e) of
                Ready _ \<Rightarrow> (Again, l\<lparr>awaiting_completion := True\<rparr>, rs[e_iface e := grant (rs ! e_iface e)], w)
              | Pending \<Rightarrow>
                  (case router_receive (e_queue e) Background (router w) of
                     Some (f, r) \<Rightarrow>
                       (let (rd, w', reset) = handle_bg_frame e re info scratch c f (w\<lparr>router := r\<rparr>)
                        in (rd, if reset then l\<lparr>beacon_deadline := next_beacon_deadline now info\<rparr> else l, rs, w'))
                   | None \<Rightarrow>
                       (case beacon_deadline l of
                          Some t \<Rightarrow>
                            if t \<le> now
                            then (Leave BeaconTimeout, l, rs,
                                  deauthenticate (bssid (ci_bss info)) (own_address info) True OfdmMbits6 w)
                            else (Idle, s)
                        | None \<Rightarrow> (Idle, s))))"

section \<open>Transmitting MSDUs\<close>

definition take_tx_crypto :: "crypto_state \<Rightarrow> (u64 \<times> u8 \<times> nat) \<times> crypto_state" where
  "take_tx_crypto cs =
     (let sa = security_associations cs; (pn, k) = next_packet_number (ptksa sa)
      in ((pn, tk_key_id k, key_slot (ptk_key_slot cs)), cs\<lparr>security_associations := sa\<lparr>ptksa := k\<rparr>\<rparr>))"

text \<open>
  One round of \<open>run_msdu_tx\<close>. During an off-channel operation of the station it waits; \<open>watch\<close> is
  what the watch of completed operations answers. Two ways out of it repeat the loop without marking the packet as
  done: a packet that is no Ethernet frame, and one that does not fit into the buffer.
\<close>

definition run_msdu_tx_round ::
  "('c, 'm, 'k, 'fl, 'q, 'g) sta_env \<Rightarrow> 'n runner_env \<Rightarrow> unit poll \<Rightarrow> connection_info \<Rightarrow>
     ('c, 'k, 'fl, 'q, 'g) sta_tx_rx \<times> 'n \<Rightarrow> round \<times> ('c, 'k, 'fl, 'q, 'g) sta_tx_rx \<times> 'n" where
  "run_msdu_tx_round e re watch info s =
     (let (w, n) = s
      in case net_tx_buf (r_net re) n of
           None \<Rightarrow> (Idle, w, n)
         | Some msdu \<Rightarrow>
             if in_off_channel_operation e w \<and>
                wait_for_off_channel_completion (\<lambda>_. watch) (lmac w) () = Pending then (Idle, w, n)
             else case r_parse_ethernet re msdu of
                    None \<Rightarrow> (Again, w, n)
                  | Some (dst, ether_type, body) \<Rightarrow>
                      (let (tx_crypto, w1) = map_crypto_state take_tx_crypto w
                       in case tx_crypto of
                            Some (pn, key_id, slot) \<Rightarrow>
                              if \<not> r_crypto_header re pn key_id
                              then (Crash (Panic ''called Option::unwrap() on a None value''), w1, n)
                              else (case r_write_data re (bssid (ci_bss info)) (own_address info) dst ether_type body (Some (pn, key_id)) of
                                      None \<Rightarrow> (Again, w1, n)
                                    | Some mpdu \<Rightarrow>
                                        (Again, transmit_frame (DataOut (bssid (ci_bss info)) (own_address info) dst
                                           (Some (pn, key_id, slot)) mpdu) w1, net_tx_done (r_net re) n))
                          | None \<Rightarrow>
                              (case r_write_data re (bssid (ci_bss info)) (own_address info) dst ether_type body None of
                                 None \<Rightarrow> (Again, w1, n)
                               | Some mpdu \<Rightarrow>
                                   (Again, transmit_frame (DataOut (bssid (ci_bss info)) (own_address info) dst None mpdu) w1,
                                    net_tx_done (r_net re) n))))"

section \<open>Link up and link down\<close>

definition link_up :: "'n runner_env \<Rightarrow> connection_info \<Rightarrow> 'n \<Rightarrow> 'n" where
  "link_up re info n = net_set_link (r_net re) True (net_set_address (r_net re) (own_address info) n)"

text \<open>The end of a round of \<open>ConnectionRunner::run\<close>: a packet that was being sent is discarded
  and the parameters of the connection are reset.\<close>

definition teardown ::
  "('c, 'm, 'k, 'fl, 'q, 'g) sta_env \<Rightarrow> 'n runner_env \<Rightarrow> disconnection_reason \<Rightarrow> ('c, 'k, 'fl, 'q, 'g) sta_tx_rx \<times> 'n \<Rightarrow>
     ('c, 'k, 'fl, 'q, 'g) sta_tx_rx \<times> 'n" where
  "teardown e re reason s =
     (let (w, n) = s;
          n1 = (case net_tx_buf (r_net re) n of None \<Rightarrow> n | Some _ \<Rightarrow> net_tx_done (r_net re) n);
          w1 = w\<lparr>lmac := unlock_channel (e_interfaces e) (e_iface e) (lmac w)\<rparr>;
          w2 = clear_filter e BssidBank (reset_phy_rate w1);
          w3 = w2\<lparr>connection_state := signal_state (e_signal e) (Disconnected reason) (connection_state w2)\<rparr>
      in (w3, net_set_link (r_net re) False n1))"

section \<open>Receiving data\<close>

text \<open>The replay check of a protected payload: the pairwise key for unicast frames, the group key
  with the key ID of the frame for group frames.\<close>

definition check_data_packet_number :: "bool \<Rightarrow> u8 \<Rightarrow> u64 \<Rightarrow> crypto_state \<Rightarrow> bool \<times> crypto_state" where
  "check_data_packet_number is_group key_id pn cs =
     (let sa = security_associations cs
      in if is_group
         then (case group_key key_id sa of
                 None \<Rightarrow> (False, cs)
               | Some k \<Rightarrow>
                   (let (ok, k') = update_and_validate_replay_counter pn k
                    in (ok, cs\<lparr>security_associations := sa\<lparr>group_keys := (group_keys sa)[unat key_id := Some k']\<rparr>\<rparr>)))
         else if key_id = 0
         then (let (ok, k') = update_and_validate_replay_counter pn (ptksa sa)
               in (ok, cs\<lparr>security_associations := sa\<lparr>ptksa := k'\<rparr>\<rparr>))
         else (False, cs))"

definition process_potentially_wrapped_payload ::
  "bool \<Rightarrow> u8 \<Rightarrow> wrapped_payload \<Rightarrow> ('c, 'k, 'fl, 'q, 'g) sta_tx_rx \<Rightarrow> data_payload option \<times> ('c, 'k, 'fl, 'q, 'g) sta_tx_rx" where
  "process_potentially_wrapped_payload is_group key_id wp w =
     (case wp of
        Unwrapped p \<Rightarrow> (Some p, w)
      | CryptoWrapped pn p \<Rightarrow>
          (case map_crypto_state (check_data_packet_number is_group key_id pn) w of
             (Some True, w') \<Rightarrow> (Some p, w')
           | (_, w') \<Rightarrow> (None, w')))"

text \<open>The result is whether the MSDU was handed over.\<close>

definition handle_downlink_msdu ::
  "'n runner_env \<Rightarrow> bytes \<Rightarrow> mac_address \<Rightarrow> mac_address \<Rightarrow> 'n \<Rightarrow> bool \<times> 'n" where
  "handle_downlink_msdu re body src dst n =
     (case r_llc re body of
        None \<Rightarrow> (False, n)
      | Some (ether_type, p) \<Rightarrow>
          if \<not> net_rx_space (r_net re) n then (False, n)
          else case r_write_ethernet re dst src ether_type p of
                 None \<Rightarrow> (False, n)
               | Some frame \<Rightarrow> (True, net_rx_done (r_net re) frame n))"

text \<open>The sub-frames of an A-MSDU, up to the first one that is not handed over.\<close>

fun handle_sub_frames :: "'n runner_env \<Rightarrow> (bytes \<times> mac_address \<times> mac_address) list \<Rightarrow> 'n \<Rightarrow> 'n" where
  "handle_sub_frames re [] n = n"
| "handle_sub_frames re ((body, src, dst) # fs) n =
     (case handle_downlink_msdu re body src dst n of
        (True, n') \<Rightarrow> handle_sub_frames re fs n'
      | (False, n') \<Rightarrow> n')"

text \<open>The key ID of a protected frame is read from the wire; \<open>None\<close> rejects the frame.\<close>

definition wire_key_id :: "data_frame \<Rightarrow> u8 option" where
  "wire_key_id f =
     (if protected_flag f
      then (case payload f of
              None \<Rightarrow> None
            | Some body \<Rightarrow>
                (case get_to 8 body of
                   None \<Rightarrow> None
                 | Some iv \<Rightarrow> if iv ! 2 \<noteq> 0 \<or> iv ! 3 AND 0x3f \<noteq> 0x20 then None else Some (drop_bit 6 (iv ! 3))))
      else Some 0)"

definition handle_data_rx ::
  "'n runner_env \<Rightarrow> bytes \<Rightarrow> data_frame \<Rightarrow> ('c, 'k, 'fl, 'q, 'g) sta_tx_rx \<times> 'n \<Rightarrow> ('c, 'k, 'fl, 'q, 'g) sta_tx_rx \<times> 'n" where
  "handle_data_rx re buf f s =
     (let (w, n) = s
      in case (r_destination re f, r_source re f, wire_key_id f, wrapped f) of
           (Some dst, Some src, Some key_id, Some wp) \<Rightarrow>
             (case process_potentially_wrapped_payload (r_multicast re dst) key_id wp w of
                (None, w') \<Rightarrow> (w', n)
              | (Some (Single body), w') \<Rightarrow> (w', snd (handle_downlink_msdu re body src dst n))
              | (Some Amsdu, w') \<Rightarrow> (w', handle_sub_frames re (r_amsdu re buf) n))
         | _ \<Rightarrow> (w, n))"

definition connecting_address :: "('c, 'k, 'fl, 'q, 'g) sta_tx_rx \<Rightarrow> mac_address option" where
  "connecting_address w =
     (case (case router_operation Foreground (router w) of
              Some op \<Rightarrow> Some op | None \<Rightarrow> router_operation Background (router w)) of
        None \<Rightarrow> None
      | Some op \<Rightarrow> connecting_mac_address op)"

text \<open>A unicast frame to another address is dropped, once the station has an address.\<close>

definition wrong_receiver :: "'n runner_env \<Rightarrow> mac_address \<Rightarrow> ('c, 'k, 'fl, 'q, 'g) sta_tx_rx \<Rightarrow> bool" where
  "wrong_receiver re a w \<longleftrightarrow>
     \<not> r_multicast re a \<and>
     (case (case connection_info_of (connection_state w) of
              Some i \<Rightarrow> Some (own_address i) | None \<Rightarrow> connecting_address w) of
        None \<Rightarrow> False
      | Some own \<Rightarrow> own \<noteq> a)"

definition is_data :: "generic_frame \<Rightarrow> bool" where
  "is_data g = (case gf_type g of DataType _ \<Rightarrow> True | _ \<Rightarrow> False)"

definition route_to_router ::
  "('c, 'm, 'k, 'fl, 'q, 'g) sta_env \<Rightarrow> bytes \<Rightarrow> ('c, 'k, 'fl, 'q, 'g) sta_tx_rx \<Rightarrow> ('c, 'k, 'fl, 'q, 'g) sta_tx_rx" where
  "route_to_router e buf w =
     w\<lparr>router := snd (route_frame (e_queue e) sta_router_ops (e_generic e) buf (router w))\<rparr>"

text \<open>One round of \<open>RoutingRunner::run\<close> with the frame it received.\<close>

definition routing_round ::
  "('c, 'm, 'k, 'fl, 'q, 'g) sta_env \<Rightarrow> 'n runner_env \<Rightarrow> bytes \<Rightarrow> ('c, 'k, 'fl, 'q, 'g) sta_tx_rx \<times> 'n \<Rightarrow>
     ('c, 'k, 'fl, 'q, 'g) sta_tx_rx \<times> 'n" where
  "routing_round e re buf s =
     (let (w, n) = s
      in case e_generic e buf of
           None \<Rightarrow> (w, n)
         | Some g \<Rightarrow>
             if wrong_receiver re (gf_address_1 g) w then (w, n)
             else if \<not> in_off_channel_operation e w \<and> off_channel_operation_in_progress (lmac w) then (w, n)
             else if connected (connection_state w) \<and> \<not> is_key_frame (e_parse e) buf \<and> is_data g
             then (case e_parse e buf of
                     None \<Rightarrow> (w, n)
                   | Some f \<Rightarrow> if in_off_channel_operation e w then (w, n) else handle_data_rx re buf f (w, n))
             else (route_to_router e buf w, n))"

section \<open>Replay protection of received data\<close>

text \<open>The replay counter of the key a frame of this kind is checked against.\<close>

definition data_counter :: "bool \<Rightarrow> u8 \<Rightarrow> crypto_state \<Rightarrow> u64 option" where
  "data_counter is_group key_id cs =
     (if is_group then map_option replay_counter (group_key key_id (security_associations cs))
      else if key_id = 0 then Some (replay_counter (ptksa (security_associations cs))) else None)"

lemma update_and_validate_cases:
  "update_and_validate_replay_counter pn k = (ok, k') \<Longrightarrow>
   ok = (replay_counter k < pn) \<and> replay_counter k' = (if ok then pn else replay_counter k)"
  by (auto simp: update_and_validate_replay_counter_def Let_def split: if_splits)

lemma group_key_update:
  assumes "group_key i sa = Some k"
  shows "group_key j (sa\<lparr>group_keys := (group_keys sa)[unat i := Some k']\<rparr>) = (if j = i then Some k' else group_key j sa)"
proof -
  have "unat i < length (group_keys sa)" using assms by (auto simp: group_key_def get_at_def split: option.splits if_splits)
  moreover have "unat i = unat j \<longleftrightarrow> j = i" by (auto simp: word_unat_eq_iff)
  ultimately show ?thesis by (simp add: group_key_def get_at_def nth_list_update)
qed

lemma check_data_packet_number_spec:
  assumes "check_data_packet_number is_group key_id pn cs = (ok, cs')"
  shows "ok = (case data_counter is_group key_id cs of None \<Rightarrow> False | Some c \<Rightarrow> c < pn) \<and>
     data_counter is_group key_id cs' =
       (case data_counter is_group key_id cs of None \<Rightarrow> None | Some c \<Rightarrow> Some (if c < pn then pn else c))"
proof (cases is_group)
  case True
  show ?thesis
  proof (cases "group_key key_id (security_associations cs)")
    case None
    then show ?thesis using assms True by (simp add: check_data_packet_number_def data_counter_def)
  next
    case (Some k)
    obtain k' where U: "update_and_validate_replay_counter pn k = (ok, k')"
      and cs': "cs' = cs\<lparr>security_associations := (security_associations cs)
        \<lparr>group_keys := (group_keys (security_associations cs))[unat key_id := Some k']\<rparr>\<rparr>"
      using assms True Some by (auto simp: check_data_packet_number_def Let_def split: prod.splits)
    show ?thesis using update_and_validate_cases [OF U] cs' True Some group_key_update [OF Some]
      by (simp add: data_counter_def)
  qed
next
  case False
  then show ?thesis using assms
    by (cases "update_and_validate_replay_counter pn (ptksa (security_associations cs))")
      (auto simp: check_data_packet_number_def data_counter_def Let_def dest: update_and_validate_cases split: if_splits)
qed

text \<open>A protected frame at or below the counter delivers nothing.\<close>

lemma handle_data_rx_stale:
  assumes "wrapped f = Some (CryptoWrapped pn p)" "wire_key_id f = Some key_id" "r_destination re f = Some dst"
    and "\<And>cs c. crypto w = Some cs \<Longrightarrow> data_counter (r_multicast re dst) key_id cs = Some c \<Longrightarrow> pn \<le> c"
  shows "snd (handle_data_rx re buf f (w, n)) = n"
proof (cases "crypto w")
  case None
  then show ?thesis using assms(1-3)
    by (simp add: handle_data_rx_def process_potentially_wrapped_payload_def map_crypto_state_def split: option.splits)
next
  case (Some cs)
  obtain ok cs' where C: "check_data_packet_number (r_multicast re dst) key_id pn cs = (ok, cs')" by fastforce
  have "\<not> ok" using check_data_packet_number_spec [OF C] assms(4) [OF Some] by (auto split: option.splits)
  then show ?thesis using assms(1-3) Some C
    by (simp add: handle_data_rx_def process_potentially_wrapped_payload_def map_crypto_state_def split: option.splits)
qed

text \<open>Handling a protected frame moves the counter of its key to at least its packet number.\<close>

lemma handle_data_rx_counter:
  assumes "wrapped f = Some (CryptoWrapped pn p)" "wire_key_id f = Some key_id"
    "r_destination re f = Some dst" "r_source re f = Some src"
    and "handle_data_rx re buf f (w, n) = (w', n')" "crypto w' = Some cs'" "data_counter (r_multicast re dst) key_id cs' = Some c"
  shows "pn \<le> c"
proof (cases "crypto w")
  case None
  then show ?thesis using assms
    by (auto simp: handle_data_rx_def process_potentially_wrapped_payload_def map_crypto_state_def)
next
  case (Some cs)
  obtain ok cs1 where C: "check_data_packet_number (r_multicast re dst) key_id pn cs = (ok, cs1)" by fastforce
  have "crypto w' = Some cs1"
    using assms(1-5) Some C
    by (cases ok; cases p) (auto simp: handle_data_rx_def process_potentially_wrapped_payload_def map_crypto_state_def)
  then show ?thesis using check_data_packet_number_spec [OF C] assms(6,7) by (auto split: option.splits)
qed

section \<open>EAPOL replies\<close>

lemma check_packet_number_spec:
  assumes "check_packet_number pn cs = (fresh, cs')"
  shows "message3_replay cs' = message3_replay cs" "gkeys cs' = gkeys cs"
    "active_group_id (security_associations cs') = active_group_id (security_associations cs)"
    "last_group_message cs' = last_group_message cs" "crypto_slots cs' = crypto_slots cs"
    "tk_key (ptksa (security_associations cs')) = tk_key (ptksa (security_associations cs))"
    "packet_number (ptksa (security_associations cs')) = packet_number (ptksa (security_associations cs))"
    "fresh = (case pn of None \<Rightarrow> True | Some n \<Rightarrow> replay_counter (ptksa (security_associations cs)) < n)"
  using assms
  by (auto simp: check_packet_number_def Let_def update_and_validate_replay_counter_def crypto_slots_def
      split: option.splits prod.splits if_splits)

lemma check_packet_number_ok: "check_packet_number pn cs = (fresh, cs') \<Longrightarrow> crypto_ok cs \<Longrightarrow> crypto_ok cs'"
  using check_packet_number_spec [of pn cs fresh cs'] by (simp add: crypto_ok_def group_key_def)

lemma accept_group_message_slots:
  assumes "accept_group_message co msg bss_id cs hw = Inr (r, cs', hw')"
  shows "crypto_slots cs' = crypto_slots cs \<and> key_slot_state hw' = key_slot_state hw"
  using assms
  by (auto simp: accept_group_message_def Let_def crypto_slots_def program_group_key_def
      dest!: set_key_state split: if_splits sum.splits option.splits prod.splits bool.splits)

lemma accept_group_message_counter:
  assumes "accept_group_message co msg bss_id cs hw = Inr (r, cs', hw')" "crypto_ok cs"
  shows "ptksa (security_associations cs') = ptksa (security_associations cs) \<and>
     eapol_counter (message3_replay cs) \<le> eapol_counter (message3_replay cs') \<and>
     (r \<noteq> None \<longrightarrow> eapol_counter (message3_replay cs') = g1_counter msg \<and>
        (eapol_counter (message3_replay cs) < g1_counter msg \<or> last_group_message cs = Some msg))"
proof -
  have len: "length (gkeys cs) = 4" using assms(2) by (simp add: crypto_ok_def keys_ok_def)
  from assms(1) len show ?thesis
  proof (cases rule: accept_group_message_cases)
    case same
    have "r = Some False \<Longrightarrow> g1_counter msg = eapol_counter (message3_replay cs) \<and> last_group_message cs = Some msg"
      using assms(1) same
      by (auto simp: accept_group_message_def Message3Replay_counter_def Message3Replay_advance_def Let_def
          dest!: arg_cong [where f = "\<lambda>c. eapol_counter (message3_replay c)"] split: if_splits sum.splits)
    then show ?thesis using same by (cases r) auto
  qed (simp_all add: less_imp_le)
qed

lemma Message3Replay_accept_Some:
  "Message3Replay_accept parse decode buf scratch kck kek gtk gtk_id own bss_id r = Some (c, r') \<Longrightarrow>
   \<exists>m. decrypt_message_3 parse decode buf scratch kck kek own bss_id = Some m \<and> m3_counter m = c \<and>
     eapol_counter r < c \<and> r' = r\<lparr>eapol_counter := c\<rparr>"
  by (auto simp: Message3Replay_accept_def accept_retry_def not_le split: option.splits if_splits)

text \<open>What a reply to an EAPOL frame means and what it leaves of the keys.\<close>

definition reply_justified where
  "reply_justified e info scratch frame pn cs counter is_group \<longleftrightarrow>
     (case pn of None \<Rightarrow> True | Some n \<Rightarrow> replay_counter (ptksa (security_associations cs)) < n) \<and>
     (\<exists>kck kek. if is_group
        then (\<exists>m. decode_group_message_1 (e_parse e) (e_decode e) frame scratch kck kek (own_address info) (bssid (ci_bss info)) = Some m \<and>
               g1_counter m = counter \<and> (eapol_counter (message3_replay cs) < counter \<or> last_group_message cs = Some m))
        else (\<exists>m. decrypt_message_3 (e_parse e) (e_decode e) frame scratch kck kek (own_address info) (bssid (ci_bss info)) = Some m \<and>
               m3_counter m = counter \<and> eapol_counter (message3_replay cs) < counter))"

definition keys_kept where
  "keys_kept cs cs' \<longleftrightarrow>
     crypto_slots cs' = crypto_slots cs \<and>
     tk_key (ptksa (security_associations cs')) = tk_key (ptksa (security_associations cs)) \<and>
     packet_number (ptksa (security_associations cs')) = packet_number (ptksa (security_associations cs)) \<and>
     eapol_counter (message3_replay cs) \<le> eapol_counter (message3_replay cs')"

lemma reply_to_eapol_cases:
  assumes "reply_to_eapol e info scratch frame pn cs hw = Inr (reply, cs', hw')"
  obtains (none) "reply = None" "cs' = cs" "hw' = hw"
    | (checked) fresh where "check_packet_number pn cs = (fresh, cs')" "reply = None" "hw' = hw"
    | (group) kck kek cs1 m r where "check_packet_number pn cs = (True, cs1)"
        "decode_group_message_1 (e_parse e) (e_decode e) frame scratch kck kek (own_address info) (bssid (ci_bss info)) = Some m"
        "accept_group_message (e_crypto e) m (bssid (ci_bss info)) cs1 hw = Inr (r, cs', hw')"
        "reply = (case r of None \<Rightarrow> None | Some _ \<Rightarrow> Some (kck, replicate 32 0, g1_counter m, True))"
    | (retry) kck kek cs1 m where "check_packet_number pn cs = (True, cs1)"
        "decrypt_message_3 (e_parse e) (e_decode e) frame scratch kck kek (own_address info) (bssid (ci_bss info)) = Some m"
        "eapol_counter (message3_replay cs1) < m3_counter m" "hw' = hw"
        "cs' = cs1\<lparr>message3_replay := (message3_replay cs1)\<lparr>eapol_counter := m3_counter m\<rparr>\<rparr>"
        "reply = Some (kck, supplicant_nonce (message3_replay cs1), m3_counter m, False)"
proof -
  obtain fresh cs1 where C: "check_packet_number pn cs = (fresh, cs1)" by fastforce
  let ?sa = "security_associations cs"
  show thesis
  proof (cases "e_partition e (tk_key (ptksa ?sa)) (akm_suite ?sa) (sa_cipher_suite ?sa)")
    case None
    then show ?thesis using assms none by (simp add: reply_to_eapol_def)
  next
    case (Some ks)
    obtain kck kek t where ks: "ks = (kck, kek, t)" by (cases ks)
    note D = assms [unfolded reply_to_eapol_def, simplified Let_def Some ks C, simplified]
    consider "length kck \<noteq> 16 \<or> length kek \<noteq> 16" | "length kck = 16" "length kek = 16" "\<not> fresh"
      | "length kck = 16" "length kek = 16" "fresh" "is_group_message (e_parse e) frame info"
      | "length kck = 16" "length kek = 16" "fresh" "\<not> is_group_message (e_parse e) frame info"
      by blast
    then show ?thesis
    proof cases
      case 1
      then show ?thesis using D none by auto
    next
      case 2
      then show ?thesis using D C checked by simp
    next
      case 3
      then show ?thesis using D C checked group
        by (auto split: option.splits sum.splits prod.splits)
    next
      case 4
      then show ?thesis using D C checked retry
        by (fastforce dest: Message3Replay_accept_Some split: option.splits sum.splits prod.splits)
    qed
  qed
qed

lemma reply_to_eapol_spec:
  assumes run: "reply_to_eapol e info scratch frame pn cs hw = Inr (reply, cs', hw')" and ok: "crypto_ok cs"
  shows "crypto_ok cs' \<and> keys_kept cs cs' \<and> key_slot_state hw' = key_slot_state hw \<and>
     (\<forall>kck nonce counter g. reply = Some (kck, nonce, counter, g) \<longrightarrow>
        reply_justified e info scratch frame pn cs counter g \<and> eapol_counter (message3_replay cs') = counter)"
  using run
proof (cases rule: reply_to_eapol_cases)
  case none
  then show ?thesis using ok by (simp add: keys_kept_def)
next
  case (checked fresh)
  then show ?thesis using check_packet_number_ok [OF checked(1) ok] check_packet_number_spec [OF checked(1)]
    by (simp add: keys_kept_def)
next
  case (group kck kek cs1 m r)
  note C = check_packet_number_spec [OF group(1)]
  have ok1: "crypto_ok cs1" by (rule check_packet_number_ok [OF group(1) ok])
  note A = accept_group_message_slots [OF group(3)] accept_group_message_counter [OF group(3) ok1]
    accept_group_message_ok [OF ok1 group(3)]
  have "crypto_ok cs' \<and> keys_kept cs cs' \<and> key_slot_state hw' = key_slot_state hw"
    using A C by (simp add: keys_kept_def)
  moreover have "reply_justified e info scratch frame pn cs counter g \<and> eapol_counter (message3_replay cs') = counter"
    if "reply = Some (kck', nonce, counter, g)" for kck' nonce counter g
  proof -
    from that group(4) have r: "r \<noteq> None" "g" "counter = g1_counter m" by (auto split: option.splits)
    then show ?thesis using A(2) C group(2) unfolding reply_justified_def by auto
  qed
  ultimately show ?thesis by blast
next
  case (retry kck kek cs1 m)
  note C = check_packet_number_spec [OF retry(1)]
  have ok1: "crypto_ok cs1" by (rule check_packet_number_ok [OF retry(1) ok])
  have "crypto_ok cs' \<and> keys_kept cs cs' \<and> key_slot_state hw' = key_slot_state hw"
    using ok1 C retry(3,4,5) by (simp add: keys_kept_def crypto_ok_def crypto_slots_def less_imp_le)
  moreover have "reply_justified e info scratch frame pn cs (m3_counter m) False"
    using C retry(2,3) unfolding reply_justified_def by auto
  ultimately show ?thesis using retry(5,6) by simp
qed

section \<open>Packet numbers of one key\<close>

fun frame_packet_number :: "sta_frame \<Rightarrow> u64 option" where
  "frame_packet_number (EapolFrame _ _ _ (Some (pn, _)) _) = Some pn"
| "frame_packet_number (DataOut _ _ _ (Some (pn, _)) _) = Some pn"
| "frame_packet_number _ = None"

definition protected_pns :: "sta_frame list \<Rightarrow> u64 list" where
  "protected_pns fs = List.map_filter frame_packet_number fs"

lemma protected_pns_simps [simp]:
  "protected_pns [] = []" "protected_pns (fs @ gs) = protected_pns fs @ protected_pns gs"
  "protected_pns [f] = (case frame_packet_number f of None \<Rightarrow> [] | Some pn \<Rightarrow> [pn])"
  by (simp_all add: protected_pns_def List.map_filter_def split: option.splits)

abbreviation ptk_of :: "crypto_state \<Rightarrow> tksa" where
  "ptk_of cs \<equiv> ptksa (security_associations cs)"

text \<open>A step that keeps the keys: it uses no packet number, or the next one at most once.\<close>

definition pn_step :: "('c, 'k, 'fl, 'q, 'g) sta_tx_rx \<Rightarrow> ('c, 'k, 'fl, 'q, 'g) sta_tx_rx \<Rightarrow> bool" where
  "pn_step w w' \<longleftrightarrow>
     (\<exists>fs. sent w' = sent w @ fs \<and>
        (case (crypto w, crypto w') of
           (None, None) \<Rightarrow> protected_pns fs = []
         | (Some cs, Some cs') \<Rightarrow>
             (crypto_ok cs \<longrightarrow> crypto_ok cs') \<and>
             crypto_slots cs' = crypto_slots cs \<and> tk_key (ptk_of cs') = tk_key (ptk_of cs) \<and>
             (packet_number (ptk_of cs') = packet_number (ptk_of cs) \<and> protected_pns fs = [] \<or>
              packet_number (ptk_of cs') = packet_number (ptk_of cs) + 1 \<and>
              protected_pns fs \<in> {[], [packet_number (ptk_of cs)]})
         | _ \<Rightarrow> False))"

lemma pn_step_same: "sent w' = sent w \<Longrightarrow> crypto w' = crypto w \<Longrightarrow> pn_step w w'"
  by (auto simp: pn_step_def split: option.splits)

lemma pn_step_clear: "sent w' = sent w @ [f] \<Longrightarrow> frame_packet_number f = None \<Longrightarrow> crypto w' = crypto w \<Longrightarrow> pn_step w w'"
  by (auto simp: pn_step_def intro!: exI [of _ "[f]"] split: option.splits)

lemma pn_step_keys:
  assumes "crypto w = Some cs" "crypto w1 = Some cs1" "sent w1 = sent w" "keys_kept cs cs1" "crypto_ok cs1" "pn_step w1 w'"
  shows "pn_step w w'"
  using assms by (auto simp: pn_step_def keys_kept_def split: option.splits)

lemma clear_eapol_pn [simp]: "frame_packet_number (clear_eapol e b own out) = None"
  by (simp add: clear_eapol_def)

lemma send_message_4_pn_step:
  "send_message_4 e bss_id own kck n counter c w = Some (x, w') \<Longrightarrow> pn_step w w'"
  by (auto simp: send_message_4_def send_pairwise bind_op_def transmit_op_def update_op_def end_op_def transmit_frame_def
      intro!: pn_step_clear)

lemma take_packet_number_spec:
  "fst (take_packet_number cs) = (packet_number (ptk_of cs), key_slot (ptk_key_slot cs))"
  "crypto_slots (snd (take_packet_number cs)) = crypto_slots cs"
  "tk_key (ptk_of (snd (take_packet_number cs))) = tk_key (ptk_of cs)"
  "packet_number (ptk_of (snd (take_packet_number cs))) = packet_number (ptk_of cs) + 1"
  "message3_replay (snd (take_packet_number cs)) = message3_replay cs"
  "crypto_ok (snd (take_packet_number cs)) = crypto_ok cs"
  by (simp_all add: take_packet_number_def next_packet_number_def Let_def crypto_slots_def crypto_ok_def group_key_def)

text \<open>A message of the group handshake takes the next packet number and goes out protected, if at all.\<close>

lemma send_protected_cases:
  assumes "send_eapol_key_frame e bss_id own out c w = Some (x, w')" "\<not> is_pairwise (eo_key_information out)"
  obtains (no_keys) "crypto w = None" "w' = w"
    | (unsent) cs where "crypto w = Some cs" "w' = w\<lparr>crypto := Some (snd (take_packet_number cs))\<rparr>"
    | (sent) cs d where "crypto w = Some cs"
        "w' = transmit_frame (EapolFrame bss_id own out
           (Some (packet_number (ptk_of cs), key_slot (ptk_key_slot cs))) d) (w\<lparr>crypto := Some (snd (take_packet_number cs))\<rparr>)"
proof (cases "crypto w")
  case None
  then have "w' = w" using assms
    by (auto simp: send_eapol_key_frame_def bind_op_def reserve_packet_number_def
        map_crypto_state_def split: prod.splits)
  then show ?thesis using None no_keys by simp
next
  case (Some cs)
  let ?w1 = "w\<lparr>crypto := Some (snd (take_packet_number cs))\<rparr>"
  have R: "reserve_packet_number w = Some (Done (packet_number (ptk_of cs), key_slot (ptk_key_slot cs)), ?w1)"
    using Some take_packet_number_spec(1) [of cs]
    by (cases "take_packet_number cs") (simp add: reserve_packet_number_def map_crypto_state_def)
  obtain buf len where S: "e_serialize_eapol e bss_id own out = (buf, len)" by fastforce
  have "w' = ?w1 \<or> (\<exists>d. w' = transmit_frame (EapolFrame bss_id own out
      (Some (packet_number (ptk_of cs), key_slot (ptk_key_slot cs))) d) ?w1)"
    using assms S
    by (auto simp: send_eapol_key_frame_def bind_op_def R transmit_op_def update_op_def end_op_def
        split: option.splits prod.splits)
  then show ?thesis using Some unsent sent by blast
qed

lemma group_messages_protected [simp]:
  "\<not> is_pairwise (eo_key_information (group_message_2_out kck counter))"
  "\<not> is_pairwise (eo_key_information (group_request_out kck counter))"
  by (simp_all add: is_pairwise_def group_message_2_out_def group_request_out_def)

lemmas send_group_message_2_cases = send_protected_cases [OF _ group_messages_protected(1), folded send_group_message_2_def]
  and send_group_request_cases = send_protected_cases [OF _ group_messages_protected(2), folded send_group_request_def]

lemma send_protected_pn_step:
  assumes "send_eapol_key_frame e bss_id own out c w = Some (x, w')" "\<not> is_pairwise (eo_key_information out)"
  shows "pn_step w w'"
  using assms
  by (cases rule: send_protected_cases) (auto simp: pn_step_def transmit_frame_def take_packet_number_spec split: option.splits)

text \<open>What EAPOL replies leave alone.\<close>

lemma keeps_send_eapol [keeps_intros]:
  assumes "\<And>f w. part (transmit_frame f w) = part w" "\<And>cs w. part (w\<lparr>crypto := cs\<rparr>) = part w"
  shows "keeps part (send_eapol_key_frame e bss_id own out c)"
proof -
  have "keeps part reserve_packet_number"
    by (rule keepsI) (auto simp: reserve_packet_number_def map_crypto_state_def assms split: option.splits prod.splits)
  moreover have "keeps part (transmit_op f)" for f
    unfolding transmit_op_def by (intro keeps_intros assms)
  ultimately show ?thesis
    unfolding send_eapol_key_frame_def
    by (auto simp: split_beta intro!: keeps_intros split: option.splits)
qed

lemma ignore_result_Some: "ignore_result m w = Some (x, w') \<Longrightarrow> \<exists>y. m w = Some (y, w')"
  by (auto simp: ignore_result_def split: option.splits ending.splits prod.splits)

lemma send_eapol_reply_effect:
  assumes "send_eapol_reply e info reply c w = Some (x, w')"
  shows "pn_step w w' \<and> (lmac w', key_hw w', router w') = (lmac w, key_hw w, router w)"
proof (cases reply)
  case None
  then show ?thesis using assms by (auto simp: send_eapol_reply_def pn_step_same)
next
  case (Some r)
  obtain kck nonce counter g where r: "r = (kck, nonce, counter, g)" by (cases r)
  let ?part = "\<lambda>w. (lmac w, key_hw w, router w)"
  obtain y where y: "(if g then send_group_message_2 e (bssid (ci_bss info)) (own_address info) kck counter c
      else send_message_4 e (bssid (ci_bss info)) (own_address info) kck nonce counter c) w = Some (y, w')"
    using assms Some r ignore_result_Some by (fastforce simp: send_eapol_reply_def)
  have "keeps ?part (send_group_message_2 e (bssid (ci_bss info)) (own_address info) kck counter c)"
    "keeps ?part (send_message_4 e (bssid (ci_bss info)) (own_address info) kck nonce counter c)"
    unfolding send_group_message_2_def send_message_4_def
    by (intro keeps_intros; simp add: transmit_frame_def)+
  note K = this [THEN keepsD, of w y w']
  show ?thesis
  proof (cases g)
    case True
    then show ?thesis using y K(1) send_protected_pn_step [of e] by (fastforce simp: send_group_message_2_def)
  next
    case False
    then show ?thesis using y K(2) send_message_4_pn_step by fastforce
  qed
qed

section \<open>The invariant of a station\<close>

definition sta_inv where
  "sta_inv e w \<longleftrightarrow>
     locks_ok (e_interfaces e) (locks (lmac w)) \<and>
     owned_slots w \<subseteq> slots_held (e_key_slots e) (key_hw w) \<and>
     (\<forall>cs. crypto w = Some cs \<longrightarrow> crypto_ok cs \<and> length (crypto_slots cs) = 5 \<and> distinct (map key_slot (crypto_slots cs))) \<and>
     router_operation Foreground (router w) = None"

lemma sta_inv_step:
  assumes "sta_inv e w" "pn_step w w'" "locks_ok (e_interfaces e) (locks (lmac w'))"
    and "key_slot_state (key_hw w') = key_slot_state (key_hw w)"
    and "router_operation Foreground (router w') = router_operation Foreground (router w)"
  shows "sta_inv e w'"
proof (cases "crypto w")
  case None
  then have "crypto w' = None" using assms(2) by (auto simp: pn_step_def split: option.splits)
  then show ?thesis using assms None by (simp add: sta_inv_def owned_slots_def)
next
  case (Some cs)
  then obtain cs' where cs': "crypto w' = Some cs'" "crypto_ok cs \<longrightarrow> crypto_ok cs'" "crypto_slots cs' = crypto_slots cs"
    using assms(2) by (auto simp: pn_step_def split: option.splits)
  then have "owned_slots w' = owned_slots w" using Some by (simp add: owned_slots_def)
  then show ?thesis using assms Some cs' slots_held_cong [OF assms(4)] by (simp add: sta_inv_def)
qed

lemma handle_eapol_retry_effect:
  assumes inv: "sta_inv e w" and run: "handle_eapol_retry e info scratch buf c w = Some (x, w')"
  shows "pn_step w w' \<and> lmac w' = lmac w \<and> router w' = router w \<and> key_slot_state (key_hw w') = key_slot_state (key_hw w)"
proof (cases "w' = w")
  case True
  then show ?thesis by (simp add: pn_step_same)
next
  case False
  then obtain buf' len pn cs reply cs' hw' where cs: "crypto w = Some cs"
    and R: "reply_to_eapol e info scratch (take len buf') pn cs (key_hw w) = Inr (reply, cs', hw')"
    and S: "send_eapol_reply e info reply c (w\<lparr>crypto := Some cs', key_hw := hw'\<rparr>) = Some (x, w')"
    using run by (auto simp: handle_eapol_retry_def split: option.splits sum.splits)
  have "crypto_ok cs" using inv cs by (simp add: sta_inv_def)
  note P = reply_to_eapol_spec [OF R this]
  note E = send_eapol_reply_effect [OF S]
  have "pn_step w w'"
    by (rule pn_step_keys [OF cs, of "w\<lparr>crypto := Some cs', key_hw := hw'\<rparr>" cs']) (use P E in simp_all)
  then show ?thesis using E P by simp
qed

end
