(* ===== verification/Sta_Run.thy ===== *)
theory Sta_Run
  imports Sta_Runner
begin

text \<open>
  Runs of a station: the rounds of its runners and the calls of its user in any order, with the
  invariant they keep, and the properties of the runners.
\<close>

section \<open>Effects of the rounds\<close>

definition round_effect where
  "round_effect e w w' \<longleftrightarrow>
     pn_step w w' \<and> key_slot_state (key_hw w') = key_slot_state (key_hw w) \<and>
     router_operation Foreground (router w') = router_operation Foreground (router w) \<and>
     (locks_ok (e_interfaces e) (locks (lmac w)) \<longrightarrow> locks_ok (e_interfaces e) (locks (lmac w')))"

lemma round_effect_inv: "round_effect e w w' \<Longrightarrow> sta_inv e w \<Longrightarrow> sta_inv e w'"
  by (rule sta_inv_step) (auto simp: round_effect_def sta_inv_def)

lemma pn_step_refl [simp]: "pn_step w w"
  by (simp add: pn_step_same)

lemma round_effect_refl [simp]: "round_effect e w w"
  by (simp add: round_effect_def pn_step_same)

lemma router_receive_operation:
  "router_receive ch q r = Some (f, r') \<Longrightarrow> router_operation p r' = router_operation p r"
  by (auto simp: router_receive_def split: option.splits)

lemma route_frame_operation:
  "router_operation p (snd (route_frame ch ro generic f r)) = router_operation p r"
  by (auto simp: route_frame_def split: option.splits)

lemma deauthenticate_fields [simp]:
  "lmac (deauthenticate b s t r w) = lmac w" "key_hw (deauthenticate b s t r w) = key_hw w"
  "router (deauthenticate b s t r w) = router w" "crypto (deauthenticate b s t r w) = crypto w"
  "connection_state (deauthenticate b s t r w) = connection_state w" "filters (deauthenticate b s t r w) = filters w"
  by (simp_all add: deauthenticate_def transmit_frame_def split_beta)

lemma deauthenticate_pn_step: "pn_step w (deauthenticate b s t r w)"
proof (rule pn_step_clear)
  show "sent (deauthenticate b s t r w) =
      sent w @ [Deauth (if t then b else s) (if t then s else b) b r]"
    by (simp add: deauthenticate_def transmit_frame_def)
qed simp_all

lemma handle_bg_frame_effect:
  assumes inv: "sta_inv e w" and run: "handle_bg_frame e re info scratch c f w = (rd, w', reset)"
  shows "round_effect e w w'"
proof (cases "w' = w")
  case False
  then obtain x where "handle_eapol_retry e info scratch f c w = Some (x, w')"
    using run by (auto simp: handle_bg_frame_def split: if_splits option.splits ending.splits connection_rx_event.splits prod.splits)
  from handle_eapol_retry_effect [OF inv this] show ?thesis by (simp add: round_effect_def)
qed simp

lemma run_connection_round_effect:
  assumes inv: "sta_inv e w"
    and run: "run_connection_round e re watch_get wt info scratch now c (l, rs, w) = (rd, l', rs', w')"
  shows "round_effect e w w'"
proof (cases "\<not> awaiting_completion l \<and> wait_for_request (rs ! e_iface e) = Pending")
  case False
  then have "w' = w" using run
    by (cases "wait_for_request (rs ! e_iface e)")
      (auto simp: run_connection_round_def Let_def split: poll.splits if_splits)
  then show ?thesis by simp
next
  case True
  show ?thesis
  proof (cases "router_receive (e_queue e) Background (router w)")
    case None
    then have "w' = w \<or> w' = deauthenticate (bssid (ci_bss info)) (own_address info) True OfdmMbits6 w"
      using run True by (auto simp: run_connection_round_def Let_def split: option.splits if_splits)
    then show ?thesis using deauthenticate_pn_step [of w] by (auto simp: round_effect_def)
  next
    case (Some fr)
    obtain f r where fr: "fr = (f, r)" by (cases fr)
    let ?w = "w\<lparr>router := r\<rparr>"
    note op = router_receive_operation [OF Some [unfolded fr]]
    have "round_effect e w ?w" using op by (simp add: round_effect_def pn_step_same)
    then have "sta_inv e ?w" using round_effect_inv inv by blast
    moreover obtain reset where "handle_bg_frame e re info scratch c f ?w = (rd, w', reset)"
      using run True Some fr by (auto simp: run_connection_round_def Let_def split: prod.splits)
    ultimately have "round_effect e ?w w'" by (rule handle_bg_frame_effect)
    then show ?thesis using op by (simp add: round_effect_def pn_step_def)
  qed
qed

lemma take_tx_crypto_spec:
  "take_tx_crypto cs = ((pn, i, slot), cs') \<Longrightarrow>
   pn = packet_number (ptk_of cs) \<and> i = tk_key_id (ptk_of cs) \<and> slot = key_slot (ptk_key_slot cs) \<and>
   crypto_slots cs' = crypto_slots cs \<and> tk_key (ptk_of cs') = tk_key (ptk_of cs) \<and>
   packet_number (ptk_of cs') = packet_number (ptk_of cs) + 1 \<and> crypto_ok cs' = crypto_ok cs"
  by (auto simp: take_tx_crypto_def next_packet_number_def Let_def crypto_slots_def crypto_ok_def group_key_def)

lemma run_msdu_tx_round_effect:
  assumes "run_msdu_tx_round e re watch info (w, n) = (rd, w', n')"
  shows "round_effect e w w'"
proof (cases "crypto w")
  case None
  then have "w' = w \<or> (\<exists>dst m. w' = transmit_frame (DataOut (bssid (ci_bss info)) (own_address info) dst None m) w)"
    using assms by (auto simp: run_msdu_tx_round_def map_crypto_state_def split: option.splits if_splits prod.splits)
  then show ?thesis by (auto simp: round_effect_def transmit_frame_def intro: pn_step_clear)
next
  case (Some cs)
  obtain pn i slot cs' where T: "take_tx_crypto cs = ((pn, i, slot), cs')" by (metis prod.exhaust)
  let ?w1 = "w\<lparr>crypto := Some cs'\<rparr>"
  have "w' = w \<or> w' = ?w1 \<or>
      (\<exists>dst m. w' = transmit_frame (DataOut (bssid (ci_bss info)) (own_address info) dst (Some (pn, i, slot)) m) ?w1)"
    using assms Some T
    by (auto simp: run_msdu_tx_round_def map_crypto_state_def split: option.splits if_splits prod.splits)
  then show ?thesis using Some take_tx_crypto_spec [OF T]
    by (auto simp: round_effect_def pn_step_def transmit_frame_def)
qed

lemma check_data_packet_number_keys:
  assumes "check_data_packet_number is_group key_id pn cs = (ok, cs')"
  shows "crypto_slots cs' = crypto_slots cs \<and> tk_key (ptk_of cs') = tk_key (ptk_of cs) \<and>
     packet_number (ptk_of cs') = packet_number (ptk_of cs) \<and> (crypto_ok cs \<longrightarrow> crypto_ok cs')"
proof (cases is_group)
  case False
  then show ?thesis using assms
    by (auto simp: check_data_packet_number_def Let_def crypto_slots_def update_and_validate_replay_counter_def
        crypto_ok_def group_key_def split: if_splits)
next
  case True
  show ?thesis
  proof (cases "group_key key_id (security_associations cs)")
    case None
    then show ?thesis using assms True by (simp add: check_data_packet_number_def)
  next
    case (Some k)
    obtain k' where U: "update_and_validate_replay_counter pn k = (ok, k')"
      and cs': "cs' = cs\<lparr>security_associations := (security_associations cs)\<lparr>group_keys := (gkeys cs)[unat key_id := Some k']\<rparr>\<rparr>"
      using assms True Some by (auto simp: check_data_packet_number_def Let_def split: prod.splits)
    have "unat key_id < length (gkeys cs)" "gkeys cs ! unat key_id = Some k"
      using Some by (auto simp: group_key_def get_at_def split: option.splits if_splits)
    then have "crypto_ok cs \<longrightarrow> crypto_ok cs'"
      using group_data_ok [of cs "unat key_id" k k'] update_and_validate_same [OF U] cs' by blast
    then show ?thesis by (simp add: cs' crypto_slots_def)
  qed
qed

lemma process_payload_effect:
  assumes "process_potentially_wrapped_payload is_group key_id wp w = (p, w')"
  shows "pn_step w w' \<and> w' = w\<lparr>crypto := crypto w'\<rparr>"
proof (cases wp)
  case (Unwrapped q)
  then show ?thesis using assms by (simp add: process_potentially_wrapped_payload_def)
next
  case (CryptoWrapped pn q)
  show ?thesis
  proof (cases "crypto w")
    case None
    then show ?thesis using assms CryptoWrapped by (simp add: process_potentially_wrapped_payload_def map_crypto_state_def)
  next
    case (Some cs)
    obtain ok cs' where C: "check_data_packet_number is_group key_id pn cs = (ok, cs')" by fastforce
    then have "w' = w\<lparr>crypto := Some cs'\<rparr>"
      using assms CryptoWrapped Some
      by (cases ok) (simp_all add: process_potentially_wrapped_payload_def map_crypto_state_def)
    then show ?thesis using check_data_packet_number_keys [OF C] Some by (simp add: pn_step_def)
  qed
qed

lemma handle_data_rx_effect:
  assumes "handle_data_rx re buf f (w, n) = (w', n')"
  shows "round_effect e w w' \<and> w' = w\<lparr>crypto := crypto w'\<rparr>"
proof (cases "w' = w")
  case False
  then obtain g i wp p where "process_potentially_wrapped_payload g i wp w = (p, w')"
    using assms by (auto simp: handle_data_rx_def split: option.splits prod.splits data_payload.splits)
  then have "pn_step w w'" "w' = w\<lparr>crypto := crypto w'\<rparr>" using process_payload_effect by blast+
  moreover have "key_hw w' = key_hw w" "router w' = router w" "lmac w' = lmac w"
    by (subst calculation(2), simp)+
  ultimately show ?thesis by (simp add: round_effect_def)
qed simp

lemma routing_round_effect:
  assumes "routing_round e re buf (w, n) = (w', n')"
  shows "round_effect e w w'"
proof -
  consider "w' = w" | f where "handle_data_rx re buf f (w, n) = (w', n')" | "w' = route_to_router e buf w"
    using assms by (auto simp: routing_round_def split: option.splits if_splits)
  then show ?thesis
  proof cases
    case 2
    then show ?thesis using handle_data_rx_effect [OF 2, of e] by simp
  next
    case 3
    then show ?thesis by (simp add: round_effect_def route_to_router_def route_frame_operation pn_step_same)
  qed simp
qed

lemma unlock_channel_ok:
  "locks_ok I (locks cs) \<Longrightarrow> i < I \<Longrightarrow> locks_ok I (locks (unlock_channel I i cs))"
  using unlock_channel_locks(1) by (simp add: unlock_channel_def unlock_channel_internal_def)

lemma teardown_effect:
  assumes "e_iface e < e_interfaces e" "teardown e re reason (w, n) = (w', n')"
  shows "round_effect e w w'"
  using assms(2) unlock_channel_ok [OF _ assms(1)]
  by (auto simp: teardown_def Let_def round_effect_def clear_filter_def reset_phy_rate_def intro: pn_step_same)

lemma disconnect_internal_fields [simp]:
  "lmac (disconnect_internal e i w) = lmac w" "key_hw (disconnect_internal e i w) = key_hw w"
  "router (disconnect_internal e i w) = router w" "crypto (disconnect_internal e i w) = crypto w"
  "filters (disconnect_internal e i w) = filters w"
  by (simp_all add: disconnect_internal_def reset_phy_rate_def Let_def)

lemma disconnect_internal_pn_step: "pn_step w (disconnect_internal e i w)"
  using deauthenticate_pn_step
    [of "reset_phy_rate (w\<lparr>connection_state := signal_state (e_signal e) (Disconnected User) (connection_state w)\<rparr>)"]
  by (simp add: disconnect_internal_def reset_phy_rate_def pn_step_def)

lemma disconnect_effect:
  assumes "e_iface e < e_interfaces e" "disconnect e c = (r, c')"
  shows "round_effect e (sta c) (sta c')"
proof (cases "connection_info_of (connection_state (sta c))")
  case None
  then show ?thesis using assms(2) by (simp add: disconnect_def)
next
  case (Some i)
  let ?w = "(sta c)\<lparr>lmac := unlock_channel (e_interfaces e) (e_iface e) (lmac (sta c))\<rparr>"
  have "sta c' = disconnect_internal e i ?w" using assms(2) Some by (auto simp: disconnect_def Let_def)
  moreover have "pn_step (sta c) (disconnect_internal e i ?w)"
    using disconnect_internal_pn_step [of ?w e i] by (simp add: pn_step_def)
  ultimately show ?thesis using unlock_channel_ok [OF _ assms(1)] by (auto simp: round_effect_def)
qed

section \<open>Runs without a new connection\<close>

text \<open>A request for a new group key.\<close>

lemma take_group_request_spec:
  assumes "take_group_request e cs = (r, cs')"
  shows "cs' = cs\<lparr>group_request_counter := group_request_counter cs + (if r = None then 0 else 1)\<rparr>"
    "r = Some (kck, counter) \<Longrightarrow> counter = group_request_counter cs \<and> length kck = 16 \<and> counter < - 1"
  using assms by (auto simp: take_group_request_def Let_def word_order.not_eq_extremum split: option.splits if_splits)

lemma request_group_rekey_effect:
  assumes inv: "sta_inv e (sta c)" and run: "request_group_rekey e d c = Some (r, c')"
  shows "round_effect e (sta c) (sta c')"
proof (cases "connection_info_of (connection_state (sta c)) = None \<or> crypto (sta c) = None")
  case True
  then have "sta c' = sta c" using run by (auto simp: request_group_rekey_def map_crypto_state_def split: option.splits)
  then show ?thesis by simp
next
  case False
  then obtain info cs where c: "connection_info_of (connection_state (sta c)) = Some info" "crypto (sta c) = Some cs" by auto
  obtain q cs1 where q: "take_group_request e cs = (q, cs1)" by fastforce
  let ?w = "(sta c)\<lparr>crypto := Some cs1\<rparr>"
  have cs1: "keys_kept cs cs1" "crypto_ok cs1"
    using inv c(2) by (simp_all add: take_group_request_spec(1) [OF q] keys_kept_def crypto_slots_def sta_inv_def crypto_ok_def)
  have start: "pn_step (sta c) w'" if "pn_step ?w w'" for w'
    by (rule pn_step_keys [OF c(2) _ _ cs1 that]) simp_all
  consider "sta c' = ?w" | kck counter where
      "send_group_request e (bssid (ci_bss info)) (own_address info) kck counter d ?w = Some (r, sta c')"
    using run c q by (auto simp: request_group_rekey_def map_crypto_state_def split: option.splits)
  then show ?thesis
  proof cases
    case 1
    then show ?thesis using start [of ?w] by (simp add: round_effect_def pn_step_same)
  next
    case 2
    then have "pn_step ?w (sta c')" unfolding send_group_request_def by (rule send_protected_pn_step) simp
    moreover have "keeps (\<lambda>w. (lmac w, key_hw w, router w)) (send_group_request e (bssid (ci_bss info)) (own_address info) kck counter d)"
      unfolding send_group_request_def by (intro keeps_intros; simp add: transmit_frame_def)
    from keepsD [OF this 2] have "lmac (sta c') = lmac (sta c)" "key_hw (sta c') = key_hw (sta c)" "router (sta c') = router (sta c)"
      by simp_all
    ultimately show ?thesis using start by (simp add: round_effect_def)
  qed
qed

text \<open>A round of a runner, the wait for a change of the connection state, or a call of the user
  that keeps the keys.\<close>

inductive station_round ::
  "('c, 'm, 'k, 'fl, 'q, 'g) sta_env \<Rightarrow> 'n runner_env \<Rightarrow> ('wt \<Rightarrow> unit poll) \<Rightarrow>
     ('c, 'k, 'fl, 'q, 'g) sta_tx_rx \<Rightarrow> ('c, 'k, 'fl, 'q, 'g) sta_tx_rx \<Rightarrow> bool"
  for e re watch_get where
  round_connection: "run_connection_round e re watch_get wt info scratch now c (l, rs, w) = (rd, l', rs', w') \<Longrightarrow>
     station_round e re watch_get w w'"
| round_msdu: "run_msdu_tx_round e re watch info (w, n) = (rd, w', n') \<Longrightarrow> station_round e re watch_get w w'"
| round_routing: "routing_round e re buf (w, n) = (w', n') \<Longrightarrow> station_round e re watch_get w w'"
| round_teardown: "teardown e re reason (w, n) = (w', n') \<Longrightarrow> station_round e re watch_get w w'"
| round_disconnect: "disconnect e c = (r, c') \<Longrightarrow> station_round e re watch_get (sta c) (sta c')"
| round_rekey: "request_group_rekey e d c = Some (r, c') \<Longrightarrow> station_round e re watch_get (sta c) (sta c')"
| round_rate: "station_round e re watch_get w (set_phy_rate rate w)"
| round_signal: "station_round e re watch_get w (w\<lparr>connection_state := (connection_state w)\<lparr>state_changed := sg\<rparr>\<rparr>)"

lemma station_round_effect:
  assumes "e_iface e < e_interfaces e"
  shows "station_round e re watch_get w w' \<Longrightarrow> sta_inv e w \<Longrightarrow> round_effect e w w'"
proof (induction rule: station_round.induct)
  case round_connection
  then show ?case by (blast intro: run_connection_round_effect)
next
  case round_msdu
  then show ?case by (blast intro: run_msdu_tx_round_effect)
next
  case round_routing
  then show ?case by (blast intro: routing_round_effect)
next
  case round_teardown
  then show ?case by (blast intro: teardown_effect [OF assms])
next
  case round_disconnect
  then show ?case by (blast intro: disconnect_effect [OF assms])
next
  case round_rekey
  then show ?case by (blast intro: request_group_rekey_effect)
next
  case (round_rate w rate)
  then show ?case by (simp add: round_effect_def set_phy_rate_def pn_step_same)
next
  case (round_signal w sg)
  then show ?case by (simp add: round_effect_def pn_step_same)
qed

lemma station_rounds_inv:
  assumes "e_iface e < e_interfaces e"
  shows "(station_round e re watch_get ^^ k) w w' \<Longrightarrow> sta_inv e w \<Longrightarrow> sta_inv e w'"
proof (induction k arbitrary: w')
  case 0
  then show ?case by simp
next
  case (Suc k)
  then obtain v where "(station_round e re watch_get ^^ k) w v" "station_round e re watch_get v w'" by auto
  then show ?case using Suc station_round_effect [OF assms] round_effect_inv by blast
qed

lemma unat_Suc_word: "unat (p :: u64) + 1 < 2 ^ 64 \<Longrightarrow> unat (p + 1) = unat p + 1"
  by (simp add: unat_word_ariths)

text \<open>After \<open>k\<close> rounds the packet numbers used are increasing, from the first one on and below
  the current one.\<close>

lemma station_rounds_pns:
  assumes "e_iface e < e_interfaces e" "sta_inv e w" "crypto w = Some cs"
  shows "(station_round e re watch_get ^^ k) w w' \<Longrightarrow> unat (packet_number (ptk_of cs)) + k < 2 ^ 64 \<Longrightarrow>
     \<exists>fs cs'. sent w' = sent w @ fs \<and> crypto w' = Some cs' \<and> tk_key (ptk_of cs') = tk_key (ptk_of cs) \<and>
       sorted_wrt (<) (protected_pns fs) \<and>
       (\<forall>pn \<in> set (protected_pns fs). packet_number (ptk_of cs) \<le> pn \<and> pn < packet_number (ptk_of cs')) \<and>
       unat (packet_number (ptk_of cs)) \<le> unat (packet_number (ptk_of cs')) \<and>
       unat (packet_number (ptk_of cs')) \<le> unat (packet_number (ptk_of cs)) + k"
proof (induction k arbitrary: w')
  case 0
  then show ?case using assms(3) by auto
next
  case (Suc k)
  from Suc.prems(1) obtain v where v: "(station_round e re watch_get ^^ k) w v" "station_round e re watch_get v w'" by auto
  from Suc.IH [OF v(1)] Suc.prems(2) obtain fs cs1 where IH: "sent v = sent w @ fs" "crypto v = Some cs1"
    "tk_key (ptk_of cs1) = tk_key (ptk_of cs)" "sorted_wrt (<) (protected_pns fs)"
    "\<forall>pn \<in> set (protected_pns fs). packet_number (ptk_of cs) \<le> pn \<and> pn < packet_number (ptk_of cs1)"
    "unat (packet_number (ptk_of cs)) \<le> unat (packet_number (ptk_of cs1))"
    "unat (packet_number (ptk_of cs1)) \<le> unat (packet_number (ptk_of cs)) + k" by auto
  let ?p = "packet_number (ptk_of cs)" and ?p1 = "packet_number (ptk_of cs1)"
  have "sta_inv e v" using station_rounds_inv [OF assms(1) v(1) assms(2)] .
  then have "pn_step v w'" using station_round_effect [OF assms(1) v(2)] by (simp add: round_effect_def)
  then obtain gs cs' where S: "sent w' = sent v @ gs" "crypto w' = Some cs'" "tk_key (ptk_of cs') = tk_key (ptk_of cs1)"
    "packet_number (ptk_of cs') = ?p1 \<and> protected_pns gs = [] \<or>
     packet_number (ptk_of cs') = ?p1 + 1 \<and> protected_pns gs \<in> {[], [?p1]}"
    using IH(2) by (auto simp: pn_step_def split: option.splits)
  have next_pn: "unat (?p1 + 1) = unat ?p1 + 1" using IH(7) Suc.prems(2) by (intro unat_Suc_word) linarith
  then have lt: "?p1 < ?p1 + 1" by (simp add: word_less_nat_alt)
  have le: "?p \<le> ?p1" using IH(6) by (simp add: word_le_nat_alt)
  show ?case
  proof (intro exI conjI)
    show "sent w' = sent w @ (fs @ gs)" using IH(1) S(1) by simp
    show "crypto w' = Some cs'" by (rule S(2))
    show "tk_key (ptk_of cs') = tk_key (ptk_of cs)" using S(3) IH(3) by simp
    show "sorted_wrt (<) (protected_pns (fs @ gs))" using IH(4,5) S(4) by (auto simp: sorted_wrt_append)
    show "\<forall>pn \<in> set (protected_pns (fs @ gs)). ?p \<le> pn \<and> pn < packet_number (ptk_of cs')"
      using IH(5) S(4) lt le by (auto intro: order.strict_trans)
    show "unat ?p \<le> unat (packet_number (ptk_of cs'))" using IH(6) S(4) next_pn by auto
    show "unat (packet_number (ptk_of cs')) \<le> unat ?p + Suc k" using IH(7) S(4) next_pn by auto
  qed
qed

section \<open>All runs of a station\<close>

lemma scan_loop_locks:
  assumes "scan_loop ro beacon cb air chs continuous n res cs s = Some y"
  shows "locks (fst (snd y)) = locks cs"
  apply (rule scan_loop.raw_induct [OF _ assms, where P = "\<lambda>ro beacon cb air chs continuous n res cs s y.
    locks (fst (snd y)) = locks cs"])
  subgoal premises p for rec ro beacon cb air chs continuous n res cs s y
  proof -
    obtain x cs' s' where c: "scan_channels ro beacon cb air chs n cs s = (x, cs', s')" by (metis prod_cases3)
    have "locks (fst (snd y)) = locks cs'"
      using p(2) c by (cases x) (auto simp: Let_def split: if_splits dest: p(1))
    then show ?thesis using scan_channels_locks [OF c] by simp
  qed
  done

lemma scan_effect:
  assumes "channel_driver valid current ro"
    and "Scan.scan ro mode watch_send sg beacon cb air cfg continuous now (Inr op) q r cs wt s = Some (res, r', cs', wt', s')"
  shows "locks cs' = locks cs \<and> r' = scoped_operation_drop sg q r"
proof -
  obtain res2 cs2 s2 where L: "scan_loop ro beacon cb air (strategy_channels now (strategy (case cfg of None \<Rightarrow> ScanConfig_default | Some c \<Rightarrow> c)))
      continuous 0 None (OffChannelOperation_set_scanning_mode ro (op_interface op) mode cs) s = Some (res2, cs2, s2)"
    and D: "OffChannelOperation_drop ro watch_send op (cs2, wt) = (cs', wt')" and r': "r' = scoped_operation_drop sg q r"
    using assms(2) by (auto simp: Scan.scan_def Let_def split: option.splits prod.splits)
  have "locks cs' = locks cs2" using OffChannelOperation_drop_fields(1) [OF assms(1) D] .
  then show ?thesis using scan_loop_locks [OF L] r' by (simp add: OffChannelOperation_set_scanning_mode_def)
qed

text \<open>
  \<open>run_others\<close> is what the other interfaces of the radio may do with the state they share: they
  keep the shape of the locks, and they release key slots of their own only. A scan starts its
  operations first; the three rules for scans are about scans that started. The map of found
  networks is a list of entries.
\<close>

definition scan_started where
  "scan_started e c su cs rt \<longleftrightarrow>
     start_operation sta_router_ops (e_signal e) Foreground Scanning (router (sta c)) = (Ready (), rt) \<and>
     locks cs = locks (lmac (sta c)) \<and> (\<exists>op. scan_began su = Inr op)"

inductive station_run ::
  "('c, 'm, 'k, 'fl, 'q, 'g) sta_env \<Rightarrow> 'n runner_env \<Rightarrow> ('wt \<Rightarrow> unit poll) \<Rightarrow>
     ('c, 'k, 'fl, 'q, 'g) sta_control \<Rightarrow> ('c, 'k, 'fl, 'q, 'g) sta_control \<Rightarrow> bool"
  for e re watch_get c0 where
  run_new: "station_run e re watch_get c0 c0"
| run_round: "station_run e re watch_get c0 c \<Longrightarrow> station_round e re watch_get (sta c) w \<Longrightarrow>
     station_run e re watch_get c0 (c\<lparr>sta := w\<rparr>)"
| run_connect: "station_run e re watch_get c0 c \<Longrightarrow> connect e b cfg creds scratch a c = Some (x, c') \<Longrightarrow>
     x = Done () \<or> x = Failed err \<Longrightarrow> station_run e re watch_get c0 c'"
| run_address: "station_run e re watch_get c0 c \<Longrightarrow> set_mac_address m c = (r, c') \<Longrightarrow> station_run e re watch_get c0 c'"
| run_find: "station_run e re watch_get c0 c \<Longrightarrow> scan_started e c su cs rt \<Longrightarrow>
     find_ess e (su :: ('m, 'wt, bytes) scan_setup) cfg network wt (c\<lparr>sta := (sta c)\<lparr>router := rt, lmac := cs\<rparr>\<rparr>) = Some (fres, wt', c') \<Longrightarrow>
     station_run e re watch_get c0 c'"
| run_scan: "station_run e re watch_get c0 c \<Longrightarrow> scan_started e c su cs rt \<Longrightarrow>
     sta_scan e (su :: ('m, 'wt, bytes) scan_setup) cap im cfg wt (found :: (mac_address \<times> bss) list)
       (c\<lparr>sta := (sta c)\<lparr>router := rt, lmac := cs\<rparr>\<rparr>) = Some (res, wt', found', c') \<Longrightarrow>
     station_run e re watch_get c0 c'"
| run_scan_continuously: "station_run e re watch_get c0 c \<Longrightarrow> scan_started e c su cs rt \<Longrightarrow>
     sta_scan_continuously e (su :: ('m, 'wt, bytes) scan_setup) cb cfg wt known
       (c\<lparr>sta := (sta c)\<lparr>router := rt, lmac := cs\<rparr>\<rparr>) = Some (res, wt', known', c') \<Longrightarrow>
     station_run e re watch_get c0 c'"
| run_others: "station_run e re watch_get c0 c \<Longrightarrow> locks_ok (e_interfaces e) (locks cs) \<Longrightarrow>
     owned_slots (sta c) \<subseteq> slots_held (e_key_slots e) hw \<Longrightarrow>
     station_run e re watch_get c0 (c\<lparr>sta := (sta c)\<lparr>lmac := cs, key_hw := hw\<rparr>\<rparr>)"

lemma control_scan_inv:
  assumes env: "sta_env_ok valid current view installed e" and inv: "sta_inv e (sta c)"
    and start: "scan_started e c su cs rt"
    and run: "control_scan e su cb cfg continuous wt s (c\<lparr>sta := (sta c)\<lparr>router := rt, lmac := cs\<rparr>\<rparr>) = Some (res, wt', s', c')"
  shows "sta_inv e (sta c')"
proof -
  let ?w = "(sta c)\<lparr>router := rt, lmac := cs\<rparr>"
  obtain op where op: "scan_began su = Inr op" "locks cs = locks (lmac (sta c))" using start by (auto simp: scan_started_def)
  obtain r' cs' where S: "Scan.scan (e_radio e) (scan_mode su) (watch_sender su) (e_signal e) (parse_beacon su) cb (scan_air su) cfg
             continuous (current_channel su) (Inr op) Foreground rt cs wt s = Some (res, r', cs', wt', s')"
    and c': "sta c' = ?w\<lparr>router := r', lmac := cs'\<rparr>"
    using run op by (auto simp: control_scan_def split: option.splits prod.splits)
  have "locks cs' = locks cs" "router_operation Foreground r' = None"
    using scan_effect [OF sta_env_okD(1) [OF env] S] by (simp_all add: router_step_defs)
  then show ?thesis using inv op(2) c' by (simp add: sta_inv_def owned_slots_def)
qed

lemma connect_checks_effect:
  assumes "connect_checks e b creds w = Inr w'"
  shows "round_effect e w w'"
proof (cases "connection_info_of (connection_state w)")
  case None
  then show ?thesis using assms
    by (auto simp: connect_checks_def round_effect_def reset_phy_rate_def pn_step_same split: if_splits)
next
  case (Some i)
  then have "w' = reset_phy_rate (disconnect_internal e i w)"
    using assms by (auto simp: connect_checks_def split: if_splits)
  then show ?thesis using disconnect_internal_pn_step [of w e i]
    by (simp add: round_effect_def reset_phy_rate_def pn_step_def)
qed

lemma connection_run_inv:
  assumes env: "sta_env_ok valid current view installed e" and inv: "sta_inv e w"
    and run: "connection_run e cp b scratch a w = Some (x, w')" "\<And>p. x \<noteq> Panicked p"
  shows "sta_inv e w'"
proof (cases x)
  case (Panicked p)
  then show ?thesis using run(2) by blast
next
  case (Failed err)
  have "attempt_undone view e w w'"
    using connection_run_Failed [OF env _ _ run(1) [unfolded Failed]] inv by (simp add: sta_inv_def)
  then show ?thesis using inv by (simp add: sta_inv_def attempt_undone_def owned_slots_def)
next
  case (Done i)
  have pre: "locks_ok (e_interfaces e) (locks (lmac w))" "router_operation Foreground (router w) = None"
    "owned_slots w \<subseteq> slots_held (e_key_slots e) (key_hw w)"
    using inv by (simp_all add: sta_inv_def)
  from env pre run(1) [unfolded Done] show ?thesis
  proof (cases rule: connection_run_Done)
    case (clear w2)
    then show ?thesis using inv
      by (auto simp: sta_inv_def attempt_ready_def owned_slots_def router_step_defs)
  next
    case (protected gs sa m3r cs w2 k w3 w4)
    let ?H = "slots_held (e_key_slots e)"
    have R: "key_slot ` set gs \<subseteq> {..<e_key_slots e} - ?H (key_hw w)" "?H (key_hw w2) = ?H (key_hw w) \<union> key_slot ` set gs"
      "distinct (map key_slot gs)" "locks_ok (e_interfaces e) (locks (lmac w2))"
      using protected(2) by (simp_all add: attempt_ready_def)
    have "lmac w' = lmac w2" "router_operation Foreground (router w') = None"
      using arg_cong [OF protected(9), of lmac] arg_cong [OF protected(9), of router] by (simp_all add: router_step_defs)
    moreover have "owned_slots w' \<subseteq> ?H (key_hw w')"
      using protected(4,7,10) R(1,2) pre(3) by (auto simp: owned_slots_def)
    ultimately show ?thesis using protected(4,7,8) R(3,4) do_4whs_crypto_ok [OF protected(3,5)]
      by (simp add: sta_inv_def)
  qed
qed

lemma connect_inv:
  assumes env: "sta_env_ok valid current view installed e" and inv: "sta_inv e (sta c)"
    and run: "connect e b cfg creds scratch a c = Some (x, c')" "x = Done () \<or> x = Failed err"
  shows "sta_inv e (sta c')"
proof (cases "connect_checks e b creds (sta c)")
  case (Inl err')
  then show ?thesis using run inv by (auto simp: connect_def)
next
  case (Inr w)
  let ?cp = "connect_parameters c cfg creds"
  have w: "sta_inv e w" using round_effect_inv [OF connect_checks_effect [OF Inr] inv] .
  obtain y w1 where C: "connection_run e ?cp b scratch a w = Some (y, w1)"
    using run(1) Inr by (cases "connection_run e ?cp b scratch a w") (auto simp: connect_def)
  have y: "y \<noteq> Panicked p" for p using run Inr C by (auto simp: connect_def)
  have "sta c' = w1 \<or> (\<exists>i. sta c' = signal_connected e b ?cp i w1)"
    using run(1) Inr C y by (cases y) (auto simp: connect_def)
  moreover have "sta_inv e w1" using connection_run_inv [OF env w C y] .
  ultimately show ?thesis by (auto simp: sta_inv_def signal_connected_def owned_slots_def)
qed

lemma find_ess_scan:
  "find_ess e su cfg network wt c = Some (r, wt', c') \<Longrightarrow>
   \<exists>res s'. control_scan e su (search_cb network (frame_rssi su)) cfg False wt () c = Some (res, wt', s', c')"
  by (cases "control_scan e su (search_cb network (frame_rssi su)) cfg False wt () c")
    (auto simp: find_ess_def split: sum.splits option.splits)

lemma sta_scan_scan:
  "sta_scan e su cap im cfg wt found c = Some (r, wt', found', c') \<Longrightarrow>
   \<exists>res. control_scan e su (enumerate_cb cap im (frame_rssi su)) cfg False wt found c = Some (res, wt', found', c')"
  by (cases "control_scan e su (enumerate_cb cap im (frame_rssi su)) cfg False wt found c")
    (auto simp: sta_scan_def split: sum.splits)

lemma sta_scan_continuously_scan:
  "sta_scan_continuously e su cb cfg wt known c = Some (r, wt', known', c') \<Longrightarrow>
   \<exists>res. control_scan e su (continuous_cb cb (frame_rssi su)) cfg True wt known c = Some (res, wt', known', c')"
  by (cases "control_scan e su (continuous_cb cb (frame_rssi su)) cfg True wt known c")
    (auto simp: sta_scan_continuously_def split: sum.splits)

lemma station_run_inv:
  assumes env: "sta_env_ok valid current view installed e"
  shows "station_run e re watch_get c0 c \<Longrightarrow> sta_inv e (sta c0) \<Longrightarrow> sta_inv e (sta c)"
proof (induction rule: station_run.induct)
  case run_new
  then show ?case .
next
  case (run_round c w)
  then show ?case using station_round_effect [OF sta_env_okD(6) [OF env]] round_effect_inv by fastforce
next
  case (run_connect c b cfg creds scratch a x c' err)
  then show ?case using connect_inv [OF env] by blast
next
  case (run_address c m r c')
  then show ?case by (auto simp: set_mac_address_def split: if_splits)
next
  case (run_find c su cs rt cfg network wt fres wt' c')
  from find_ess_scan [OF run_find.hyps(3)] obtain res s2 where C: "control_scan e su (search_cb network (frame_rssi su)) cfg False wt ()
      (c\<lparr>sta := (sta c)\<lparr>router := rt, lmac := cs\<rparr>\<rparr>) = Some (res, wt', s2, c')"
    by blast
  show ?case by (rule control_scan_inv [OF env run_find.IH [OF run_find.prems] run_find.hyps(2) C])
next
  case (run_scan c su cs rt cap im cfg wt found res wt' found' c')
  from sta_scan_scan [OF run_scan.hyps(3)] obtain res2 where C: "control_scan e su (enumerate_cb cap im (frame_rssi su)) cfg False wt found
      (c\<lparr>sta := (sta c)\<lparr>router := rt, lmac := cs\<rparr>\<rparr>) = Some (res2, wt', found', c')"
    by blast
  show ?case by (rule control_scan_inv [OF env run_scan.IH [OF run_scan.prems] run_scan.hyps(2) C])
next
  case (run_scan_continuously c su cs rt cb cfg wt known res wt' known' c')
  from sta_scan_continuously_scan [OF run_scan_continuously.hyps(3)] obtain res2 where C: "control_scan e su (continuous_cb cb (frame_rssi su)) cfg True wt known
      (c\<lparr>sta := (sta c)\<lparr>router := rt, lmac := cs\<rparr>\<rparr>) = Some (res2, wt', known', c')"
    by blast
  show ?case by (rule control_scan_inv [OF env run_scan_continuously.IH [OF run_scan_continuously.prems] run_scan_continuously.hyps(2) C])
next
  case (run_others c cs hw)
  have "owned_slots ((sta c)\<lparr>lmac := cs, key_hw := hw\<rparr>) = owned_slots (sta c)" by (simp add: owned_slots_def)
  moreover have "sta_inv e (sta c)" using run_others.IH run_others.prems by blast
  ultimately show ?case using run_others.hyps(2,3) by (simp add: sta_inv_def)
qed

section \<open>Properties\<close>

text \<open>Plain codecs, for the witnesses.\<close>

definition demo_runner :: "(bytes list \<times> bytes list) runner_env" where
  "demo_runner =
     \<lparr>r_net = list_net, r_multicast = (\<lambda>a. a = [255]), r_destination = (\<lambda>f. Some (address_1 f)),
      r_source = (\<lambda>f. Some (address_3 f)), r_amsdu = (\<lambda>_. []), r_llc = (\<lambda>b. Some (0, b)),
      r_write_ethernet = (\<lambda>_ _ _ b. Some b), r_parse_ethernet = (\<lambda>b. if b = [] then None else Some ([3], 0, b)),
      r_crypto_header = (\<lambda>_ _. True), r_write_data = (\<lambda>_ _ _ _ b _. Some b),
      r_management = (\<lambda>f. if f = [1] then Some Beacon else if f = [2] then Some Deauthentication else None)\<rparr>"

lemma demo_runner_simps [simp]:
  "r_net demo_runner = list_net" "r_multicast demo_runner a = (a = [255])" "r_destination demo_runner f = Some (address_1 f)"
  "r_source demo_runner f = Some (address_3 f)" "r_llc demo_runner b = Some (0, b)"
  "r_write_ethernet demo_runner a a' i b = Some b" "r_crypto_header demo_runner pn k"
  "r_parse_ethernet demo_runner b = (if b = [] then None else Some ([3], 0, b))"
  "r_write_data demo_runner a1 a2 a3 i b x = Some b"
  by (simp_all add: demo_runner_def)

definition demo_info :: connection_info where
  "demo_info = \<lparr>ci_bss = demo_bss, own_address = [1], aid = 1, connection_config = ConnectionConfig_default\<rparr>"

text \<open>The demo station, connected, with the keys of \<open>demo_crypto\<close> in its first five slots.\<close>

definition keyed_crypto :: crypto_state where
  "keyed_crypto = demo_crypto\<lparr>gtk_key_slots := map (\<lambda>i. \<lparr>guard_slot = i, guard_interface = 0\<rparr>) [0, 1, 2, 3]\<rparr>"

definition keyed_station :: "(u8, nat set, filter_bank \<Rightarrow> mac_address option, bytes list, bool) sta_tx_rx" where
  "keyed_station = demo_station\<lparr>crypto := Some keyed_crypto, key_hw := \<lparr>key_slot_state = - 32, crypto_controller = {0, 4}\<rparr>,
     connection_state := signal_state latch (Connected demo_info) (connection_state demo_station)\<rparr>"

lemma keyed_station_inv: "sta_inv demo_env keyed_station"
proof -
  have "crypto_ok keyed_crypto" using demo_crypto_ok by (simp add: keyed_crypto_def crypto_ok_def)
  moreover have "slots_held 6 \<lparr>key_slot_state = - 32, crypto_controller = {0, 4 :: nat}\<rparr> = {0, 1, 2, 3, 4}"
    by (auto simp: slots_held_def less_Suc_eq numeral_eq_Suc)
  ultimately show ?thesis using demo_station_ok(1,2)
    by (simp add: sta_inv_def keyed_station_def owned_slots_def crypto_slots_def keyed_crypto_def demo_crypto_def key_slot_def
        demo_env_def)
qed

lemma new_interface_inv:
  assumes "new_sta_interface e base (ChannelState_new ch) (KeySlotManager_new hw) fl = Inr c0"
  shows "sta_inv e (sta c0)"
  using assms by (auto simp: new_sta_interface_def sta_inv_def StaResources_new_def ChannelState_new_def locks_ok_def
      owned_slots_def RxRouter_new_def QueueState_new_def router_operation_def queue_state_of_def split: sum.splits)

text \<open>
  C5: a station is well-formed at all times. Whatever its user calls, its runners do, the air
  delivers and the other interfaces do with the shared state, the channel locks keep their shape,
  the router has no operation of the user left between two calls, and the installed keys satisfy
  their invariant and sit in five different key slots the station holds.
\<close>

theorem station_wellformed:
  assumes "sta_env_ok valid current view installed e" "station_run e re watch_get c0 c"
    and "new_sta_interface e base (ChannelState_new ch) (KeySlotManager_new hw) fl = Inr c0"
  shows "locks_ok (e_interfaces e) (locks (lmac (sta c))) \<and> router_operation Foreground (router (sta c)) = None \<and>
     (\<forall>cs. crypto (sta c) = Some cs \<longrightarrow> crypto_ok cs \<and> length (crypto_slots cs) = 5 \<and>
        distinct (map key_slot (crypto_slots cs)) \<and>
        key_slot ` set (crypto_slots cs) \<subseteq> slots_held (e_key_slots e) (key_hw (sta c)))"
proof -
  have "sta_inv e (sta c0)" by (rule new_interface_inv [OF assms(3)])
  from station_run_inv [OF assms(1,2) this] show ?thesis by (auto simp: sta_inv_def owned_slots_def)
qed

lemma demo_interface:
  "new_sta_interface demo_env [0, 0, 0, 0, 0, 1] (ChannelState_new 1) (KeySlotManager_new {}) (\<lambda>_. None) =
     Inr \<lparr>ctl_mac_address = [0, 0, 0, 0, 0, 1], sta = demo_station\<rparr>"
  by (simp add: new_sta_interface_def get_factory_mac_for_interface_def demo_station_def demo_env_def)

lemma demo_address:
  "set_mac_address [1] \<lparr>ctl_mac_address = [0, 0, 0, 0, 0, 1], sta = demo_station\<rparr> = (Inr (), \<lparr>ctl_mac_address = [1], sta = demo_station\<rparr>)"
  by (simp add: set_mac_address_def demo_station_def StaResources_new_def ConnectionStateTracker_new_def connection_info_of_def)

lemma demo_connects:
  "\<exists>c. connect demo_env demo_bss None (Some (Passphrase ''secret'')) 64 demo_air \<lparr>ctl_mac_address = [1], sta = demo_station\<rparr> =
     Some (Done (), c)"
proof -
  let ?c1 = "\<lparr>ctl_mac_address = [1], sta = demo_station\<rparr>"
  have p: "connect_parameters ?c1 None (Some (Passphrase ''secret'')) = demo_parameters"
    by (simp add: connect_parameters_def demo_parameters_def)
  have "connect_checks demo_env demo_bss (Some (Passphrase ''secret'')) demo_station = Inr demo_station"
    by (simp add: connect_checks_def demo_station_def StaResources_new_def ConnectionStateTracker_new_def
        connection_info_of_def reset_phy_rate_def)
  then show ?thesis using demo_run p by (auto simp: connect_def)
qed

theorem station_wellformed_witness:
  "\<exists>c. connect demo_env demo_bss None (Some (Passphrase ''secret'')) 64 demo_air
         \<lparr>ctl_mac_address = [1], sta = demo_station\<rparr> = Some (Done (), c) \<and>
     (\<forall>cs. crypto (sta c) = Some cs \<longrightarrow> crypto_ok cs \<and> length (crypto_slots cs) = 5)"
proof -
  let ?c0 = "\<lparr>ctl_mac_address = [0, 0, 0, 0, 0, 1], sta = demo_station\<rparr>" and ?c1 = "\<lparr>ctl_mac_address = [1], sta = demo_station\<rparr>"
  obtain c where c: "connect demo_env demo_bss None (Some (Passphrase ''secret'')) 64 demo_air ?c1 = Some (Done (), c)"
    using demo_connects by blast
  have "station_run demo_env demo_runner (\<lambda>_ :: unit. Pending) ?c0 c"
    by (rule run_connect [OF run_address [OF run_new demo_address] c]) simp
  from station_wellformed [OF demo_env_ok this demo_interface] c show ?thesis by blast
qed

text \<open>
  C1: no packet number is used twice with one key. Over any rounds of the runners and calls of
  the user that keep the connection's keys, the protected frames the station sends, data frames
  and replies of the group key handshake alike, carry strictly increasing packet numbers from the
  key's current one on, as long as the 64-bit counter does not wrap.
\<close>

theorem packet_numbers_unique:
  assumes "e_iface e < e_interfaces e" "sta_inv e w" "crypto w = Some cs"
    and "(station_round e re watch_get ^^ k) w w'" "unat (packet_number (ptk_of cs)) + k < 2 ^ 64"
  shows "\<exists>fs cs'. sent w' = sent w @ fs \<and> crypto w' = Some cs' \<and> tk_key (ptk_of cs') = tk_key (ptk_of cs) \<and>
     sorted_wrt (<) (protected_pns fs) \<and> (\<forall>pn \<in> set (protected_pns fs). packet_number (ptk_of cs) \<le> pn)"
  using station_rounds_pns [OF assms] by blast

theorem packet_numbers_unique_witness:
  "\<exists>w' fs. run_msdu_tx_round demo_env demo_runner Pending demo_info (keyed_station, [[8]], []) = (Again, w', [], []) \<and>
     sent w' = sent keyed_station @ fs \<and> sorted_wrt (<) (protected_pns fs)"
proof -
  have c: "crypto keyed_station = Some keyed_crypto" by (simp add: keyed_station_def)
  have pn: "packet_number (ptk_of keyed_crypto) = 1" by (simp add: keyed_crypto_def demo_crypto_def TKSA_new_def)
  have "off_channel_operation_interface (lmac keyed_station) = None"
    by (simp add: keyed_station_def demo_station_def StaResources_new_def ChannelState_new_def)
  then obtain w' where r: "run_msdu_tx_round demo_env demo_runner Pending demo_info (keyed_station, [[8]], []) = (Again, w', [], [])"
    using c by (cases "take_tx_crypto keyed_crypto")
      (auto simp: run_msdu_tx_round_def list_net_def in_off_channel_operation_def map_crypto_state_def)
  have "(station_round demo_env demo_runner (\<lambda>_ :: unit. Pending) ^^ 1) keyed_station w'"
    using round_msdu [OF r, of "\<lambda>_ :: unit. Pending"] by (simp add: relcompp_apply)
  from packet_numbers_unique [OF _ keyed_station_inv c this] pn r show ?thesis by (auto simp: demo_env_def)
qed


definition demo_data :: data_frame where
  "demo_data = \<lparr>address_1 = [1], address_2 = [2], address_3 = [3], from_ds = True, to_ds = False, protected_flag = True,
     header_length = 24, payload = Some [7, 0, 0, 0x20, 0, 0, 0, 0, 9], wrapped = Some (CryptoWrapped 7 (Single [9]))\<rparr>"

lemma demo_data_key: "wire_key_id demo_data = Some 0"
  by (simp add: wire_key_id_def demo_data_def slice_defs)

lemma demo_data_fields:
  "wrapped demo_data = Some (CryptoWrapped 7 (Single [9]))" "r_destination demo_runner demo_data = Some [1]"
  "r_source demo_runner demo_data = Some [3]"
  by (simp_all add: demo_data_def)

lemma demo_data_delivered: "\<exists>w'. handle_data_rx demo_runner buf demo_data (keyed_station, [], []) = (w', [], [[9]])"
proof -
  have "fst (check_data_packet_number False 0 7 keyed_crypto)"
    by (simp add: check_data_packet_number_def update_and_validate_replay_counter_def keyed_crypto_def demo_crypto_def
        TKSA_new_def Let_def word_less_nat_alt)
  then show ?thesis
    by (cases "check_data_packet_number False 0 7 keyed_crypto")
      (simp add: handle_data_rx_def demo_data_fields demo_data_key process_potentially_wrapped_payload_def map_crypto_state_def
        keyed_station_def handle_downlink_msdu_def list_net_def del: demo_runner_simps(3,4))
qed


end
