(* ===== verification/Sta_Traffic.thy ===== *)
theory Sta_Traffic
  imports Sta_Run
begin

text \<open>
  What a connected station does with traffic: which received frames reach the network stack, which
  EAPOL frames it answers, how it sends packets, when the connection times out, and what the end
  of a connection leaves behind.
\<close>

section \<open>Received data\<close>

lemma handle_data_rx_delivers:
  assumes "handle_data_rx re buf f (w, n) = (w', n')" "n' \<noteq> n" "wrapped f = Some (CryptoWrapped pn p)"
  shows "\<exists>cs dst key_id c. crypto w = Some cs \<and> r_destination re f = Some dst \<and> wire_key_id f = Some key_id \<and>
     data_counter (r_multicast re dst) key_id cs = Some c \<and> c < pn"
proof -
  obtain dst key_id where d: "r_destination re f = Some dst" "wire_key_id f = Some key_id"
    using assms by (auto simp: handle_data_rx_def split: option.splits)
  have "\<exists>cs c. crypto w = Some cs \<and> data_counter (r_multicast re dst) key_id cs = Some c \<and> c < pn"
  proof (rule ccontr)
    assume "\<not> ?thesis"
    then have "snd (handle_data_rx re buf f (w, n)) = n"
      using handle_data_rx_stale [OF assms(3) d(2,1), of w buf n] by (meson not_less)
    then show False using assms(1,2) by simp
  qed
  then show ?thesis using d by blast
qed


definition data_env where
  "data_env = demo_env\<lparr>e_parse := (\<lambda>b. Some demo_data)\<rparr>"


section \<open>EAPOL replies\<close>

lemma send_eapol_reply_sent:
  assumes "send_eapol_reply e info (Some (kck, nonce, counter, g)) c w = Some (x, w')" "sent w' \<noteq> sent w" "crypto w = Some cs"
  shows "\<exists>out enc d. sent w' = sent w @ [EapolFrame (bssid (ci_bss info)) (own_address info) out enc d] \<and>
     eo_replay_counter out = counter \<and> (enc = None \<longleftrightarrow> \<not> g) \<and>
     (\<exists>cs'. crypto w' = Some cs' \<and> message3_replay cs' = message3_replay cs \<and> tk_key (ptk_of cs') = tk_key (ptk_of cs) \<and>
        packet_number (ptk_of cs') = packet_number (ptk_of cs) + (if g then 1 else 0))"
proof (cases g)
  case True
  then obtain y where "send_group_message_2 e (bssid (ci_bss info)) (own_address info) kck counter c w = Some (y, w')"
    using assms(1) ignore_result_Some by (fastforce simp: send_eapol_reply_def)
  then show ?thesis using assms(2,3) True
    by (cases rule: send_group_message_2_cases)
      (auto simp: transmit_frame_def take_packet_number_spec group_message_2_out_def)
next
  case False
  then obtain y where "send_message_4 e (bssid (ci_bss info)) (own_address info) kck nonce counter c w = Some (y, w')"
    using assms(1) ignore_result_Some by (fastforce simp: send_eapol_reply_def)
  then have "w' = transmit_frame (clear_eapol e (bssid (ci_bss info)) (own_address info) (message_4_out kck nonce counter)) w"
    by (auto simp: send_message_4_def send_pairwise bind_op_def transmit_op_def update_op_def end_op_def)
  then show ?thesis using False assms(3) by (simp add: transmit_frame_def clear_eapol_def message_4_out_def)
qed


text \<open>A station that just finished the handshake of the demo, and a frame parser that shows the
  EAPOL payload, for the witness.\<close>

definition retry_parse :: data_parser where
  "retry_parse b = map_option (\<lambda>f. f\<lparr>wrapped := Some (Unwrapped (Single (EAPOL_LLC @ b)))\<rparr>) (demo_parse b)"

definition retry_env where
  "retry_env = demo_env\<lparr>e_parse := retry_parse\<rparr>"

definition retry_crypto :: crypto_state where
  "retry_crypto = keyed_crypto\<lparr>message3_replay := Message3Replay_new (replicate 32 0) [5] 4,
     security_associations := (security_associations keyed_crypto)
       \<lparr>group_keys := (replicate 4 None)[unat (1 :: u8) := Some (TKSA_new (replicate 16 1) 1)]\<rparr>\<rparr>"

lemma retry_station_inv: "sta_inv retry_env (keyed_station\<lparr>crypto := Some retry_crypto\<rparr>)"
proof -
  have "keys_ok (gkeys retry_crypto)"
    using single_group_key_ok [of 1 "replicate 16 1"] by (simp add: retry_crypto_def)
  then have "crypto_ok retry_crypto"
    by (simp add: crypto_ok_def retry_crypto_def keyed_crypto_def demo_crypto_def group_key_def get_at_def)
  moreover have "crypto_slots retry_crypto = crypto_slots keyed_crypto" by (simp add: crypto_slots_def retry_crypto_def)
  ultimately show ?thesis using keyed_station_inv
    by (simp add: sta_inv_def owned_slots_def retry_env_def keyed_station_def)
qed

lemma retry_message_3:
  "key_envelope retry_parse demo_m3 [1] [2] g = Some demo_m3"
  "decrypt_message_3 retry_parse (e_decode retry_env) demo_m3 n kck kek [1] [2] =
     (if 16 \<le> n then Some \<lparr>m3_nonce = replicate 32 0, m3_counter = 5, m3_gtk = replicate 16 1, m3_gtk_id = 1\<rparr> else None)"
proof -
  show k: "key_envelope retry_parse demo_m3 [1] [2] g = Some demo_m3" for g
    by (simp add: key_envelope_def retry_parse_def demo_parse_def slice_defs EAPOL_LLC_def demo_m3_def be16_def nth_append)
  have "key_information demo_m3 = 0x13ca" "length demo_m3 = 123"
    by (simp_all add: demo_m3_def key_information_def be16_def)
  then show "decrypt_message_3 retry_parse (e_decode retry_env) demo_m3 n kck kek [1] [2] =
     (if 16 \<le> n then Some \<lparr>m3_nonce = replicate 32 0, m3_counter = 5, m3_gtk = replicate 16 1, m3_gtk_id = 1\<rparr> else None)"
    using k [of False] by (simp add: decrypt_message_3_def key_payload_def retry_env_def demo_env_def)
qed


section \<open>The beacon timeout\<close>

text \<open>The round takes a beacon from the background queue.\<close>

definition takes_beacon where
  "takes_beacon e re l rs w \<longleftrightarrow>
     \<not> awaiting_completion l \<and> wait_for_request (rs ! e_iface e) = Pending \<and>
     (\<exists>f r. router_receive (e_queue e) Background (router w) = Some (f, r) \<and> \<not> is_key_frame (e_parse e) f \<and>
        handle_bg_rx re f = Some BeaconReceived)"

text \<open>
  The rounds of one connection that started at time \<open>t0\<close>, with the time of the last beacon and of
  the last round. Between two rounds anything may happen to the requests and the station.
\<close>

inductive beacon_run ::
  "('c, 'm, 'k, 'fl, 'q, 'g) sta_env \<Rightarrow> 'n runner_env \<Rightarrow> ('wt \<Rightarrow> unit poll) \<Rightarrow> connection_info \<Rightarrow> nat \<Rightarrow>
     connection_loop \<Rightarrow> nat \<Rightarrow> nat \<Rightarrow> bool"
  for e re watch_get info t0 where
  beacon_start: "beacon_run e re watch_get info t0 (run_connection_start t0 info) t0 t0"
| beacon_round: "beacon_run e re watch_get info t0 l seen now \<Longrightarrow> now \<le> now' \<Longrightarrow>
     run_connection_round e re watch_get wt info scratch now' c (l, rs, w) = (rd, l', rs', w') \<Longrightarrow>
     beacon_run e re watch_get info t0 l' (if takes_beacon e re l rs w then now' else seen) now'"

lemma handle_bg_frame_reset:
  "handle_bg_frame e re info scratch c f w = (rd, w', reset) \<Longrightarrow>
   reset = (\<not> is_key_frame (e_parse e) f \<and> handle_bg_rx re f = Some BeaconReceived) \<and> rd \<noteq> Leave BeaconTimeout"
  by (auto simp: handle_bg_frame_def handle_bg_rx_def handle_deauth_def
      split: if_splits option.splits ending.splits management_subtype.splits)

lemma run_connection_round_deadline:
  assumes "run_connection_round e re watch_get wt info scratch now c (l, rs, w) = (rd, l', rs', w')"
  shows "beacon_deadline l' = (if takes_beacon e re l rs w then next_beacon_deadline now info else beacon_deadline l)"
    and "rd = Leave BeaconTimeout \<longleftrightarrow>
      \<not> awaiting_completion l \<and> wait_for_request (rs ! e_iface e) = Pending \<and>
      router_receive (e_queue e) Background (router w) = None \<and> (\<exists>t. beacon_deadline l = Some t \<and> t \<le> now)"
proof -
  consider (waiting) "awaiting_completion l" | (requested) u where "\<not> awaiting_completion l" "wait_for_request (rs ! e_iface e) = Ready u"
    | (empty) "\<not> awaiting_completion l" "wait_for_request (rs ! e_iface e) = Pending"
        "router_receive (e_queue e) Background (router w) = None"
    | (frame) f r where "\<not> awaiting_completion l" "wait_for_request (rs ! e_iface e) = Pending"
        "router_receive (e_queue e) Background (router w) = Some (f, r)"
    by (metis option.exhaust poll.exhaust prod.exhaust)
  then have "beacon_deadline l' = (if takes_beacon e re l rs w then next_beacon_deadline now info else beacon_deadline l) \<and>
    (rd = Leave BeaconTimeout \<longleftrightarrow>
      \<not> awaiting_completion l \<and> wait_for_request (rs ! e_iface e) = Pending \<and>
      router_receive (e_queue e) Background (router w) = None \<and> (\<exists>t. beacon_deadline l = Some t \<and> t \<le> now))"
  proof cases
    case (frame f r)
    obtain reset where H: "handle_bg_frame e re info scratch c f (w\<lparr>router := r\<rparr>) = (rd, w', reset)"
      "l' = (if reset then l\<lparr>beacon_deadline := next_beacon_deadline now info\<rparr> else l)"
      using assms frame by (auto simp: run_connection_round_def Let_def split: prod.splits)
    then show ?thesis using handle_bg_frame_reset [OF H(1)] frame by (simp add: takes_beacon_def)
  qed (use assms in \<open>auto simp: run_connection_round_def takes_beacon_def Let_def split: poll.splits option.splits if_splits\<close>)
  then show "beacon_deadline l' = (if takes_beacon e re l rs w then next_beacon_deadline now info else beacon_deadline l)"
    and "rd = Leave BeaconTimeout \<longleftrightarrow>
      \<not> awaiting_completion l \<and> wait_for_request (rs ! e_iface e) = Pending \<and>
      router_receive (e_queue e) Background (router w) = None \<and> (\<exists>t. beacon_deadline l = Some t \<and> t \<le> now)"
    by blast+
qed

lemma beacon_run_deadline:
  "beacon_run e re watch_get info t0 l seen now \<Longrightarrow> beacon_deadline l = next_beacon_deadline seen info \<and> seen \<le> now"
proof (induction rule: beacon_run.induct)
  case beacon_start
  then show ?case by (simp add: run_connection_start_def)
next
  case (beacon_round l seen now now' wt scratch c rs w rd l' rs' w')
  then show ?case using run_connection_round_deadline(1) [OF beacon_round.hyps(3)] by auto
qed

text \<open>
  C14: the connection times out exactly when the beacons stop. A round leaves the connection with a
  beacon timeout if and only if the configuration has a timeout, at least that long has passed
  since the last beacon (or since the connection started), and neither an off-channel request nor
  a received frame is waiting; so a station without beacons always leaves once its queue is empty.
\<close>

theorem beacon_timeout_exact:
  assumes "beacon_run e re watch_get info t0 l seen now" "now \<le> now'"
    and "run_connection_round e re watch_get wt info scratch now' c (l, rs, w) = (rd, l', rs', w')"
  shows "rd = Leave BeaconTimeout \<longleftrightarrow>
     (\<exists>d. beacon_timeout (connection_config info) = Some d \<and> seen + d \<le> now') \<and>
     \<not> awaiting_completion l \<and> wait_for_request (rs ! e_iface e) = Pending \<and>
     router_receive (e_queue e) Background (router w) = None"
  using run_connection_round_deadline(2) [OF assms(3)] beacon_run_deadline [OF assms(1)]
  by (auto simp: next_beacon_deadline_def)

theorem beacon_timeout_exact_witness:
  "fst (run_connection_round demo_env demo_runner (\<lambda>_ :: unit. Pending) () demo_info 64 3000000 None
     (run_connection_start 0 demo_info, [NotRequested, NotRequested], keyed_station)) = Leave BeaconTimeout"
proof -
  let ?l = "run_connection_start 0 demo_info" and ?rs = "[NotRequested, NotRequested]"
  obtain rd l' rs' w' where r: "run_connection_round demo_env demo_runner (\<lambda>_ :: unit. Pending) () demo_info 64 3000000 None
      (?l, ?rs, keyed_station) = (rd, l', rs', w')" by (metis prod_cases4)
  have "router_receive (e_queue demo_env) Background (router keyed_station) = None"
    by (simp add: router_receive_def keyed_station_def demo_station_def StaResources_new_def RxRouter_new_def QueueState_new_def
        queue_state_of_def demo_env_def list_channel_def)
  moreover have "beacon_timeout (connection_config demo_info) = Some 3000000"
    by (simp add: demo_info_def ConnectionConfig_default_def)
  moreover have "\<not> awaiting_completion ?l" "wait_for_request (?rs ! e_iface demo_env) = Pending"
    by (simp_all add: run_connection_start_def demo_env_def wait_for_request_def)
  ultimately have "rd = Leave BeaconTimeout" using beacon_timeout_exact [OF beacon_start _ r] by simp
  then show ?thesis using r by simp
qed

section \<open>Requests for a new group key\<close>

text \<open>
  A request that succeeds is one protected frame with the next request counter and the next packet
  number of the pairwise key; both are used up. The counters of the requests under one key are
  therefore different, and an exhausted counter is refused with nothing changed.
\<close>

theorem group_request_sent:
  assumes "connection_info_of (connection_state (sta c)) = Some info" "crypto (sta c) = Some cs"
    and "request_group_rekey e d c = Some (Done (), c')"
  shows "\<exists>kck m cs'. length kck = 16 \<and> group_request_counter cs < - 1 \<and>
    sent (sta c') = sent (sta c) @ [EapolFrame (bssid (ci_bss info)) (own_address info)
      (group_request_out kck (group_request_counter cs)) (Some (packet_number (ptk_of cs), key_slot (ptk_key_slot cs))) m] \<and>
    crypto (sta c') = Some cs' \<and> group_request_counter cs' = group_request_counter cs + 1 \<and>
    packet_number (ptk_of cs') = packet_number (ptk_of cs) + 1"
proof -
  obtain q cs1 where q: "take_group_request e cs = (q, cs1)" by fastforce
  let ?w = "(sta c)\<lparr>crypto := Some cs1\<rparr>"
  obtain kck counter where k: "q = Some (kck, counter)"
    and S: "send_group_request e (bssid (ci_bss info)) (own_address info) kck counter d ?w = Some (Done (), sta c')"
    using assms q by (auto simp: request_group_rekey_def map_crypto_state_def split: option.splits)
  note T = take_group_request_spec(1) [OF q] take_group_request_spec(2) [OF q k]
  have taken: "group_request_counter (snd (take_packet_number cs1)) = group_request_counter cs1"
    by (simp add: take_packet_number_def Let_def split: prod.splits)
  from S have "\<exists>m. transmit_frame (EapolFrame (bssid (ci_bss info)) (own_address info)
      (group_request_out kck counter) (Some (packet_number (ptk_of cs1), key_slot (ptk_key_slot cs1))) m)
        (?w\<lparr>crypto := Some (snd (take_packet_number cs1))\<rparr>) = sta c'"
    by (auto simp: send_group_request_def send_eapol_key_frame_def bind_op_def reserve_packet_number_def map_crypto_state_def
        transmit_op_def update_op_def end_op_def take_packet_number_def next_packet_number_def Let_def
        split: option.splits prod.splits if_splits)
  then obtain m where "sta c' = transmit_frame (EapolFrame (bssid (ci_bss info)) (own_address info)
      (group_request_out kck counter) (Some (packet_number (ptk_of cs1), key_slot (ptk_key_slot cs1))) m)
        (?w\<lparr>crypto := Some (snd (take_packet_number cs1))\<rparr>)" by metis
  then show ?thesis using T k taken by (intro exI [of _ kck] exI [of _ m]) (auto simp: transmit_frame_def take_packet_number_spec)
qed

lemma group_request_exhausted:
  assumes "connection_info_of (connection_state (sta c)) = Some info" "crypto (sta c) = Some cs" "group_request_counter cs = - 1"
  shows "request_group_rekey e d c = Some (Failed GroupKeyHandshakeFailure, c)"
proof -
  have "take_group_request e cs = (None, cs)"
    using assms(3) by (auto simp: take_group_request_def Let_def split: option.splits)
  moreover have "c\<lparr>sta := (sta c)\<lparr>crypto := Some cs\<rparr>\<rparr> = c" using assms(2) by (cases c, cases "sta c") simp
  ultimately show ?thesis using assms by (simp add: request_group_rekey_def map_crypto_state_def)
qed

section \<open>Transmitting packets\<close>



text \<open>A packet that is no Ethernet frame is never taken off the queue: however often the loop runs,
  the state stays as it is.\<close>

lemma unparsable_msdu_livelock:
  assumes "net_tx_buf (r_net re) n = Some msdu" "r_parse_ethernet re msdu = None" "\<not> in_off_channel_operation e w"
  shows "((\<lambda>s. snd (run_msdu_tx_round e re watch info s)) ^^ k) (w, n) = (w, n)"
    and "fst (run_msdu_tx_round e re watch info (w, n)) = Again"
proof -
  have step: "run_msdu_tx_round e re watch info (w, n) = (Again, w, n)"
    using assms by (simp add: run_msdu_tx_round_def)
  show "((\<lambda>s. snd (run_msdu_tx_round e re watch info s)) ^^ k) (w, n) = (w, n)"
    by (induction k) (simp_all add: step)
  show "fst (run_msdu_tx_round e re watch info (w, n)) = Again" by (simp add: step)
qed

text \<open>An unprotected data frame is handed to the network stack although keys are installed.\<close>

lemma unprotected_data_accepted:
  assumes "r_destination re f = Some dst" "r_source re f = Some src" "\<not> protected_flag f" "wrapped f = Some (Unwrapped (Single body))"
    and "r_llc re body = Some (ether_type, p)" "net_rx_space (r_net re) n" "r_write_ethernet re dst src ether_type p = Some frame"
  shows "rsna_activated w \<longrightarrow> handle_data_rx re buf f (w, n) = (w, net_rx_done (r_net re) frame n)"
  using assms by (simp add: handle_data_rx_def wire_key_id_def process_potentially_wrapped_payload_def handle_downlink_msdu_def)

section \<open>The end of a connection\<close>

lemma teardown_fields:
  assumes "teardown e re reason (w, n) = (w', n')"
  shows "crypto w' = crypto w" "key_hw w' = key_hw w" "router w' = router w"
    "lmac w' = unlock_channel (e_interfaces e) (e_iface e) (lmac w)"
    "filters w' = driver_clear_filter (e_filters e) BssidBank (filters w)"
    "connection_state w' = signal_state (e_signal e) (Disconnected reason) (connection_state w)"
  using assms by (auto simp: teardown_def Let_def clear_filter_def reset_phy_rate_def)

lemma disconnect_keys:
  assumes "disconnect e c = (r, c')"
  shows "crypto (sta c') = crypto (sta c) \<and> key_hw (sta c') = key_hw (sta c)"
  using assms by (auto simp: disconnect_def Let_def split: option.splits)

text \<open>Disconnecting keeps the keys and the key slots, and a later connection to an open network
  sends its data under the old keys.\<close>

lemma keys_survive_disconnect:
  assumes "disconnect e c = (r, c')" "teardown e re User (sta c', n) = (w, n')" "crypto (sta c) = Some cs"
  shows "crypto w = Some cs \<and> key_hw w = key_hw (sta c)"
  using teardown_fields [OF assms(2)] disconnect_keys [OF assms(1)] assms(3) by simp

lemma open_network_keeps_keys:
  assumes "sta_env_ok valid current view installed e" "sta_inv e w" "crypto w = Some cs" "security_config b = Open"
    and "connection_run e cp b scratch a w = Some (Done i, w')"
  shows "crypto w' = Some cs \<and> rsna_activated w'"
proof -
  have "\<not> protected_attempt cp b" using assms(4) by (simp add: protected_attempt_def)
  moreover from assms(1) _ _ _ assms(5) have "\<not> protected_attempt cp b \<Longrightarrow> crypto w' = crypto w"
    by (cases rule: connection_run_Done) (use assms(2) in \<open>auto simp: sta_inv_def attempt_ready_def\<close>)
  ultimately show ?thesis using assms(3) by (simp add: rsna_activated_def)
qed

lemma connection_finish_keeps:
  assumes "connection_finish e cp b scratch a keys w = Some (Done i, w')"
  shows "lmac w' = lmac w \<and> filters w' = filters w"
proof -
  obtain inst w1 where X: "connection_exchange e cp b scratch a keys w = Some (Done (i, inst), w1)"
    using assms by (auto simp: connection_finish_def split: option.splits ending.splits prod.splits)
  have "lmac w1 = lmac w" "filters w1 = filters w" using keepsD [OF keeps_exchange X] by (simp_all add: station_core_def)
  moreover have "lmac w' = lmac w1 \<and> filters w' = filters w1"
    using assms X
    by (auto simp: connection_finish_def install_crypto_state_def InterfaceBringupOperation_complete_def
        split: option.splits sum.splits)
  ultimately show ?thesis by simp
qed

text \<open>
  Leaving a network by connecting to another one: the runner notices the disconnection while the
  new attempt waits for its first frame, and tears the old connection down. The attempt goes on
  and succeeds, but its channel lock is gone and its BSSID filter cleared.
\<close>

lemma reconnect_loses_lock:
  assumes env: "sta_env_ok valid current view installed e" and inv: "sta_inv e w"
    and "connection_prepare e cp b watch w = Some (Done keys, w1)" "teardown e re User (w1, n) = (w2, n')"
    and "connection_finish e cp b scratch a keys w2 = Some (Done i, w3)"
  shows "\<not> holds_lock (e_iface e) (lmac w3) \<and> view (filters w3) BssidBank = None"
proof -
  note E = sta_env_okD [OF env]
  have "attempt_ready view e cp b (held_guards keys) w w1"
    using connection_prepare_outcome [OF env _ _ assms(3)] inv by (simp add: sta_inv_def)
  then have "locks_ok (e_interfaces e) (locks (lmac w1))" by (simp add: attempt_ready_def)
  from unlock_channel_locks(2) [OF this E(6) E(6)] have "\<not> holds_lock (e_iface e) (lmac w2)"
    by (simp add: teardown_fields(4) [OF assms(4)] unlock_channel_def unlock_channel_internal_def)
  moreover have "view (filters w2) BssidBank = None"
    using E(2) by (simp add: teardown_fields(5) [OF assms(4)] filter_laws_def)
  ultimately show ?thesis using connection_finish_keeps [OF assms(5)] by simp
qed

end
