(* ===== verification/Sta_Link.thy ===== *)
theory Sta_Link
  imports Sta_Traffic
begin

text \<open>
  The outer loops of a station, \<open>ConnectionRunner::run\<close> and \<open>StaRunner::run\<close> in
  \<open>foa_sta/src/runner.rs\<close>. The connection runner waits for a connection, announces the link, and
  runs the connection, the MSDU transmission and the wait for a disconnection side by side until
  one of them ends the connection. What it does when it is polled consists of the rounds of
  \<open>Sta_Runner\<close>, so the invariants of the runs of a station hold for it. The station as a whole is
  the runner, the control and the network stack, and the link the stack sees follows the control.
\<close>

section \<open>The runners\<close>

text \<open>The connection it runs, with the local state of \<open>run_connection\<close>, and whether the current wait
  for a change of the connection state was polled before.\<close>

record connection_runner =
  cr_connection :: "(connection_info \<times> connection_loop) option"
  cr_waiting :: bool

definition ConnectionRunner_new :: connection_runner where
  "ConnectionRunner_new = \<lparr>cr_connection = None, cr_waiting = False\<rparr>"

text \<open>What a poll meets: the completion watch, how often the loops come round before they wait, with
  the buffer, the clock and the transmission result of every round of the connection, and the
  frames that wait for the interface.\<close>

record 'wt poll_input =
  pi_watch :: 'wt
  pi_now :: nat
  pi_rounds :: "(nat \<times> nat \<times> completion) list"
  pi_msdus :: nat
  pi_received :: "bytes list"

text \<open>The loops of the two futures repeat until a round waits, or ends the connection.\<close>

fun run_connection_rounds ::
  "('c, 'm, 'k, 'fl, 'q, 'g) sta_env \<Rightarrow> 'n runner_env \<Rightarrow> ('wt \<Rightarrow> unit poll) \<Rightarrow> 'wt \<Rightarrow> connection_info \<Rightarrow>
     (nat \<times> nat \<times> completion) list \<Rightarrow> connection_loop \<times> off_channel_request_state list \<times> ('c, 'k, 'fl, 'q, 'g) sta_tx_rx \<Rightarrow>
     round \<times> connection_loop \<times> off_channel_request_state list \<times> ('c, 'k, 'fl, 'q, 'g) sta_tx_rx" where
  "run_connection_rounds e re watch_get wt info [] s = (Idle, s)"
| "run_connection_rounds e re watch_get wt info ((scratch, now, c) # ts) s =
     (case run_connection_round e re watch_get wt info scratch now c s of
        (Again, s') \<Rightarrow> run_connection_rounds e re watch_get wt info ts s'
      | r \<Rightarrow> r)"

fun run_msdu_tx_rounds ::
  "('c, 'm, 'k, 'fl, 'q, 'g) sta_env \<Rightarrow> 'n runner_env \<Rightarrow> unit poll \<Rightarrow> connection_info \<Rightarrow> nat \<Rightarrow>
     ('c, 'k, 'fl, 'q, 'g) sta_tx_rx \<times> 'n \<Rightarrow> round \<times> ('c, 'k, 'fl, 'q, 'g) sta_tx_rx \<times> 'n" where
  "run_msdu_tx_rounds e re watch info 0 s = (Idle, s)"
| "run_msdu_tx_rounds e re watch info (Suc k) s =
     (case run_msdu_tx_round e re watch info s of
        (Again, s') \<Rightarrow> run_msdu_tx_rounds e re watch info k s'
      | r \<Rightarrow> r)"

text \<open>
  The first of the three futures that is ready ends the connection; the third one never is. A poll
  stops after the link went up or down: the code goes on to the next wait at once, which is the
  next poll here.
\<close>

definition ConnectionRunner_poll ::
  "('c, 'm, 'k, 'fl, 'q, 'g) sta_env \<Rightarrow> 'n runner_env \<Rightarrow> ('wt \<Rightarrow> unit poll) \<Rightarrow> 'wt poll_input \<Rightarrow>
     connection_runner \<times> off_channel_request_state list \<times> ('c, 'k, 'fl, 'q, 'g) sta_tx_rx \<times> 'n \<Rightarrow>
     panic + connection_runner \<times> off_channel_request_state list \<times> ('c, 'k, 'fl, 'q, 'g) sta_tx_rx \<times> 'n" where
  "ConnectionRunner_poll e re watch_get pi s =
     (let (k, rs, w, n) = s
      in case cr_connection k of
           None \<Rightarrow>
             (case wait_for_connection (e_signal e) (cr_waiting k) (connection_state w) of
                (Pending, t) \<Rightarrow> Inr (k\<lparr>cr_waiting := True\<rparr>, rs, w\<lparr>connection_state := t\<rparr>, n)
              | (Ready info, t) \<Rightarrow>
                  Inr (\<lparr>cr_connection = Some (info, run_connection_start (pi_now pi) info), cr_waiting = False\<rparr>, rs,
                       w\<lparr>connection_state := t\<rparr>, link_up re info n))
         | Some (info, l) \<Rightarrow>
             (case wait_for_disconnection (e_signal e) (cr_waiting k) (connection_state w) of
                (Ready reason, t) \<Rightarrow>
                  Inr (ConnectionRunner_new, rs, teardown e re reason (w\<lparr>connection_state := t\<rparr>, n))
              | (Pending, t) \<Rightarrow>
             (case run_connection_rounds e re watch_get (pi_watch pi) info (pi_rounds pi) (l, rs, w\<lparr>connection_state := t\<rparr>) of
                (Leave reason, l', rs', w1) \<Rightarrow> Inr (ConnectionRunner_new, rs', teardown e re reason (w1, n))
              | (Crash p, l', rs', w1) \<Rightarrow> Inl p
              | (_, l', rs', w1) \<Rightarrow>
             (case run_msdu_tx_rounds e re (watch_get (pi_watch pi)) info (pi_msdus pi) (w1, n) of
                (Crash p, w2, n2) \<Rightarrow> Inl p
              | (_, w2, n2) \<Rightarrow> Inr (\<lparr>cr_connection = Some (info, l'), cr_waiting = True\<rparr>, rs', w2, n2)))))"

text \<open>\<open>RoutingRunner::run\<close> handles the frames that wait; \<open>StaRunner::run\<close> joins the two runners.\<close>

definition RoutingRunner_poll ::
  "('c, 'm, 'k, 'fl, 'q, 'g) sta_env \<Rightarrow> 'n runner_env \<Rightarrow> bytes list \<Rightarrow> ('c, 'k, 'fl, 'q, 'g) sta_tx_rx \<times> 'n \<Rightarrow>
     ('c, 'k, 'fl, 'q, 'g) sta_tx_rx \<times> 'n" where
  "RoutingRunner_poll e re bufs s = fold (routing_round e re) bufs s"

definition StaRunner_poll ::
  "('c, 'm, 'k, 'fl, 'q, 'g) sta_env \<Rightarrow> 'n runner_env \<Rightarrow> ('wt \<Rightarrow> unit poll) \<Rightarrow> 'wt poll_input \<Rightarrow>
     connection_runner \<times> off_channel_request_state list \<times> ('c, 'k, 'fl, 'q, 'g) sta_tx_rx \<times> 'n \<Rightarrow>
     panic + connection_runner \<times> off_channel_request_state list \<times> ('c, 'k, 'fl, 'q, 'g) sta_tx_rx \<times> 'n" where
  "StaRunner_poll e re watch_get pi s =
     (case ConnectionRunner_poll e re watch_get pi s of
        Inl p \<Rightarrow> Inl p
      | Inr (k, rs, w, n) \<Rightarrow> Inr (k, rs, RoutingRunner_poll e re (pi_received pi) (w, n)))"

section \<open>The polls are rounds of a station\<close>

lemma wait_for_connection_signal:
  "wait_for_connection sg b t = (r, t') \<Longrightarrow> \<exists>x. t' = t\<lparr>state_changed := x\<rparr>"
  by (auto simp: wait_for_connection_def split: if_splits poll.splits option.splits intro: exI [of _ "state_changed t"])

lemma wait_for_disconnection_signal:
  "wait_for_disconnection sg b t = (r, t') \<Longrightarrow> \<exists>x. t' = t\<lparr>state_changed := x\<rparr>"
  by (auto simp: wait_for_disconnection_def split: if_splits poll.splits option.splits intro: exI [of _ "state_changed t"])

lemma connection_state_rounds:
  "\<exists>x. t = (connection_state w)\<lparr>state_changed := x\<rparr> \<Longrightarrow> (station_round e re watch_get)\<^sup>*\<^sup>* w (w\<lparr>connection_state := t\<rparr>)"
  using round_signal [of e re watch_get w] by auto

lemma run_connection_rounds_rounds:
  "run_connection_rounds e re watch_get wt info ts (l, rs, w) = (rd, l', rs', w') \<Longrightarrow> (station_round e re watch_get)\<^sup>*\<^sup>* w w'"
proof (induction ts arbitrary: l rs w)
  case (Cons t ts)
  obtain scratch now c where t: "t = (scratch, now, c)" by (cases t)
  obtain rd1 l1 rs1 w1 where r: "run_connection_round e re watch_get wt info scratch now c (l, rs, w) = (rd1, l1, rs1, w1)"
    by (metis prod_cases4)
  note first = round_connection [OF r]
  show ?case
  proof (cases "rd1 = Again")
    case True
    then show ?thesis using Cons r t first by (auto intro: converse_rtranclp_into_rtranclp)
  next
    case False
    then have "w' = w1" using Cons.prems r t by (cases rd1) auto
    then show ?thesis using first by blast
  qed
qed simp

lemma run_msdu_tx_rounds_rounds:
  "run_msdu_tx_rounds e re watch info k (w, n) = (rd, w', n') \<Longrightarrow> (station_round e re watch_get)\<^sup>*\<^sup>* w w'"
proof (induction k arbitrary: w n)
  case (Suc k)
  obtain rd1 w1 n1 where r: "run_msdu_tx_round e re watch info (w, n) = (rd1, w1, n1)" by (metis prod_cases3)
  note first = round_msdu [OF r]
  show ?case
  proof (cases "rd1 = Again")
    case True
    then show ?thesis using Suc r first by (auto intro: converse_rtranclp_into_rtranclp)
  next
    case False
    then have "w' = w1" using Suc.prems r by (cases rd1) auto
    then show ?thesis using first by blast
  qed
qed simp

lemma routing_poll_rounds:
  "RoutingRunner_poll e re bufs (w, n) = (w', n') \<Longrightarrow> (station_round e re watch_get)\<^sup>*\<^sup>* w w'"
proof (induction bufs arbitrary: w n)
  case (Cons b bufs)
  obtain w1 n1 where r: "routing_round e re b (w, n) = (w1, n1)" by fastforce
  then show ?case using Cons round_routing [OF r]
    by (auto simp: RoutingRunner_poll_def intro: converse_rtranclp_into_rtranclp)
qed (simp add: RoutingRunner_poll_def)

lemma connection_runner_poll_rounds:
  assumes "ConnectionRunner_poll e re watch_get pi (k, rs, w, n) = Inr (k', rs', w', n')"
  shows "(station_round e re watch_get)\<^sup>*\<^sup>* w w'"
proof (cases "cr_connection k")
  case None
  then obtain r t where t: "wait_for_connection (e_signal e) (cr_waiting k) (connection_state w) = (r, t)" "w' = w\<lparr>connection_state := t\<rparr>"
    using assms by (auto simp: ConnectionRunner_poll_def split: poll.splits prod.splits)
  show ?thesis unfolding t(2) by (rule connection_state_rounds [OF wait_for_connection_signal [OF t(1)]])
next
  case (Some p)
  obtain info l where p: "p = (info, l)" by (cases p)
  obtain r t where t: "wait_for_disconnection (e_signal e) (cr_waiting k) (connection_state w) = (r, t)" by fastforce
  let ?w = "w\<lparr>connection_state := t\<rparr>"
  have first: "(station_round e re watch_get)\<^sup>*\<^sup>* w ?w"
    by (rule connection_state_rounds [OF wait_for_disconnection_signal [OF t]])
  obtain rd l1 rs1 w1 where c: "run_connection_rounds e re watch_get (pi_watch pi) info (pi_rounds pi) (l, rs, ?w) = (rd, l1, rs1, w1)"
    by (metis prod_cases4)
  obtain rd2 w2 n2 where m: "run_msdu_tx_rounds e re (watch_get (pi_watch pi)) info (pi_msdus pi) (w1, n) = (rd2, w2, n2)"
    by (metis prod_cases3)
  note second = rtranclp_trans [OF first run_connection_rounds_rounds [OF c]]
  note third = rtranclp_trans [OF second run_msdu_tx_rounds_rounds [OF m]]
  have tear: "station_round e re watch_get v (fst (teardown e re reason (v, n)))" for v reason
    by (rule round_teardown [of _ _ reason v n _ "snd (teardown e re reason (v, n))"]) simp
  consider reason where "w' = fst (teardown e re reason (?w, n))"
    | reason where "w' = fst (teardown e re reason (w1, n))"
    | "w' = w2"
    using assms t c m by (auto simp: ConnectionRunner_poll_def Some p split: poll.splits round.splits) (metis fst_conv)+
  then show ?thesis
  proof cases
    case 1
    then show ?thesis using first tear [of ?w reason] by (simp add: rtranclp.rtrancl_into_rtrancl)
  next
    case 2
    then show ?thesis using second tear [of w1 reason] by (simp add: rtranclp.rtrancl_into_rtrancl)
  next
    case 3
    then show ?thesis using third by simp
  qed
qed

text \<open>So the runs of a station include the polls of its runner.\<close>

lemma station_run_rounds:
  assumes "(station_round e re watch_get)\<^sup>*\<^sup>* w w'" "station_run e re watch_get c0 (c\<lparr>sta := w\<rparr>)"
  shows "station_run e re watch_get c0 (c\<lparr>sta := w'\<rparr>)"
  using assms
proof (induction rule: rtranclp_induct)
  case (step w1 w2)
  then show ?case using run_round [of e re watch_get c0 "c\<lparr>sta := w1\<rparr>" w2] by simp
qed

lemma station_run_poll:
  assumes "station_run e re watch_get c0 c" "StaRunner_poll e re watch_get pi (k, rs, sta c, n) = Inr (k', rs', w', n')"
  shows "station_run e re watch_get c0 (c\<lparr>sta := w'\<rparr>)"
proof -
  obtain w1 n1 where p: "ConnectionRunner_poll e re watch_get pi (k, rs, sta c, n) = Inr (k', rs', w1, n1)"
    "RoutingRunner_poll e re (pi_received pi) (w1, n1) = (w', n')"
    using assms(2) by (auto simp: StaRunner_poll_def split: sum.splits)
  show ?thesis
    by (rule station_run_rounds [OF rtranclp_trans [OF connection_runner_poll_rounds [OF p(1)] routing_poll_rounds [OF p(2)]]])
      (simp add: assms(1))
qed

section \<open>The link\<close>

text \<open>What the network stack is told about the link.\<close>

definition link_laws :: "('n \<Rightarrow> bool) \<Rightarrow> 'n net_ops \<Rightarrow> bool" where
  "link_laws link no \<longleftrightarrow>
     (\<forall>b n. link (net_set_link no b n) = b) \<and> (\<forall>a n. link (net_set_address no a n) = link n) \<and>
     (\<forall>n. link (net_tx_done no n) = link n) \<and> (\<forall>f n. link (net_rx_done no f n) = link n)"

lemma teardown_link: "link_laws link (r_net re) \<Longrightarrow> \<not> link (snd (teardown e re reason s))"
  by (auto simp: teardown_def link_laws_def Let_def split: prod.splits)

lemma link_up_link: "link_laws link (r_net re) \<Longrightarrow> link (link_up re info n)"
  by (simp add: link_up_def link_laws_def)

lemma run_msdu_tx_link:
  assumes "link_laws link (r_net re)" "run_msdu_tx_round e re watch info (w, n) = (rd, w', n')"
  shows "link n' = link n"
  using assms by (auto simp: run_msdu_tx_round_def link_laws_def Let_def split: option.splits if_splits prod.splits)

lemma run_msdu_tx_rounds_link:
  assumes "link_laws link (r_net re)"
  shows "run_msdu_tx_rounds e re watch info k (w, n) = (rd, w', n') \<Longrightarrow> link n' = link n"
proof (induction k arbitrary: w n)
  case (Suc k)
  obtain rd1 w1 n1 where r: "run_msdu_tx_round e re watch info (w, n) = (rd1, w1, n1)" by (metis prod_cases3)
  have "link n1 = link n" by (rule run_msdu_tx_link [OF assms r])
  then show ?case using Suc r by (cases rd1) auto
qed simp

text \<open>Routing a frame only hands it over, to the network stack or to the router.\<close>

lemma handle_downlink_msdu_link: "link_laws link (r_net re) \<Longrightarrow> link (snd (handle_downlink_msdu re body src dst n)) = link n"
  by (auto simp: handle_downlink_msdu_def link_laws_def split: option.splits)

lemma handle_sub_frames_link: "link_laws link (r_net re) \<Longrightarrow> link (handle_sub_frames re fs n) = link n"
proof (induction re fs n rule: handle_sub_frames.induct)
  case (2 re body src dst fs n)
  then show ?case using handle_downlink_msdu_link [OF 2(2), of body src dst n]
    by (cases "handle_downlink_msdu re body src dst n") (auto split: bool.splits)
qed simp

lemma map_crypto_state_keeps:
  assumes "map_crypto_state f w = (r, w')"
  shows "lmac w' = lmac w" "filters w' = filters w" "connection_state w' = connection_state w"
  using assms by (auto simp: map_crypto_state_def Let_def split: option.splits prod.splits)

lemma process_payload_keeps:
  assumes "process_potentially_wrapped_payload g i wp w = (r, w')"
  shows "lmac w' = lmac w" "filters w' = filters w" "connection_state w' = connection_state w"
  using assms by (auto simp: process_potentially_wrapped_payload_def dest: map_crypto_state_keeps
      split: wrapped_payload.splits prod.splits option.splits bool.splits)

lemma handle_data_rx_keeps:
  assumes "link_laws link (r_net re)" "handle_data_rx re buf f (w, n) = (w', n')"
  shows "lmac w' = lmac w \<and> filters w' = filters w \<and> connection_state w' = connection_state w \<and> link n' = link n"
  using assms(2) handle_downlink_msdu_link [OF assms(1)] handle_sub_frames_link [OF assms(1)]
  by (auto simp: handle_data_rx_def dest: process_payload_keeps
      split: option.splits prod.splits data_payload.splits)

lemma routing_round_keeps:
  assumes "link_laws link (r_net re)" "routing_round e re buf (w, n) = (w', n')"
  shows "lmac w' = lmac w \<and> filters w' = filters w \<and> connection_state w' = connection_state w \<and> link n' = link n"
proof -
  have H: "lmac (fst (handle_data_rx re buf f (w, n))) = lmac w" "filters (fst (handle_data_rx re buf f (w, n))) = filters w"
    "connection_state (fst (handle_data_rx re buf f (w, n))) = connection_state w" "link (snd (handle_data_rx re buf f (w, n))) = link n" for f
    using handle_data_rx_keeps [OF assms(1), of buf f w n] by (metis prod.collapse)+
  have "w' = fst (routing_round e re buf (w, n))" "n' = snd (routing_round e re buf (w, n))" using assms(2) by simp_all
  then show ?thesis by (simp add: routing_round_def route_to_router_def H split: option.split)
qed

lemma routing_poll_keeps:
  assumes "link_laws link (r_net re)"
  shows "RoutingRunner_poll e re bufs (w, n) = (w', n') \<Longrightarrow>
    lmac w' = lmac w \<and> filters w' = filters w \<and> connection_state w' = connection_state w \<and> link n' = link n"
proof (induction bufs arbitrary: w n)
  case (Cons b bufs)
  obtain w1 n1 where r: "routing_round e re b (w, n) = (w1, n1)" by fastforce
  then show ?case using Cons.IH [of w1 n1] Cons.prems routing_round_keeps [OF assms r] by (simp add: RoutingRunner_poll_def)
qed (simp add: RoutingRunner_poll_def)

lemma connection_runner_poll_link:
  assumes "link_laws link (r_net re)" "link n \<longleftrightarrow> cr_connection k \<noteq> None"
    and "ConnectionRunner_poll e re watch_get pi (k, rs, w, n) = Inr (k', rs', w', n')"
  shows "link n' \<longleftrightarrow> cr_connection k' \<noteq> None"
proof -
  have down: "\<not> link n'" if "teardown e re reason s = (w', n')" for reason s
    using teardown_link [OF assms(1), of e reason s] that by simp
  show ?thesis
  proof (cases "cr_connection k")
    case None
    then show ?thesis using assms(2,3) link_up_link [OF assms(1)]
      by (auto simp: ConnectionRunner_poll_def split: poll.splits prod.splits)
  next
    case (Some p)
    obtain info l where p: "p = (info, l)" by (cases p)
    obtain r t where t: "wait_for_disconnection (e_signal e) (cr_waiting k) (connection_state w) = (r, t)" by fastforce
    obtain rd l1 rs1 w1 where c: "run_connection_rounds e re watch_get (pi_watch pi) info (pi_rounds pi)
        (l, rs, w\<lparr>connection_state := t\<rparr>) = (rd, l1, rs1, w1)"
      by (metis prod_cases4)
    obtain rd2 w2 n2 where m: "run_msdu_tx_rounds e re (watch_get (pi_watch pi)) info (pi_msdus pi) (w1, n) = (rd2, w2, n2)"
      by (metis prod_cases3)
    have "link n2" using run_msdu_tx_rounds_link [OF assms(1) m] assms(2) Some by simp
    then show ?thesis using assms(3) Some p t c m down
      by (auto simp: ConnectionRunner_poll_def ConnectionRunner_new_def split: poll.splits round.splits)
  qed
qed

lemma sta_runner_poll_link:
  assumes "link_laws link (r_net re)" "link n \<longleftrightarrow> cr_connection k \<noteq> None"
    and "StaRunner_poll e re watch_get pi (k, rs, w, n) = Inr (k', rs', w', n')"
  shows "link n' \<longleftrightarrow> cr_connection k' \<noteq> None"
proof -
  obtain w1 n1 where p: "ConnectionRunner_poll e re watch_get pi (k, rs, w, n) = Inr (k', rs', w1, n1)"
    "RoutingRunner_poll e re (pi_received pi) (w1, n1) = (w', n')"
    using assms(3) by (auto simp: StaRunner_poll_def split: sum.splits)
  show ?thesis
    using connection_runner_poll_link [OF assms(1,2) p(1)] routing_poll_keeps [OF assms(1) p(2)] by simp
qed

section \<open>The station as a whole\<close>

text \<open>
  The runner is polled; between two polls the user and the other interfaces do what a run of the
  station allows, the other interfaces request off-channel operations, and the network stack
  takes and queues packets.
\<close>

inductive sta_system ::
  "('c, 'm, 'k, 'fl, 'q, 'g) sta_env \<Rightarrow> 'n runner_env \<Rightarrow> ('wt \<Rightarrow> unit poll) \<Rightarrow> ('n \<Rightarrow> bool) \<Rightarrow>
     ('c, 'k, 'fl, 'q, 'g) sta_control \<Rightarrow>
     connection_runner \<times> off_channel_request_state list \<times> ('c, 'k, 'fl, 'q, 'g) sta_control \<times> 'n \<Rightarrow> bool"
  for e re watch_get link c0 where
  system_new: "\<not> link n \<Longrightarrow> sta_system e re watch_get link c0 (ConnectionRunner_new, rs, c0, n)"
| system_poll: "sta_system e re watch_get link c0 (k, rs, c, n) \<Longrightarrow>
     StaRunner_poll e re watch_get pi (k, rs, sta c, n) = Inr (k', rs', w, n') \<Longrightarrow>
     sta_system e re watch_get link c0 (k', rs', c\<lparr>sta := w\<rparr>, n')"
| system_user: "sta_system e re watch_get link c0 (k, rs, c, n) \<Longrightarrow> station_run e re watch_get c c' \<Longrightarrow>
     sta_system e re watch_get link c0 (k, rs, c', n)"
| system_stack: "sta_system e re watch_get link c0 (k, rs, c, n) \<Longrightarrow> link n' = link n \<Longrightarrow>
     sta_system e re watch_get link c0 (k, rs', c, n')"

lemma station_run_trans:
  assumes "station_run e re watch_get c1 c2" "station_run e re watch_get c0 c1"
  shows "station_run e re watch_get c0 c2"
  using assms
proof (induction rule: station_run.induct)
  case (run_scan c su cs rt cap im cfg wt found res wt' found' c')
  then show ?case using station_run.run_scan [of e re watch_get c0 c su cs rt cap im cfg wt found] by blast
qed (auto intro: station_run.intros)

lemma sta_system_invariant:
  assumes "link_laws link (r_net re)" "sta_system e re watch_get link c0 s"
  shows "case s of (k, rs, c, n) \<Rightarrow> station_run e re watch_get c0 c \<and> (link n \<longleftrightarrow> cr_connection k \<noteq> None)"
  using assms(2)
proof (induction rule: sta_system.induct)
  case (system_new n rs)
  then show ?case by (simp add: ConnectionRunner_new_def run_new)
next
  case (system_poll k rs c n pi k' rs' w n')
  then have "station_run e re watch_get c0 c" "link n \<longleftrightarrow> cr_connection k \<noteq> None" by simp_all
  from station_run_poll [OF this(1) system_poll(2)] sta_runner_poll_link [OF assms(1) this(2) system_poll(2)]
  show ?case by simp
next
  case (system_user k rs c n c')
  then show ?case using station_run_trans [of e re watch_get c c' c0] by simp
next
  case (system_stack k rs c n n' rs')
  then show ?case by simp
qed

text \<open>What the next poll does after a call of the user.\<close>

lemma poll_after_connect:
  assumes sig: "signal_laws pending (e_signal e)" and net: "link_laws link (r_net re)"
    and k: "cr_connection k = None" and c: "connect e b cfg creds scratch a c = Some (Done (), c')"
  shows "\<exists>k' w n' info. StaRunner_poll e re watch_get pi (k, rs, sta c', n) = Inr (k', rs, w, n') \<and> link n' \<and>
    connection_info_of (connection_state w) = Some info \<and> ci_bss info = b \<and> own_address info = ctl_mac_address c \<and>
    cr_connection k' = Some (info, run_connection_start (pi_now pi) info)"
proof -
  obtain i t where t: "connection_state (sta c') = signal_state (e_signal e) (Connected i) t" "ci_bss i = b" "own_address i = ctl_mac_address c"
    using c by (auto simp: connect_def signal_connected_def connect_parameters_def split: sum.splits option.splits prod.splits ending.splits)
  obtain t' where w: "wait_for_connection (e_signal e) (cr_waiting k) (connection_state (sta c')) = (Ready i, t')"
    using wait_for_connection_wakes [OF sig, of "cr_waiting k" i t] t(1) by auto
  obtain w n' where r: "RoutingRunner_poll e re (pi_received pi) ((sta c')\<lparr>connection_state := t'\<rparr>, link_up re i n) = (w, n')" by fastforce
  obtain x where "t' = (connection_state (sta c'))\<lparr>state_changed := x\<rparr>" using wait_for_connection_signal [OF w] by blast
  then have "connection_info_of t' = Some i" by (simp add: t(1) connection_info_of_def signal_state_def)
  moreover have "link n'" "connection_state w = t'" using routing_poll_keeps [OF net r] link_up_link [OF net] by simp_all
  ultimately show ?thesis using k w r t by (simp add: StaRunner_poll_def ConnectionRunner_poll_def)
qed

lemma poll_after_disconnect:
  assumes env: "sta_env_ok valid current view installed e" and sig: "signal_laws pending (e_signal e)"
    and net: "link_laws link (r_net re)" and ok: "locks_ok (e_interfaces e) (locks (lmac (sta c)))"
    and k: "cr_connection k = Some (info, l)" and d: "disconnect e c = (Inr (), c')"
  shows "\<exists>w n'. StaRunner_poll e re watch_get pi (k, rs, sta c', n) = Inr (ConnectionRunner_new, rs, w, n') \<and>
           \<not> link n' \<and> \<not> holds_lock (e_iface e) (lmac w) \<and> view (filters w) BssidBank = None \<and>
           disconnection_reason_of (connection_state w) = Some User"
proof -
  note E = sta_env_okD [OF env]
  obtain i where c': "sta c' = disconnect_internal e i ((sta c)\<lparr>lmac := unlock_channel (e_interfaces e) (e_iface e) (lmac (sta c))\<rparr>)"
    using d by (auto simp: disconnect_def Let_def split: option.splits)
  have fields: "lmac (sta c') = unlock_channel (e_interfaces e) (e_iface e) (lmac (sta c))"
    "connection_state (sta c') = signal_state (e_signal e) (Disconnected User) (connection_state (sta c))"
    by (simp_all add: c' disconnect_internal_def deauthenticate_def transmit_frame_def reset_phy_rate_def Let_def)
  obtain t' where wait: "wait_for_disconnection (e_signal e) (cr_waiting k) (connection_state (sta c')) = (Ready User, t')"
    using wait_for_disconnection_wakes [OF sig, of "cr_waiting k" User "connection_state (sta c)"] fields(2) by auto
  let ?w = "(sta c')\<lparr>connection_state := t'\<rparr>"
  obtain v m where T: "teardown e re User (?w, n) = (v, m)" by fastforce
  obtain w n' where R: "RoutingRunner_poll e re (pi_received pi) (v, m) = (w, n')" by fastforce
  note keeps = routing_poll_keeps [OF net R]
  have "StaRunner_poll e re watch_get pi (k, rs, sta c', n) = Inr (ConnectionRunner_new, rs, w, n')"
    using k wait T R by (simp add: StaRunner_poll_def ConnectionRunner_poll_def)
  moreover have "\<not> link n'" using teardown_link [OF net, of e User "(?w, n)"] T keeps by simp
  moreover have "locks_ok (e_interfaces e) (locks (lmac ?w))"
    using unlock_channel_locks(1) [OF ok E(6)] by (simp add: fields(1) unlock_channel_def unlock_channel_internal_def)
  then have "\<not> holds_lock (e_iface e) (lmac w)"
    using unlock_channel_locks(2) [OF _ E(6) E(6)] keeps
    by (simp add: teardown_fields(4) [OF T] unlock_channel_def unlock_channel_internal_def)
  moreover have "view (filters w) BssidBank = None"
    using E(2) keeps by (simp add: teardown_fields(5) [OF T] filter_laws_def)
  moreover have "disconnection_reason_of (connection_state w) = Some User"
    using T keeps by (auto simp: teardown_def clear_filter_def reset_phy_rate_def signal_state_def disconnection_reason_of_def Let_def)
  ultimately show ?thesis by blast
qed


text \<open>A network stack that only has a link, for the witness.\<close>

definition link_runner :: "bool runner_env" where
  "link_runner =
     \<lparr>r_net = \<lparr>net_tx_buf = (\<lambda>_. None), net_tx_done = (\<lambda>n. n), net_rx_space = (\<lambda>_. False), net_rx_done = (\<lambda>_ n. n),
        net_set_link = (\<lambda>b _. b), net_set_address = (\<lambda>_ n. n)\<rparr>,
      r_multicast = (\<lambda>a. a = [255]), r_destination = (\<lambda>f. Some (address_1 f)), r_source = (\<lambda>f. Some (address_3 f)),
      r_amsdu = (\<lambda>_. []), r_llc = (\<lambda>b. Some (0, b)), r_write_ethernet = (\<lambda>_ _ _ b. Some b),
      r_parse_ethernet = (\<lambda>b. Some ([3], 0, b)), r_crypto_header = (\<lambda>_ _. True), r_write_data = (\<lambda>_ _ _ _ b _. Some b),
      r_management = (\<lambda>_. None)\<rparr>"

definition quiet_poll :: "unit poll_input" where
  "quiet_poll = \<lparr>pi_watch = (), pi_now = 0, pi_rounds = [], pi_msdus = 0, pi_received = []\<rparr>"


end
