(* ===== verification/Handshake_Probe.thy ===== *)
theory Handshake_Probe
  imports Foa_Prelude
begin

unbundle bit_operations_syntax

text \<open>
  The handshake flight recorder, \<open>foa_sta/src/handshake_probe.rs\<close>: counters, the time of every
  phase, and a ring of the last 64 events. The clock is an argument of the calls. The lemmas
  show that the ring refines an unbounded log: it holds the last 64 events of it, also after
  the 32-bit number of events wrapped around.
\<close>

section \<open>The recorder\<close>

record flight_event =
  us :: u32
  ev_phase :: u8
  kind :: u8
  ev_a :: u32
  ev_b :: u32

record snapshot =
  snap_phase :: u8
  phase_us :: "u32 list"
  queues :: "nat \<times> nat"
  eapol_routed :: u32
  eapol_dropped :: u32
  route_failures :: u32
  events :: "flight_event list"
  total_events :: u32

definition Snapshot_empty :: snapshot where
  "Snapshot_empty = \<lparr>snap_phase = 0, phase_us = replicate 11 (- 1), queues = (0, 0), eapol_routed = 0, eapol_dropped = 0,
     route_failures = 0, events = replicate 64 \<lparr>us = 0, ev_phase = 0, kind = 0, ev_a = 0, ev_b = 0\<rparr>, total_events = 0\<rparr>"

record flight_recorder =
  start :: u32
  snapshot_of :: snapshot

definition STATE_init :: flight_recorder where
  "STATE_init = \<lparr>start = 0, snapshot_of = Snapshot_empty\<rparr>"

definition ring_append :: "u32 \<Rightarrow> u8 \<Rightarrow> u32 \<Rightarrow> u32 \<Rightarrow> flight_recorder \<Rightarrow> flight_recorder" where
  "ring_append now k a b st =
     (let s = snapshot_of st
      in st\<lparr>snapshot_of := s\<lparr>
           events := (events s)[unat (total_events s) mod 64 :=
             \<lparr>us = now - start st, ev_phase = snap_phase s, kind = k, ev_a = a, ev_b = b\<rparr>],
           total_events := total_events s + 1\<rparr>\<rparr>)"

definition reset :: "u32 \<Rightarrow> flight_recorder \<Rightarrow> flight_recorder" where
  "reset now st = \<lparr>start = now, snapshot_of = Snapshot_empty\<rparr>"

definition phase :: "u32 \<Rightarrow> u8 \<Rightarrow> flight_recorder \<Rightarrow> panic + flight_recorder" where
  "phase now p st =
     (let s = snapshot_of st
      in if unat p < length (phase_us s)
         then Inr (ring_append now 1 (ucast p) 0
                (st\<lparr>snapshot_of := s\<lparr>snap_phase := p, phase_us := (phase_us s)[unat p := now - start st]\<rparr>\<rparr>))
         else Inl (Panic ''index out of bounds''))"

definition event :: "u32 \<Rightarrow> u8 \<Rightarrow> u32 \<Rightarrow> u32 \<Rightarrow> flight_recorder \<Rightarrow> flight_recorder" where
  "event now k a b st = ring_append now k a b st"

text \<open>The counters are incremented in checked arithmetic.\<close>

definition count_if :: "bool \<Rightarrow> u32 \<Rightarrow> panic + u32" where
  "count_if c n =
     (if \<not> c then Inr n
      else case checked_inc n of None \<Rightarrow> Inl (Panic ''attempt to add with overflow'') | Some m \<Rightarrow> Inr m)"

definition routed :: "u32 \<Rightarrow> u8 \<Rightarrow> bool \<Rightarrow> nat \<times> nat \<Rightarrow> flight_recorder \<Rightarrow> panic + flight_recorder" where
  "routed now k success qs st =
     (let s = snapshot_of st
      in if snap_phase s = 10 \<and> k = 0 then Inr st
         else case count_if (\<not> success) (route_failures s) of
           Inl e \<Rightarrow> Inl e
         | Inr failures \<Rightarrow>
        (case count_if (k = 1 \<and> success) (eapol_routed s) of
           Inl e \<Rightarrow> Inl e
         | Inr r \<Rightarrow>
        (case count_if (k = 1 \<and> \<not> success) (eapol_dropped s) of
           Inl e \<Rightarrow> Inl e
         | Inr d \<Rightarrow>
        (let st1 = st\<lparr>snapshot_of := s\<lparr>queues := qs, route_failures := failures, eapol_routed := r, eapol_dropped := d\<rparr>\<rparr>
         in Inr (if k \<noteq> 0
                 then ring_append now (if k = 1 then 6 else 7) ((push_bit 8 (ucast k)) OR (if success then 1 else 0))
                   ((push_bit 16 (of_nat (fst qs))) OR of_nat (snd qs)) st1
                 else st1)))))"

section \<open>The calls and their log\<close>

text \<open>The calls of the recorder, and what a log without a bound would hold after them: the time of
  the last reset, the phase, and the events since then.\<close>

datatype call =
    Reset u32
  | PhaseAt u32 u8
  | EventAt u32 u8 u32 u32
  | Routed u32 u8 bool "nat \<times> nat"

fun perform :: "call \<Rightarrow> flight_recorder \<Rightarrow> panic + flight_recorder" where
  "perform (Reset now) st = Inr (reset now st)"
| "perform (PhaseAt now p) st = phase now p st"
| "perform (EventAt now k a b) st = Inr (event now k a b st)"
| "perform (Routed now k success qs) st = routed now k success qs st"

fun perform_all :: "call list \<Rightarrow> flight_recorder \<Rightarrow> panic + flight_recorder" where
  "perform_all [] st = Inr st"
| "perform_all (c # cs) st = (case perform c st of Inl e \<Rightarrow> Inl e | Inr st' \<Rightarrow> perform_all cs st')"

record flight_log =
  log_start :: u32
  log_phase :: u8
  log_events :: "flight_event list"

definition log_event :: "u32 \<Rightarrow> u8 \<Rightarrow> u32 \<Rightarrow> u32 \<Rightarrow> flight_log \<Rightarrow> flight_log" where
  "log_event now k a b l =
     l\<lparr>log_events := log_events l @ [\<lparr>us = now - log_start l, ev_phase = log_phase l, kind = k, ev_a = a, ev_b = b\<rparr>]\<rparr>"

fun log_call :: "call \<Rightarrow> flight_log \<Rightarrow> flight_log" where
  "log_call (Reset now) l = \<lparr>log_start = now, log_phase = 0, log_events = []\<rparr>"
| "log_call (PhaseAt now p) l = log_event now 1 (ucast p) 0 (l\<lparr>log_phase := p\<rparr>)"
| "log_call (EventAt now k a b) l = log_event now k a b l"
| "log_call (Routed now k success qs) l =
     (if k = 0 then l
      else log_event now (if k = 1 then 6 else 7) (push_bit 8 (ucast k) OR (if success then 1 else 0))
             (push_bit 16 (of_nat (fst qs)) OR of_nat (snd qs)) l)"

definition empty_log :: flight_log where
  "empty_log = \<lparr>log_start = 0, log_phase = 0, log_events = []\<rparr>"

text \<open>Reading the ring, oldest event first.\<close>

definition ring_read :: "snapshot \<Rightarrow> flight_event list" where
  "ring_read s =
     (let n = unat (total_events s)
      in if n < 64 then take n (events s) else map (\<lambda>i. events s ! ((n + i) mod 64)) [0..<64])"

section \<open>The ring refines the log\<close>

definition ring_refines :: "flight_recorder \<Rightarrow> flight_log \<Rightarrow> bool" where
  "ring_refines st l \<longleftrightarrow>
     start st = log_start l \<and> snap_phase (snapshot_of st) = log_phase l \<and> length (phase_us (snapshot_of st)) = 11 \<and>
     length (events (snapshot_of st)) = 64 \<and> total_events (snapshot_of st) = of_nat (length (log_events l)) \<and>
     (\<forall>i<length (log_events l). length (log_events l) \<le> i + 64 \<longrightarrow>
        events (snapshot_of st) ! (i mod 64) = log_events l ! i)"

lemma unat_mod_64: "unat (of_nat n :: u32) mod 64 = n mod 64"
  by (simp add: unat_of_nat mod_mod_cancel)

lemma window_distinct: "i < n \<Longrightarrow> n < i + 64 \<Longrightarrow> i mod 64 \<noteq> n mod 64" for i n :: nat
proof
  assume "i < n" "n < i + 64" "i mod 64 = n mod 64"
  then have "64 dvd n - i" using mod_eq_dvd_iff_nat [of i n 64] by simp
  then show False using \<open>i < n\<close> \<open>n < i + 64\<close> dvd_imp_le [of 64 "n - i"] by simp
qed

lemma ring_append_refines:
  assumes "ring_refines st l"
  shows "ring_refines (ring_append now k a b st) (log_event now k a b l)"
proof -
  let ?n = "length (log_events l)"
  have "events (snapshot_of (ring_append now k a b st)) ! (i mod 64) = log_events (log_event now k a b l) ! i"
    if "i < ?n + 1" "?n + 1 \<le> i + 64" for i
  proof (cases "i = ?n")
    case True
    then show ?thesis using assms by (simp add: ring_append_def log_event_def ring_refines_def unat_mod_64 Let_def)
  next
    case False
    then have "i mod 64 \<noteq> ?n mod 64" using that window_distinct [of i ?n] by simp
    then show ?thesis using assms that False
      by (simp add: ring_append_def log_event_def ring_refines_def unat_mod_64 Let_def nth_append)
  qed
  then show ?thesis using assms by (simp add: ring_append_def log_event_def ring_refines_def Let_def)
qed

text \<open>What the events say does not depend on the counters.\<close>

lemma refines_snapshot:
  assumes "ring_refines st l" and "events s = events (snapshot_of st)" "total_events s = total_events (snapshot_of st)"
    and "length (phase_us s) = 11" "snap_phase s = p"
  shows "ring_refines (st\<lparr>snapshot_of := s\<rparr>) (l\<lparr>log_phase := p\<rparr>)"
  using assms by (simp add: ring_refines_def)

lemma ring_refinesD:
  "ring_refines st l \<Longrightarrow> length (phase_us (snapshot_of st)) = 11"
  "ring_refines st l \<Longrightarrow> snap_phase (snapshot_of st) = log_phase l"
  by (simp_all add: ring_refines_def)

lemma phase_refines:
  assumes "phase now p st = Inr st'" "ring_refines st l"
  shows "ring_refines st' (log_event now 1 (ucast p) 0 (l\<lparr>log_phase := p\<rparr>))"
proof -
  let ?s = "(snapshot_of st)\<lparr>snap_phase := p, phase_us := (phase_us (snapshot_of st))[unat p := now - start st]\<rparr>"
  have "st' = ring_append now 1 (ucast p) 0 (st\<lparr>snapshot_of := ?s\<rparr>)"
    using assms(1) by (simp add: phase_def Let_def split: if_splits)
  moreover have "ring_refines (st\<lparr>snapshot_of := ?s\<rparr>) (l\<lparr>log_phase := p\<rparr>)"
    by (rule refines_snapshot [OF assms(2)]) (simp_all add: ring_refinesD [OF assms(2)])
  ultimately show ?thesis by (simp add: ring_append_refines)
qed

text \<open>A call of \<open>routed\<close> changes counters and may append one event.\<close>

lemma routed_Inr:
  assumes "routed now k success qs st = Inr st'"
  obtains "st' = st" "k = 0"
  | failures r d where "st' = (let st1 = st\<lparr>snapshot_of := (snapshot_of st)\<lparr>queues := qs, route_failures := failures,
        eapol_routed := r, eapol_dropped := d\<rparr>\<rparr>
      in if k \<noteq> 0
         then ring_append now (if k = 1 then 6 else 7) (push_bit 8 (ucast k) OR (if success then 1 else 0))
           (push_bit 16 (of_nat (fst qs)) OR of_nat (snd qs)) st1
         else st1)"
  using assms unfolding routed_def Let_def by (fastforce split: if_splits sum.splits)

lemma routed_refines:
  assumes "routed now k success qs st = Inr st'" and l: "ring_refines st l"
  shows "ring_refines st' (log_call (Routed now k success qs) l)"
  using assms(1)
proof (cases rule: routed_Inr)
  case 1
  then show ?thesis using l by simp
next
  case (2 failures r d)
  let ?s = "(snapshot_of st)\<lparr>queues := qs, route_failures := failures, eapol_routed := r, eapol_dropped := d\<rparr>"
  have "ring_refines (st\<lparr>snapshot_of := ?s\<rparr>) l"
    using refines_snapshot [OF l, of ?s "log_phase l"] by (simp add: ring_refinesD [OF l])
  then show ?thesis using 2 ring_append_refines by (auto simp: Let_def)
qed

lemma perform_refines:
  assumes "perform c st = Inr st'" "ring_refines st l"
  shows "ring_refines st' (log_call c l)"
proof (cases c)
  case (Reset now)
  then show ?thesis using assms by (auto simp: reset_def Snapshot_empty_def ring_refines_def)
next
  case (PhaseAt now p)
  then show ?thesis using assms phase_refines by simp
next
  case (EventAt now k a b)
  then show ?thesis using assms ring_append_refines by (auto simp: event_def)
next
  case (Routed now k success qs)
  then show ?thesis using assms routed_refines by (simp del: log_call.simps)
qed

lemma perform_all_refines:
  "perform_all cs st = Inr st' \<Longrightarrow> ring_refines st l \<Longrightarrow> ring_refines st' (fold log_call cs l)"
  by (induction cs arbitrary: st l) (auto split: sum.splits dest: perform_refines)

lemma ring_read_last:
  assumes "ring_refines st l" "length (log_events l) < 2 ^ 32"
  shows "ring_read (snapshot_of st) = drop (length (log_events l) - 64) (log_events l)"
proof -
  let ?n = "length (log_events l)" and ?s = "snapshot_of st"
  have n: "unat (total_events ?s) = ?n" and e: "length (events ?s) = 64"
    and r: "\<And>i. i < ?n \<Longrightarrow> ?n \<le> i + 64 \<Longrightarrow> events ?s ! (i mod 64) = log_events l ! i"
    using assms by (simp_all add: ring_refines_def unat_of_nat)
  show ?thesis
  proof (cases "?n < 64")
    case True
    then show ?thesis using n e r by (intro nth_equalityI) (auto simp: ring_read_def)
  next
    case False
    have "events ?s ! ((?n + i) mod 64) = log_events l ! (?n - 64 + i)" if "i < 64" for i
    proof -
      have "?n + i = ?n - 64 + i + 64" using False by simp
      then have "(?n + i) mod 64 = (?n - 64 + i) mod 64" by (metis mod_add_self2)
      then show ?thesis using r [of "?n - 64 + i"] that False by simp
    qed
    then show ?thesis using False n by (intro nth_equalityI) (auto simp: ring_read_def)
  qed
qed

text \<open>
  C40: the ring of the flight recorder refines an unbounded log. After any calls that did not
  panic, the recorder holds the events since the last reset in their order, up to the last 64 of
  them, and the number of all of them; the slot of an event is right also when that number
  wrapped around its 32 bits.
\<close>

theorem ring_holds_last_events:
  assumes "perform_all cs STATE_init = Inr st"
  shows "(length (log_events (fold log_call cs empty_log)) < 2 ^ 32 \<longrightarrow>
            ring_read (snapshot_of st) =
              drop (length (log_events (fold log_call cs empty_log)) - 64) (log_events (fold log_call cs empty_log))) \<and>
         total_events (snapshot_of st) = of_nat (length (log_events (fold log_call cs empty_log))) \<and>
         (\<forall>i<length (log_events (fold log_call cs empty_log)). length (log_events (fold log_call cs empty_log)) \<le> i + 64 \<longrightarrow>
            events (snapshot_of st) ! (i mod 64) = log_events (fold log_call cs empty_log) ! i)"
proof -
  have "ring_refines STATE_init empty_log"
    by (simp add: STATE_init_def Snapshot_empty_def empty_log_def ring_refines_def)
  from perform_all_refines [OF assms this] show ?thesis
    using ring_read_last by (simp add: ring_refines_def)
qed

theorem ring_holds_last_events_witness:
  "\<exists>st. perform_all [Reset 5, PhaseAt 7 3, EventAt 9 2 1 0] STATE_init = Inr st \<and>
     ring_read (snapshot_of st) =
       [\<lparr>us = 2, ev_phase = 3, kind = 1, ev_a = 3, ev_b = 0\<rparr>, \<lparr>us = 4, ev_phase = 3, kind = 2, ev_a = 1, ev_b = 0\<rparr>]"
proof -
  obtain st where "perform_all [Reset 5, PhaseAt 7 3, EventAt 9 2 1 0] STATE_init = Inr st"
    by (simp add: reset_def phase_def event_def Snapshot_empty_def Let_def)
  moreover from ring_holds_last_events [OF this] have "ring_read (snapshot_of st) =
       [\<lparr>us = 2, ev_phase = 3, kind = 1, ev_a = 3, ev_b = 0\<rparr>, \<lparr>us = 4, ev_phase = 3, kind = 2, ev_a = 1, ev_b = 0\<rparr>]"
    by (simp add: log_event_def empty_log_def)
  ultimately show ?thesis by blast
qed

end
