(* ===== verification/Sta_Probe.thy ===== *)
theory Sta_Probe
  imports Sta_Link Handshake_Probe
begin

unbundle bit_operations_syntax

text \<open>
  The routing of a station in the builds with the handshake flight recorder,
  \<open>RoutingRunner::run\<close> in \<open>foa_sta/src/runner.rs\<close>: what is recorded of a frame that goes to the RX
  router. The lemmas show that recording changes nothing of what the runner does, and that the
  counters of the recorder are the frames that were queued and lost.
\<close>

section \<open>Recording\<close>

definition probe_kind :: "generic_frame \<Rightarrow> u8" where
  "probe_kind g =
     (if gf_eapol_key g then 1
      else case gf_type g of
             Management Authentication \<Rightarrow> 2
           | Management AssociationResponse \<Rightarrow> 3
           | Management Deauthentication \<Rightarrow> 4
           | _ \<Rightarrow> 0)"

text \<open>The key information of an EAPOL key frame, with the state of the connection and the retry flag
  of the frame. \<open>retry\<close> reads that flag from the header.\<close>

definition record_key_frame ::
  "data_parser \<Rightarrow> (data_frame \<Rightarrow> bool) \<Rightarrow> u32 \<Rightarrow> bytes \<Rightarrow> bool \<Rightarrow> flight_recorder \<Rightarrow> flight_recorder" where
  "record_key_frame parse retry now buf is_connected p =
     (case parse buf of
        None \<Rightarrow> p
      | Some f \<Rightarrow>
          (case payload f of
             None \<Rightarrow> p
           | Some body \<Rightarrow>
               if get_at 9 body = Some 3
               then (case get_range 13 15 body of
                       None \<Rightarrow> p
                     | Some flags \<Rightarrow>
                         event now 10 (of_nat (be16 (flags ! 0) (flags ! 1)))
                           ((if is_connected then 1 else 0) OR push_bit 1 (if retry f then 1 else 0)) p)
               else p))"

text \<open>Whether a frame gets as far as the router.\<close>

definition reaches_router ::
  "('c, 'm, 'k, 'fl, 'q, 'g) sta_env \<Rightarrow> 'n runner_env \<Rightarrow> generic_frame \<Rightarrow> bytes \<Rightarrow> ('c, 'k, 'fl, 'q, 'g) sta_tx_rx \<Rightarrow> bool" where
  "reaches_router e re g buf w \<longleftrightarrow>
     \<not> wrong_receiver re (gf_address_1 g) w \<and>
     (in_off_channel_operation e w \<or> \<not> off_channel_operation_in_progress (lmac w)) \<and>
     \<not> (connected (connection_state w) \<and> \<not> is_key_frame (e_parse e) buf \<and> is_data g)"

definition routing_round_recorded ::
  "('c, 'm, 'k, 'fl, 'q, 'g) sta_env \<Rightarrow> 'n runner_env \<Rightarrow> (data_frame \<Rightarrow> bool) \<Rightarrow> u32 \<Rightarrow> u32 \<Rightarrow> bytes \<Rightarrow>
     ('c, 'k, 'fl, 'q, 'g) sta_tx_rx \<times> 'n \<times> flight_recorder \<Rightarrow>
     panic + ('c, 'k, 'fl, 'q, 'g) sta_tx_rx \<times> 'n \<times> flight_recorder" where
  "routing_round_recorded e re retry t1 t2 buf s =
     (let (w, n, p) = s
      in case e_generic e buf of
           None \<Rightarrow> Inr (w, n, p)
         | Some g \<Rightarrow>
             if \<not> reaches_router e re g buf w
             then (let (w', n') = routing_round e re buf (w, n) in Inr (w', n', p))
             else (let k = probe_kind g;
                       p1 = (if k = 1 then record_key_frame (e_parse e) retry t1 buf (connected (connection_state w)) p else p);
                       (res, rt) = route_frame (e_queue e) sta_router_ops (e_generic e) buf (router w);
                       qs = queue_lengths (e_queue e) rt
                   in case routed t2 k (res = Inr ()) (qs ! 0, qs ! 1) p1 of
                        Inl x \<Rightarrow> Inl x
                      | Inr p2 \<Rightarrow> Inr (w\<lparr>router := rt\<rparr>, n, p2)))"

section \<open>Recording changes nothing\<close>

lemma reaches_router_routing:
  assumes "e_generic e buf = Some g" "reaches_router e re g buf w"
  shows "routing_round e re buf (w, n) = (route_to_router e buf w, n)"
  using assms by (auto simp: routing_round_def reaches_router_def)

lemma routing_recorded_transparent:
  assumes "routing_round_recorded e re retry t1 t2 buf (w, n, p) = Inr (w', n', p')"
  shows "routing_round e re buf (w, n) = (w', n')"
proof (cases "e_generic e buf")
  case None
  then show ?thesis using assms by (simp add: routing_round_recorded_def routing_round_def)
next
  case (Some g)
  show ?thesis
  proof (cases "reaches_router e re g buf w")
    case True
    then show ?thesis using assms Some reaches_router_routing [OF Some True, of n]
      by (auto simp: routing_round_recorded_def route_to_router_def Let_def split: sum.splits prod.splits)
  next
    case False
    then show ?thesis using assms Some by (auto simp: routing_round_recorded_def split: prod.splits)
  qed
qed

section \<open>The counters count the frames\<close>

lemma record_key_frame_counters [simp]:
  "eapol_routed (snapshot_of (record_key_frame parse retry now buf b p)) = eapol_routed (snapshot_of p)"
  "eapol_dropped (snapshot_of (record_key_frame parse retry now buf b p)) = eapol_dropped (snapshot_of p)"
  by (auto simp: record_key_frame_def event_def ring_append_def Let_def split: option.splits)

lemma count_if_unat: "count_if c x = Inr y \<Longrightarrow> unat y = unat x + (if c then 1 else 0)"
  by (auto simp: count_if_def split: if_splits option.splits)

lemma routed_counters:
  assumes "routed now k success qs p = Inr p'"
  shows "unat (eapol_routed (snapshot_of p')) = unat (eapol_routed (snapshot_of p)) + (if k = 1 \<and> success then 1 else 0)"
    "unat (eapol_dropped (snapshot_of p')) = unat (eapol_dropped (snapshot_of p)) + (if k = 1 \<and> \<not> success then 1 else 0)"
proof -
  consider "p' = p" "k = 0"
    | failures r d where "count_if (k = 1 \<and> success) (eapol_routed (snapshot_of p)) = Inr r"
      "count_if (k = 1 \<and> \<not> success) (eapol_dropped (snapshot_of p)) = Inr d"
      "eapol_routed (snapshot_of p') = r" "eapol_dropped (snapshot_of p') = d"
    using assms unfolding routed_def Let_def by (fastforce simp: ring_append_def Let_def split: if_splits sum.splits)
  then show "unat (eapol_routed (snapshot_of p')) = unat (eapol_routed (snapshot_of p)) + (if k = 1 \<and> success then 1 else 0)"
    "unat (eapol_dropped (snapshot_of p')) = unat (eapol_dropped (snapshot_of p)) + (if k = 1 \<and> \<not> success then 1 else 0)"
    by (cases; auto dest!: count_if_unat)+
qed

text \<open>
  The recorder tells the truth about lost handshake messages. An EAPOL key frame that gets as far as
  the router is either appended to the queue of the running connection attempt or of the
  background, and counted as routed, or that queue is full and it is counted as dropped; any other
  frame leaves both counters alone. The station does the same as without the recorder.
\<close>

theorem eapol_evidence_exact:
  assumes "fifo_channel cap view (e_queue e)" "e_generic e buf = Some g" "reaches_router e re g buf w"
    and "routing_round_recorded e re retry t1 t2 buf (w, n, p) = Inr (w', n', p')"
    and "q = (if frame_relevant_for_operation sta_router_ops g (foreground_queue_state (router w)) then Foreground else Background)"
  shows "(w', n') = routing_round e re buf (w, n) \<and>
    (if length (view (rq_queue (queue_state_of q (router w)))) < cap
     then view (rq_queue (queue_state_of q (router w'))) = view (rq_queue (queue_state_of q (router w))) @ [buf] \<and>
       unat (eapol_routed (snapshot_of p')) = unat (eapol_routed (snapshot_of p)) + (if gf_eapol_key g then 1 else 0) \<and>
       eapol_dropped (snapshot_of p') = eapol_dropped (snapshot_of p)
     else router w' = router w \<and> eapol_routed (snapshot_of p') = eapol_routed (snapshot_of p) \<and>
       unat (eapol_dropped (snapshot_of p')) = unat (eapol_dropped (snapshot_of p)) + (if gf_eapol_key g then 1 else 0))"
proof -
  obtain res rt where R: "route_frame (e_queue e) sta_router_ops (e_generic e) buf (router w) = (res, rt)" by fastforce
  have single: "\<not> CONCORRUENT_OPERATIONS_SUPPORTED sta_router_ops" by (simp add: sta_router_ops_def)
  note route = route_frame_delivers_once [OF assms(1) single assms(2) R assms(5)]
  let ?p1 = "if probe_kind g = 1 then record_key_frame (e_parse e) retry t1 buf (connected (connection_state w)) p else p"
  obtain qs where P: "routed t2 (probe_kind g) (res = Inr ()) qs ?p1 = Inr p'" "w' = w\<lparr>router := rt\<rparr>"
    using assms(2-4) R by (auto simp: routing_round_recorded_def Let_def split: sum.splits)
  have k: "probe_kind g = 1 \<longleftrightarrow> gf_eapol_key g"
    by (simp add: probe_kind_def split: frame_type.split management_subtype.split)
  note C = routed_counters [OF P(1)]
  have same: "eapol_routed (snapshot_of ?p1) = eapol_routed (snapshot_of p)" "eapol_dropped (snapshot_of ?p1) = eapol_dropped (snapshot_of p)"
    by simp_all
  show ?thesis
    using route C P(2) k same routing_recorded_transparent [OF assms(4)]
    by (auto simp: word_unat_eq_iff split: if_splits)
qed

end
