(* ===== verification/Awdl_Peer.thy ===== *)
theory Awdl_Peer
  imports Foa_Prelude
begin

text \<open>
  AWDL peers, \<open>foa_awdl/src/peer.rs\<close>: time synchronisation, master election and the
  information of a peer. Times are microseconds; \<open>now\<close> is the reading of the system clock.
  The length \<open>TU\<close> of a time unit is a constant of a third-party package and a parameter. An
  action frame is the record of the TLVs the code reads.
\<close>

section \<open>Frames\<close>

text \<open>The fields of the third-party frame types that the code reads or writes.\<close>

datatype legacy_flags = LegacyFlags (band_2_4_ghz: bool) (primary: bool) (bandwidth: u8)

text \<open>A channel sequence in one of its three encodings; flags and operating classes are numbers.\<close>

datatype channel_sequence_encoding =
  Simple "u8 list" | Legacy "(legacy_flags \<times> u8) list" | OpClass "(u8 \<times> u8) list"

record channel_sequence_tlv =
  step_count :: u8
  sequence_field :: channel_sequence_encoding

record sync_params_tlv =
  next_channel_field :: u8
  tx_counter_field :: u16
  master_channel :: u8
  aw_period :: u16
  af_period :: u16
  awdl_flags :: u16
  aw_ext_length :: u16
  aw_common_length :: u16
  remaining_aw_length_field :: u16
  min_ext_count :: u8
  max_multicast_ext_count :: u8
  max_unicast_ext_count :: u8
  max_af_ext_count :: u8
  tlv_master_address :: mac_address
  presence_mode :: u8
  aw_seq_number_field :: u16
  ap_beacon_alignment_delta :: u16
  tlv_channel_sequence :: channel_sequence_tlv

record election_v2_tlv =
  v2_self_metric :: u32
  v2_self_counter :: u32
  v2_master_metric :: u32
  v2_master_counter :: u32
  v2_sync_address :: mac_address
  v2_master_address :: mac_address
  v2_distance_to_master :: u32

record election_v1_tlv =
  v1_self_metric :: u32
  v1_master_metric :: u32
  v1_master_address :: mac_address
  v1_distance_to_master :: u8

text \<open>The domain of a service response, and its record.\<close>

datatype dns_domain = AirPlayTcpLocal | AirDropTcpLocal | OtherDomain

datatype dns_record = SRV u16 | OtherRecord

record data_path_tlv =
  infra_address :: mac_address
  awdl_address :: mac_address
  dp_country_code :: string

record awdl_action_frame =
  tx_delta :: nat
  af_channel_sequence :: "channel_sequence_tlv option"
  af_sync_params :: "sync_params_tlv option"
  af_election_v2 :: "election_v2_tlv option"
  af_election_v1 :: "election_v1_tlv option"
  af_services :: "(dns_domain \<times> dns_record) list"
  af_data_path :: "data_path_tlv option"
  af_raw_tlvs :: "(u8 \<times> bytes) list"
  af_version :: "(u8 \<times> u8) option"

section \<open>Synchronisation\<close>

datatype overlap_slot_state = NoOverlappingSlots | PeerNotInCache | CurrentlyOverlapping | OverlappingAt nat

record synchronization_state =
  channel_sequence :: "u8 list"
  tsf_epoch_in_us :: int

definition AW_PER_SLOT :: nat where "AW_PER_SLOT = 4"
definition TU_PER_AW :: nat where "TU_PER_AW = 16"
definition SLOTS_PER_CHANNEL_SEQUENCE :: nat where "SLOTS_PER_CHANNEL_SEQUENCE = 16"

definition AW_DURATION_IN_US :: "nat \<Rightarrow> nat" where
  "AW_DURATION_IN_US TU = TU * TU_PER_AW"

definition SLOT_DURATION :: "nat \<Rightarrow> nat" where
  "SLOT_DURATION TU = (AW_PER_SLOT * TU_PER_AW) * TU"

definition CHANNEL_SEQUENCE_DURATION :: "nat \<Rightarrow> nat" where
  "CHANNEL_SEQUENCE_DURATION TU = SLOT_DURATION TU * SLOTS_PER_CHANNEL_SEQUENCE"

definition SynchronizationState_UNINIT :: synchronization_state where
  "SynchronizationState_UNINIT = \<lparr>channel_sequence = replicate 16 6, tsf_epoch_in_us = 0\<rparr>"

definition SynchronizationState_new :: "nat \<Rightarrow> u8 \<Rightarrow> synchronization_state" where
  "SynchronizationState_new now ch = \<lparr>channel_sequence = replicate 16 ch, tsf_epoch_in_us = int now\<rparr>"

definition sync_adopt_master :: "synchronization_state \<Rightarrow> synchronization_state \<Rightarrow> synchronization_state" where
  "sync_adopt_master master s = s\<lparr>tsf_epoch_in_us := tsf_epoch_in_us master\<rparr>"

text \<open>The product of the two 16-bit fields plus the third is computed in 32 bits.\<close>

definition tu_since_first_aw :: "sync_params_tlv \<Rightarrow> u32" where
  "tu_since_first_aw t =
     ucast (aw_period t) * ucast (aw_seq_number_field t) + ucast (remaining_aw_length_field t)"

definition recover_tsf_epoch :: "nat \<Rightarrow> sync_params_tlv \<Rightarrow> nat \<Rightarrow> nat \<Rightarrow> int" where
  "recover_tsf_epoch TU t delta rx_timestamp =
     int rx_timestamp - (int TU * int (unat (tu_since_first_aw t)) - int delta)"

fun sequence_channels :: "channel_sequence_encoding \<Rightarrow> u8 list" where
  "sequence_channels (Simple chs) = chs"
| "sequence_channels (Legacy xs) = map snd xs"
| "sequence_channels (OpClass xs) = map fst xs"

definition SynchronizationState_from_af :: "nat \<Rightarrow> awdl_action_frame \<Rightarrow> nat \<Rightarrow> synchronization_state option" where
  "SynchronizationState_from_af TU af rx_timestamp =
     (case af_channel_sequence af of
        None \<Rightarrow> None
      | Some c \<Rightarrow>
          (case af_sync_params af of
             None \<Rightarrow> None
           | Some t \<Rightarrow>
               Some \<lparr>channel_sequence = sequence_channels (sequence_field c),
                     tsf_epoch_in_us = recover_tsf_epoch TU t (tx_delta af) rx_timestamp\<rparr>))"

text \<open>The signed difference is converted to an unsigned 64-bit number.\<close>

definition elapsed_since_tsf_epoch :: "nat \<Rightarrow> synchronization_state \<Rightarrow> nat" where
  "elapsed_since_tsf_epoch now s = nat ((int now - tsf_epoch_in_us s) mod 2 ^ 64)"

definition aw_seq_number :: "nat \<Rightarrow> nat \<Rightarrow> u16" where
  "aw_seq_number TU d = of_nat (d div AW_DURATION_IN_US TU)"

definition remaining_aw_length :: "nat \<Rightarrow> nat \<Rightarrow> u16" where
  "remaining_aw_length TU d = of_nat (d mod AW_DURATION_IN_US TU div TU)"

definition remaining_slot_length :: "nat \<Rightarrow> nat \<Rightarrow> u16" where
  "remaining_slot_length TU d = of_nat (d mod (AW_DURATION_IN_US TU * AW_PER_SLOT) div TU)"

definition current_slot_index :: "nat \<Rightarrow> nat \<Rightarrow> nat" where
  "current_slot_index TU d = unat (aw_seq_number TU d) div AW_PER_SLOT mod SLOTS_PER_CHANNEL_SEQUENCE"

definition next_slot_index :: "nat \<Rightarrow> nat \<Rightarrow> nat" where
  "next_slot_index TU d = (unat (aw_seq_number TU d) div AW_PER_SLOT + 1) mod SLOTS_PER_CHANNEL_SEQUENCE"

definition next_channel :: "nat \<Rightarrow> nat \<Rightarrow> synchronization_state \<Rightarrow> u8" where
  "next_channel TU d s = channel_sequence s ! next_slot_index TU d"

definition slot_start_timestamp :: "nat \<Rightarrow> nat \<Rightarrow> nat \<Rightarrow> nat \<Rightarrow> synchronization_state \<Rightarrow> nat" where
  "slot_start_timestamp TU now slot offset s =
     (let duration_since_epoch = elapsed_since_tsf_epoch now s;
          elapsed = duration_since_epoch mod CHANNEL_SEQUENCE_DURATION TU;
          start = (if elapsed \<le> now then now - elapsed else now);
          to_slot = SLOT_DURATION TU * slot + offset
      in start + (if elapsed > to_slot then to_slot + CHANNEL_SEQUENCE_DURATION TU else to_slot))"

definition multicast_slot_start_timestamp :: "nat \<Rightarrow> nat \<Rightarrow> synchronization_state \<Rightarrow> nat" where
  "multicast_slot_start_timestamp TU now s = slot_start_timestamp TU now 9 0 s"

text \<open>
  The clock is read for every comparison: \<open>now1\<close> for our slot, \<open>now2\<close> for the slot of the
  other state, \<open>now3\<close> for the result.
\<close>

definition next_overlap_timestamp ::
  "nat \<Rightarrow> nat \<Rightarrow> nat \<Rightarrow> nat \<Rightarrow> synchronization_state \<Rightarrow> synchronization_state \<Rightarrow> overlap_slot_state" where
  "next_overlap_timestamp TU now1 now2 now3 sync_state s =
     (let current_slot = current_slot_index TU (elapsed_since_tsf_epoch now1 s)
      in if channel_sequence s ! current_slot =
            channel_sequence sync_state ! current_slot_index TU (elapsed_since_tsf_epoch now2 sync_state)
         then CurrentlyOverlapping
         else case find (\<lambda>slot. channel_sequence s ! slot = channel_sequence sync_state ! slot)
                     ([current_slot..<16] @ [0..<current_slot]) of
                Some slot \<Rightarrow> OverlappingAt (slot_start_timestamp TU now3 slot 0 s)
              | None \<Rightarrow> NoOverlappingSlots)"

definition mif_transmition_time :: "nat \<Rightarrow> nat \<Rightarrow> nat \<Rightarrow> synchronization_state \<Rightarrow> nat" where
  "mif_transmition_time TU now1 now2 s =
     (let d = elapsed_since_tsf_epoch now1 s;
          slot = (if unat (remaining_slot_length TU d) < 32 then next_slot_index TU d else current_slot_index TU d)
      in slot_start_timestamp TU now2 slot (TU * 16) s)"

definition sync_generate_tlv :: "nat \<Rightarrow> nat \<Rightarrow> mac_address \<Rightarrow> synchronization_state \<Rightarrow> sync_params_tlv" where
  "sync_generate_tlv TU now master s =
     (let d = elapsed_since_tsf_epoch now s
      in \<lparr>next_channel_field = next_channel TU d s, tx_counter_field = remaining_slot_length TU d,
          master_channel = 6, aw_period = 16, af_period = 110, awdl_flags = 0x1800, aw_ext_length = 16,
          aw_common_length = 16, remaining_aw_length_field = remaining_aw_length TU d, min_ext_count = 3,
          max_multicast_ext_count = 3, max_unicast_ext_count = 3, max_af_ext_count = 3,
          tlv_master_address = master, presence_mode = 4, aw_seq_number_field = aw_seq_number TU d,
          ap_beacon_alignment_delta = 0,
          tlv_channel_sequence =
            \<lparr>step_count = 4,
             sequence_field = Legacy (map (\<lambda>ch. (LegacyFlags True True 2, ch)) (channel_sequence s))\<rparr>\<rparr>)"

section \<open>Election\<close>

record election_state =
  self_metric :: u32
  self_counter :: "u32 option"
  master_metric :: u32
  master_counter :: "u32 option"
  sync_peer :: "mac_address option"
  root_peer :: mac_address
  distance_to_master :: u32

definition ElectionState_new :: "mac_address \<Rightarrow> election_state" where
  "ElectionState_new addr =
     \<lparr>self_metric = 60, self_counter = Some 0, master_metric = 60, master_counter = Some 0,
      sync_peer = Some addr, root_peer = addr, distance_to_master = 0\<rparr>"

definition ElectionState_UNINIT :: election_state where
  "ElectionState_UNINIT = ElectionState_new (replicate 6 0)"

definition set_master_to_self :: "mac_address \<Rightarrow> election_state \<Rightarrow> election_state" where
  "set_master_to_self addr e = ElectionState_new addr"

definition is_master :: "mac_address \<Rightarrow> election_state \<Rightarrow> bool" where
  "is_master addr e \<longleftrightarrow> (case sync_peer e of None \<Rightarrow> root_peer e | Some p \<Rightarrow> p) = addr"

text \<open>The distance is incremented in checked 32-bit arithmetic.\<close>

definition elect_adopt_master :: "mac_address \<Rightarrow> election_state \<Rightarrow> election_state \<Rightarrow> panic + election_state" where
  "elect_adopt_master addr m e =
     (case checked_inc (distance_to_master m) of
        None \<Rightarrow> Inl (Panic ''attempt to add with overflow'')
      | Some dist \<Rightarrow>
          Inr (e\<lparr>master_metric := master_metric m,
                 master_counter := Some (case master_counter m of None \<Rightarrow> 0 | Some c \<Rightarrow> c),
                 distance_to_master := dist, root_peer := root_peer m, sync_peer := Some addr\<rparr>))"

definition ElectionState_from_af :: "awdl_action_frame \<Rightarrow> election_state option" where
  "ElectionState_from_af af =
     (case af_election_v2 af of
        Some t \<Rightarrow>
          Some \<lparr>self_metric = v2_self_metric t, self_counter = Some (v2_self_counter t),
                master_metric = v2_master_metric t, master_counter = Some (v2_master_counter t),
                sync_peer = Some (v2_sync_address t), root_peer = v2_master_address t,
                distance_to_master = v2_distance_to_master t\<rparr>
      | None \<Rightarrow>
          map_option (\<lambda>t.
            \<lparr>self_metric = v1_self_metric t, self_counter = None, master_metric = v1_master_metric t,
             master_counter = None, sync_peer = None, root_peer = v1_master_address t,
             distance_to_master = ucast (v1_distance_to_master t)\<rparr>) (af_election_v1 af))"

text \<open>Both counters are read from the same state.\<close>

definition is_more_eligible :: "election_state \<Rightarrow> election_state \<Rightarrow> bool" where
  "is_more_eligible e rhs =
     (case self_counter e of
        Some lhs_counter \<Rightarrow>
          (case self_counter e of
             Some rhs_counter \<Rightarrow>
               lhs_counter < rhs_counter \<or> (lhs_counter = rhs_counter \<and> self_metric e < self_metric rhs)
           | None \<Rightarrow> False)
      | None \<Rightarrow> if self_counter rhs \<noteq> None then True else self_metric e \<le> self_metric rhs)"

definition generate_tlv_v1 :: "election_state \<Rightarrow> election_v1_tlv" where
  "generate_tlv_v1 e =
     \<lparr>v1_self_metric = self_metric e, v1_master_metric = master_metric e, v1_master_address = root_peer e,
      v1_distance_to_master = ucast (distance_to_master e)\<rparr>"

definition generate_tlv_v2 :: "election_state \<Rightarrow> election_v2_tlv option" where
  "generate_tlv_v2 e =
     (case self_counter e of None \<Rightarrow> None
      | Some sc \<Rightarrow>
          (case master_counter e of None \<Rightarrow> None
           | Some mc \<Rightarrow>
               (case sync_peer e of None \<Rightarrow> None
                | Some sp \<Rightarrow>
                    Some \<lparr>v2_self_metric = self_metric e, v2_self_counter = sc,
                          v2_master_metric = master_metric e, v2_master_counter = mc, v2_sync_address = sp,
                          v2_master_address = root_peer e, v2_distance_to_master = distance_to_master e\<rparr>)))"

section \<open>Peers\<close>

datatype tx_phy_rate = OfdmMbits12

record awdl_peer =
  synchronization_state :: synchronization_state
  election_state :: election_state
  last_frame :: nat
  data_rate :: tx_phy_rate
  airdrop_port :: "u16 option"
  airplay_port :: "u16 option"

definition new_with_action_frame :: "nat \<Rightarrow> nat \<Rightarrow> awdl_action_frame \<Rightarrow> nat \<Rightarrow> awdl_peer option" where
  "new_with_action_frame TU now af rx_timestamp =
     (case SynchronizationState_from_af TU af rx_timestamp of
        None \<Rightarrow> None
      | Some s \<Rightarrow>
          (case ElectionState_from_af af of
             None \<Rightarrow> None
           | Some e \<Rightarrow>
               Some \<lparr>synchronization_state = s, election_state = e, last_frame = now,
                     data_rate = OfdmMbits12,
                     airdrop_port = None, airplay_port = None\<rparr>))"

text \<open>The loop over the service responses: a port is set once.\<close>

fun update_services :: "(dns_domain \<times> dns_record) list \<Rightarrow> awdl_peer \<times> bool \<Rightarrow> awdl_peer \<times> bool" where
  "update_services [] s = s"
| "update_services ((domn, SRV port) # rs) (p, found) =
     (case domn of
        AirPlayTcpLocal \<Rightarrow>
          (if airplay_port p = None then update_services rs (p\<lparr>airplay_port := Some port\<rparr>, True)
           else update_services rs (p, found))
      | AirDropTcpLocal \<Rightarrow>
          (if airdrop_port p = None then update_services rs (p\<lparr>airdrop_port := Some port\<rparr>, True)
           else update_services rs (p, found))
      | OtherDomain \<Rightarrow> update_services rs (p, found))"
| "update_services ((domn, OtherRecord) # rs) s = update_services rs s"

definition peer_update :: "nat \<Rightarrow> nat \<Rightarrow> awdl_action_frame \<Rightarrow> nat \<Rightarrow> awdl_peer \<Rightarrow> awdl_peer \<times> bool" where
  "peer_update TU now af rx_timestamp p =
     (let p1 = p\<lparr>last_frame := now\<rparr>;
          p2 = (case SynchronizationState_from_af TU af rx_timestamp of
                  None \<Rightarrow> p1 | Some s \<Rightarrow> p1\<lparr>synchronization_state := s\<rparr>);
          p3 = (case ElectionState_from_af af of None \<Rightarrow> p2 | Some e \<Rightarrow> p2\<lparr>election_state := e\<rparr>)
      in update_services (af_services af) (p3, False))"

section \<open>Time arithmetic\<close>

lemmas awdl_durations =
  AW_DURATION_IN_US_def SLOT_DURATION_def CHANNEL_SEQUENCE_DURATION_def AW_PER_SLOT_def TU_PER_AW_def
  SLOTS_PER_CHANNEL_SEQUENCE_def

lemma sequence_duration: "CHANNEL_SEQUENCE_DURATION TU = SLOT_DURATION TU * 16"
  by (simp add: awdl_durations)

lemma slot_duration: "SLOT_DURATION TU = 64 * TU"
  by (simp add: awdl_durations)

lemma mod_mult_div: "m mod (c * q) div c = m div c mod q" if "0 < c" for m c q :: nat
proof -
  have "m mod (c * q) = c * (m div c mod q) + m mod c" by (rule mod_mult2_eq)
  with that show ?thesis by simp
qed

lemma mod_div_drop: "m mod (4 * (16 * k)) div 4 mod 16 = m div 4 mod 16" for m k :: nat
  unfolding mod_mult_div [OF zero_less_numeral] by (simp add: mod_mod_cancel)

text \<open>The truncation of the window counter to 16 bits does not change the slot.\<close>

lemma aw_number_slot:
  "unat (aw_seq_number TU d) div 4 mod 16 = d div SLOT_DURATION TU mod 16"
proof -
  have "unat (aw_seq_number TU d) = d div AW_DURATION_IN_US TU mod (4 * (16 * 1024))"
    by (simp add: aw_seq_number_def unat_of_nat)
  then have "unat (aw_seq_number TU d) div 4 mod 16 = d div AW_DURATION_IN_US TU div 4 mod 16"
    using mod_div_drop [of "d div AW_DURATION_IN_US TU" 1024] by simp
  also have "d div AW_DURATION_IN_US TU div 4 = d div SLOT_DURATION TU"
    by (simp add: awdl_durations div_mult2_eq [symmetric] ac_simps)
  finally show ?thesis .
qed

lemma current_slot_index_eq: "current_slot_index TU d = d div SLOT_DURATION TU mod 16"
  by (simp add: current_slot_index_def AW_PER_SLOT_def SLOTS_PER_CHANNEL_SEQUENCE_def aw_number_slot)

lemma next_slot_index_eq: "next_slot_index TU d = (current_slot_index TU d + 1) mod 16"
proof -
  have "(unat (aw_seq_number TU d) div 4 + 1) mod 16 = (unat (aw_seq_number TU d) div 4 mod 16 + 1) mod 16"
    by (simp add: mod_simps)
  then show ?thesis
    by (simp add: next_slot_index_def current_slot_index_def AW_PER_SLOT_def SLOTS_PER_CHANNEL_SEQUENCE_def)
qed

lemma current_slot_index_less [simp]: "current_slot_index TU d < 16"
  by (simp add: current_slot_index_eq)

lemma slot_duration_pos: "0 < TU \<Longrightarrow> 0 < SLOT_DURATION TU"
  by (simp add: slot_duration)

lemma current_slot_in_sequence:
  assumes "0 < TU"
  shows "current_slot_index TU d = d mod CHANNEL_SEQUENCE_DURATION TU div SLOT_DURATION TU"
  unfolding current_slot_index_eq sequence_duration mod_mult_div [OF slot_duration_pos [OF assms]] ..

definition synchronised_at :: "nat \<Rightarrow> synchronization_state \<Rightarrow> bool" where
  "synchronised_at now s \<longleftrightarrow> tsf_epoch_in_us s \<le> int now \<and> int now - tsf_epoch_in_us s < 2 ^ 63"

lemma elapsed_exact:
  "tsf_epoch_in_us s \<le> int now \<Longrightarrow> int now - tsf_epoch_in_us s < 2 ^ 64 \<Longrightarrow>
   int (elapsed_since_tsf_epoch now s) = int now - tsf_epoch_in_us s"
  by (simp add: elapsed_since_tsf_epoch_def)

lemma to_slot_less: "slot < 16 \<Longrightarrow> offset < SLOT_DURATION TU \<Longrightarrow>
  SLOT_DURATION TU * slot + offset < CHANNEL_SEQUENCE_DURATION TU"
proof -
  assume "slot < 16" and off: "offset < SLOT_DURATION TU"
  then have "slot + 1 \<le> 16" by simp
  then have "SLOT_DURATION TU * (slot + 1) \<le> CHANNEL_SEQUENCE_DURATION TU"
    unfolding sequence_duration by (rule mult_le_mono2)
  with off show ?thesis by simp
qed

text \<open>
  The result lies in the channel sequence that starts now, and its distance to the start of the
  running sequence is the wanted position up to a whole sequence.
\<close>

lemma slot_start_timestamp_split:
  fixes TU now slot offset s
  defines "e \<equiv> elapsed_since_tsf_epoch now s mod CHANNEL_SEQUENCE_DURATION TU"
    and "t \<equiv> slot_start_timestamp TU now slot offset s"
  assumes pos: "0 < TU" and sat: "e \<le> now"
    and slot: "slot < 16" and off: "offset < SLOT_DURATION TU"
  shows "now \<le> t" and "t < now + CHANNEL_SEQUENCE_DURATION TU"
    and "(t + e - now) mod CHANNEL_SEQUENCE_DURATION TU = SLOT_DURATION TU * slot + offset"
proof -
  let ?w = "SLOT_DURATION TU * slot + offset"
  have w: "?w < CHANNEL_SEQUENCE_DURATION TU" using to_slot_less [OF slot off] .
  have "0 < CHANNEL_SEQUENCE_DURATION TU" using slot_duration_pos [OF pos] by (simp add: sequence_duration)
  then have e: "e < CHANNEL_SEQUENCE_DURATION TU" unfolding e_def by simp
  have t: "t = now - e + (if e > ?w then ?w + CHANNEL_SEQUENCE_DURATION TU else ?w)"
    using sat unfolding t_def slot_start_timestamp_def Let_def e_def [symmetric] by simp
  show "now \<le> t" using e sat unfolding t by auto
  show "t < now + CHANNEL_SEQUENCE_DURATION TU" using w sat unfolding t by auto
  have "t + e - now = (if e > ?w then ?w + CHANNEL_SEQUENCE_DURATION TU else ?w)"
    using sat unfolding t by simp
  then show "(t + e - now) mod CHANNEL_SEQUENCE_DURATION TU = ?w" using w by simp
qed

lemma elapsed_at_slot_start:
  fixes TU now slot offset s
  defines "t \<equiv> slot_start_timestamp TU now slot offset s"
  assumes pos: "0 < TU" and syn: "synchronised_at now s"
    and sat: "elapsed_since_tsf_epoch now s mod CHANNEL_SEQUENCE_DURATION TU \<le> now"
    and slot: "slot < 16" and off: "offset < SLOT_DURATION TU" and small: "CHANNEL_SEQUENCE_DURATION TU \<le> 2 ^ 63"
  shows "elapsed_since_tsf_epoch t s mod CHANNEL_SEQUENCE_DURATION TU = SLOT_DURATION TU * slot + offset"
proof -
  let ?C = "CHANNEL_SEQUENCE_DURATION TU"
  let ?d = "elapsed_since_tsf_epoch now s"
  note t = slot_start_timestamp_split [OF pos sat slot off, folded t_def]
  have d: "int ?d = int now - tsf_epoch_in_us s" using syn by (intro elapsed_exact) (auto simp: synchronised_at_def)
  have "int t - tsf_epoch_in_us s < 2 ^ 64"
    using t(2) small syn unfolding synchronised_at_def by simp
  then have "int (elapsed_since_tsf_epoch t s) = int t - tsf_epoch_in_us s"
    using t(1) syn by (intro elapsed_exact) (auto simp: synchronised_at_def)
  then have "int (elapsed_since_tsf_epoch t s) = int (t + ?d - now)" using d t(1) by simp
  then have "elapsed_since_tsf_epoch t s = t + ?d - now" by linarith
  also have "\<dots> = (t + ?d mod ?C - now) + ?C * (?d div ?C)"
    using t(1) mult_div_mod_eq [of ?C ?d] by linarith
  finally show ?thesis using t(3) by simp
qed

text \<open>
  The timestamp of a slot is never in the past and at most one channel sequence away, and at
  that time the clock of the peer is in the wanted slot, at the wanted offset. The hypotheses say
  that the epoch of the peer is a past time, and that the system runs for as long as the running
  channel sequence of the peer.
\<close>

theorem slot_start_correct:
  assumes "0 < TU" and "CHANNEL_SEQUENCE_DURATION TU \<le> 2 ^ 63" and "synchronised_at now s"
    and "elapsed_since_tsf_epoch now s mod CHANNEL_SEQUENCE_DURATION TU \<le> now"
    and "slot < 16" and "offset < SLOT_DURATION TU"
    and t: "t = slot_start_timestamp TU now slot offset s"
  shows "now \<le> t \<and> t < now + CHANNEL_SEQUENCE_DURATION TU \<and>
         current_slot_index TU (elapsed_since_tsf_epoch t s) = slot \<and>
         elapsed_since_tsf_epoch t s mod SLOT_DURATION TU = offset"
proof -
  note e = elapsed_at_slot_start [OF assms(1,3,4,5,6,2), folded t]
  note b = slot_start_timestamp_split(1,2) [OF assms(1,4,5,6), folded t]
  have "current_slot_index TU (elapsed_since_tsf_epoch t s) = slot"
    using assms(6) slot_duration_pos [OF assms(1)] by (simp add: current_slot_in_sequence [OF assms(1)] e)
  moreover have "elapsed_since_tsf_epoch t s mod SLOT_DURATION TU =
      elapsed_since_tsf_epoch t s mod CHANNEL_SEQUENCE_DURATION TU mod SLOT_DURATION TU"
    by (simp add: sequence_duration mod_mod_cancel)
  ultimately show ?thesis using b assms(6) by (simp add: e)
qed

theorem slot_start_correct_witness:
  "(5000000 :: nat) \<le> slot_start_timestamp 1024 5000000 9 100 \<lparr>channel_sequence = replicate 16 6, tsf_epoch_in_us = 7\<rparr>"
  using slot_start_correct [of 1024 5000000 "\<lparr>channel_sequence = replicate 16 6, tsf_epoch_in_us = 7\<rparr>" 9 100]
  by (simp add: awdl_durations synchronised_at_def elapsed_since_tsf_epoch_def)

section \<open>Overlapping slots\<close>

text \<open>The channel a peer listens on at a point of time.\<close>

definition channel_at :: "nat \<Rightarrow> nat \<Rightarrow> synchronization_state \<Rightarrow> u8" where
  "channel_at TU now s = channel_sequence s ! current_slot_index TU (elapsed_since_tsf_epoch now s)"

lemma same_epoch_elapsed:
  "tsf_epoch_in_us a = tsf_epoch_in_us b \<Longrightarrow> elapsed_since_tsf_epoch now a = elapsed_since_tsf_epoch now b"
  by (simp add: elapsed_since_tsf_epoch_def)

lemma find_slots_Some:
  assumes "find P ([c..<16] @ [0..<c]) = Some i" and "c < 16"
  shows "i < 16 \<and> P i"
  using assms by (auto simp: find_Some_iff nth_append)

lemma find_slots_None:
  assumes "find P ([c..<16] @ [0..<c]) = None" and "c < 16" and "i < 16"
  shows "\<not> P i"
  using assms by (cases "i < c") (auto simp: find_None_iff)

text \<open>
  C27: for two peers that follow the same epoch the answer about their overlap is right: the
  reported time is at most one channel sequence away and both peers are on the same channel
  then, and when no overlap is reported they are never on the same channel.
\<close>

theorem next_overlap_correct:
  assumes pos: "0 < TU" and small: "CHANNEL_SEQUENCE_DURATION TU \<le> 2 ^ 63" and syn: "synchronised_at now3 s"
    and sat: "elapsed_since_tsf_epoch now3 s mod CHANNEL_SEQUENCE_DURATION TU \<le> now3"
    and epoch: "tsf_epoch_in_us sync_state = tsf_epoch_in_us s"
  shows "case next_overlap_timestamp TU now1 now2 now3 sync_state s of
           OverlappingAt t \<Rightarrow>
             now3 \<le> t \<and> t < now3 + CHANNEL_SEQUENCE_DURATION TU \<and> channel_at TU t s = channel_at TU t sync_state
         | CurrentlyOverlapping \<Rightarrow> channel_at TU now1 s = channel_at TU now2 sync_state
         | NoOverlappingSlots \<Rightarrow> \<forall>t. channel_at TU t s \<noteq> channel_at TU t sync_state
         | PeerNotInCache \<Rightarrow> False"
proof -
  let ?c = "current_slot_index TU (elapsed_since_tsf_epoch now1 s)"
  let ?P = "\<lambda>slot. channel_sequence s ! slot = channel_sequence sync_state ! slot"
  have same: "elapsed_since_tsf_epoch t sync_state = elapsed_since_tsf_epoch t s" for t
    by (rule same_epoch_elapsed) (rule epoch)
  consider (now) "channel_at TU now1 s = channel_at TU now2 sync_state"
    | (never) "channel_at TU now1 s \<noteq> channel_at TU now2 sync_state" "find ?P ([?c..<16] @ [0..<?c]) = None"
    | (later) i where "channel_at TU now1 s \<noteq> channel_at TU now2 sync_state"
        "find ?P ([?c..<16] @ [0..<?c]) = Some i"
    by blast
  then show ?thesis
  proof cases
    case now
    then show ?thesis by (simp add: next_overlap_timestamp_def channel_at_def Let_def)
  next
    case never
    have "\<not> ?P i" if "i < 16" for i by (rule find_slots_None [OF never(2)]) (simp_all add: that)
    then have "\<forall>t. channel_at TU t s \<noteq> channel_at TU t sync_state" by (simp add: channel_at_def same)
    with never show ?thesis by (simp add: next_overlap_timestamp_def channel_at_def Let_def)
  next
    case later
    have i: "i < 16 \<and> ?P i" by (rule find_slots_Some [OF later(2)]) simp
    define t where "t = slot_start_timestamp TU now3 i 0 s"
    have e: "elapsed_since_tsf_epoch t s mod CHANNEL_SEQUENCE_DURATION TU = SLOT_DURATION TU * i"
      using elapsed_at_slot_start [OF pos syn sat, of i 0] i small slot_duration_pos [OF pos]
      by (simp add: t_def)
    have "current_slot_index TU (elapsed_since_tsf_epoch t s) = i"
      using slot_duration_pos [OF pos] by (simp add: current_slot_in_sequence [OF pos] e)
    with i have "channel_at TU t s = channel_at TU t sync_state" by (simp add: channel_at_def same)
    moreover have "now3 \<le> t" "t < now3 + CHANNEL_SEQUENCE_DURATION TU"
      using slot_start_timestamp_split(1,2) [OF pos sat, of i 0] i slot_duration_pos [OF pos]
      by (simp_all add: t_def)
    moreover have "next_overlap_timestamp TU now1 now2 now3 sync_state s = OverlappingAt t"
      using later by (simp add: next_overlap_timestamp_def channel_at_def Let_def t_def)
    ultimately show ?thesis by simp
  qed
qed

definition sample_sync :: "u8 \<Rightarrow> synchronization_state" where
  "sample_sync ch = \<lparr>channel_sequence = replicate 9 ch @ [6] @ replicate 6 ch, tsf_epoch_in_us = 7\<rparr>"

lemma sample_overlap:
  "next_overlap_timestamp 1024 1000000 1000000 1000000 (sample_sync 44) (sample_sync 149) = OverlappingAt 1638407"
proof -
  have "[0..<15] = [0, 1, 2, 3, 4, 5, 6, 7, 8, 9, 10, 11, 12, 13, 14]" by (simp add: upt_rec)
  then show ?thesis
    by (simp add: next_overlap_timestamp_def current_slot_index_eq slot_start_timestamp_def awdl_durations
        sample_sync_def elapsed_since_tsf_epoch_def upt_rec_numeral nth_append)
qed

theorem next_overlap_correct_witness:
  "channel_at 1024 1638407 (sample_sync 149) = channel_at 1024 1638407 (sample_sync 44)"
proof -
  have "elapsed_since_tsf_epoch 1000000 (sample_sync 149) mod CHANNEL_SEQUENCE_DURATION 1024 \<le> 1000000"
    and "synchronised_at 1000000 (sample_sync 149)"
    by (simp_all add: awdl_durations synchronised_at_def sample_sync_def elapsed_since_tsf_epoch_def)
  moreover have "CHANNEL_SEQUENCE_DURATION 1024 \<le> 2 ^ 63" by (simp add: awdl_durations)
  moreover have "tsf_epoch_in_us (sample_sync 44) = tsf_epoch_in_us (sample_sync 149)"
    by (simp add: sample_sync_def)
  ultimately show ?thesis
    using next_overlap_correct [of 1024 1000000 "sample_sync 149" "sample_sync 44" 1000000 1000000]
    by (simp add: sample_overlap)
qed

section \<open>Scheduling of the master indication frame\<close>

lemma slot_position:
  assumes "0 < TU"
  shows "d mod CHANNEL_SEQUENCE_DURATION TU = SLOT_DURATION TU * current_slot_index TU d + d mod SLOT_DURATION TU"
  by (simp add: sequence_duration current_slot_index_eq mod_mult2_eq)

lemma remaining_slot_length_eq:
  assumes "0 < TU"
  shows "unat (remaining_slot_length TU d) = d mod SLOT_DURATION TU div TU"
proof -
  have "d mod SLOT_DURATION TU < 64 * TU" using assms by (simp add: slot_duration)
  then have "d mod SLOT_DURATION TU div TU < 64" using assms by (simp add: less_mult_imp_div_less)
  moreover have "AW_DURATION_IN_US TU * AW_PER_SLOT = SLOT_DURATION TU" by (simp add: awdl_durations)
  ultimately show ?thesis by (simp add: remaining_slot_length_def unat_of_nat)
qed

text \<open>
  The time of the next master indication frame. In the first half of a slot it is 16 time
  units into the next slot; in the second half it is a whole channel sequence after the point 16
  time units into the running slot, although the next slot starts in at most 32 time units.
\<close>

theorem mif_scheduling:
  fixes TU now s
  defines "e \<equiv> elapsed_since_tsf_epoch now s mod CHANNEL_SEQUENCE_DURATION TU"
    and "x \<equiv> elapsed_since_tsf_epoch now s mod SLOT_DURATION TU"
  assumes pos: "0 < TU" and sat: "e \<le> now"
  shows "mif_transmition_time TU now now s =
         (if x < 32 * TU then now + 80 * TU - x else now + CHANNEL_SEQUENCE_DURATION TU + 16 * TU - x)"
proof -
  let ?d = "elapsed_since_tsf_epoch now s"
  let ?c = "current_slot_index TU ?d"
  have e: "e = 64 * TU * ?c + x"
    using slot_position [OF pos, of ?d] by (simp add: e_def x_def slot_duration)
  have x: "x < 64 * TU" using pos by (simp add: x_def slot_duration)
  have start: "slot_start_timestamp TU now i (TU * 16) s =
      now - e + (if e > 64 * TU * i + TU * 16 then 64 * TU * i + TU * 16 + 1024 * TU else 64 * TU * i + TU * 16)" for i
    using sat unfolding slot_start_timestamp_def Let_def e_def [symmetric]
    by (simp add: slot_duration sequence_duration)
  have half: "unat (remaining_slot_length TU ?d) < 32 \<longleftrightarrow> x < 32 * TU"
    using pos by (simp add: remaining_slot_length_eq x_def div_less_iff_less_mult)
  consider (late) "\<not> x < 32 * TU" | (wrap) "x < 32 * TU" "?c = 15" | (early) "x < 32 * TU" "?c < 15"
    using current_slot_index_less [of TU ?d] by linarith
  then show ?thesis
  proof cases
    case late
    then show ?thesis
      using sat e x pos by (simp add: mif_transmition_time_def Let_def half start slot_duration sequence_duration)
  next
    case wrap
    then show ?thesis
      using sat e x pos
      by (simp add: mif_transmition_time_def Let_def half start next_slot_index_eq slot_duration sequence_duration)
  next
    case early
    then show ?thesis
      using sat e x pos
      by (simp add: mif_transmition_time_def Let_def half start next_slot_index_eq algebra_simps)
  qed
qed

theorem mif_scheduling_witness:
  "mif_transmition_time 1024 40000 40000 \<lparr>channel_sequence = replicate 16 6, tsf_epoch_in_us = 0\<rparr> = 1064960"
  using mif_scheduling [of 1024 40000 "\<lparr>channel_sequence = replicate 16 6, tsf_epoch_in_us = 0\<rparr>"]
  by (simp add: awdl_durations elapsed_since_tsf_epoch_def)

end
