(* ===== verification/Awdl_Cache.thy ===== *)
theory Awdl_Cache
  imports Awdl_Peer "HOL-Library.List_Lexorder"
begin

text \<open>
  The peer cache of an AWDL session, \<open>foa_awdl/src/peer_cache.rs\<close>. The trait
  \<open>AwdlPeerCache\<close> is the record \<open>peer_cache_ops\<close> of its required methods; its provided methods
  are definitions over that record. The locale \<open>peer_cache_contract\<close> is the contract of the required
  methods, interpreted for \<open>DynamicAwdlPeerCache\<close>, whose map of the standard library is a list
  sorted by address. \<open>StaticAwdlPeerCache\<close> is built on a third-party map, which stays a
  parameter; it meets the contract when that map does what its documentation says.
\<close>

section \<open>The trait\<close>

type_synonym peer_entry = "mac_address \<times> awdl_peer"

text \<open>
  A mutable reference is the current value with the function that writes a new one. The
  closure of \<open>retain\<close> may change the state \<open>'q\<close> it captures.
\<close>

record ('c, 'q) peer_cache_ops =
  pc_new :: 'c
  pc_iter :: "'c \<Rightarrow> peer_entry list"
  pc_retain :: "(mac_address \<Rightarrow> awdl_peer \<Rightarrow> 'q \<Rightarrow> bool \<times> 'q) \<Rightarrow> 'c \<Rightarrow> 'q \<Rightarrow> 'c \<times> 'q"
  pc_get :: "'c \<Rightarrow> mac_address \<Rightarrow> awdl_peer option"
  pc_get_mut :: "'c \<Rightarrow> mac_address \<Rightarrow> (awdl_peer \<times> (awdl_peer \<Rightarrow> 'c)) option"
  pc_is_full :: "'c \<Rightarrow> bool"
  pc_insert :: "'c \<Rightarrow> mac_address \<Rightarrow> awdl_peer \<Rightarrow> 'c"
  pc_clear :: "'c \<Rightarrow> 'c"
  pc_contains_key :: "'c \<Rightarrow> mac_address \<Rightarrow> bool"

datatype peer_cache_full_error = PeerCacheFullError

text \<open>
  The closures change the peer and the state \<open>'s\<close> they capture, and the first one may panic. The
  result is the new cache and state with the value of the method.
\<close>

definition modify_or_add_peer ::
  "('c, 'q) peer_cache_ops \<Rightarrow> mac_address \<Rightarrow> (awdl_peer \<Rightarrow> 's \<Rightarrow> panic + awdl_peer \<times> 's) \<Rightarrow>
     ('s \<Rightarrow> awdl_peer option \<times> 's) \<Rightarrow> 'c \<Rightarrow> 's \<Rightarrow> panic + (peer_cache_full_error + bool) \<times> 'c \<times> 's" where
  "modify_or_add_peer pc peer_address modify add c s =
     (case pc_get_mut pc c peer_address of
        Some (peer, write) \<Rightarrow>
          (case modify peer s of
             Inl e \<Rightarrow> Inl e
           | Inr (peer', s') \<Rightarrow> Inr (Inr False, write peer', s'))
      | None \<Rightarrow>
          if pc_is_full pc c then Inr (Inl PeerCacheFullError, c, s)
          else (case add s of
                  (None, s') \<Rightarrow> Inr (Inr False, c, s')
                | (Some peer, s') \<Rightarrow> Inr (Inr True, pc_insert pc c peer_address peer, s')))"

text \<open>The clock is monotonic: a frame was received before now.\<close>

definition purge_stale_peers ::
  "('c, 'q) peer_cache_ops \<Rightarrow> nat \<Rightarrow> (mac_address \<Rightarrow> awdl_peer \<Rightarrow> 'q \<Rightarrow> 'q) \<Rightarrow> nat \<Rightarrow> 'c \<Rightarrow> 'q \<Rightarrow> 'c \<times> 'q" where
  "purge_stale_peers pc now purge_cb timeout c q =
     pc_retain pc (\<lambda>address peer q.
       let retain_peer = now - last_frame peer < timeout
       in (retain_peer, if retain_peer then q else purge_cb address peer q)) c q"

fun most_eligible :: "mac_address \<times> election_state \<Rightarrow> peer_entry list \<Rightarrow> mac_address \<times> election_state" where
  "most_eligible m [] = m"
| "most_eligible m ((address, peer) # ps) =
     most_eligible
       (if is_more_eligible (snd m) (election_state peer) then (address, election_state peer) else m) ps"

text \<open>The indexing of the cache panics for an absent key.\<close>

definition find_master ::
  "('c, 'q) peer_cache_ops \<Rightarrow> election_state \<Rightarrow> mac_address \<Rightarrow> 'c \<Rightarrow>
     panic + (mac_address \<times> election_state \<times> synchronization_state) option" where
  "find_master pc self_election_state address c =
     (let m = most_eligible (address, self_election_state) (pc_iter pc c)
      in if fst m = address then Inr None
         else case pc_get pc c (fst m) of
                None \<Rightarrow> Inl (Panic ''index out of bounds'')
              | Some peer \<Rightarrow> Inr (Some (fst m, snd m, synchronization_state peer)))"

text \<open>A group address has the lowest bit of its first byte set.\<close>

definition is_multicast :: "mac_address \<Rightarrow> bool" where
  "is_multicast a \<longleftrightarrow> a \<noteq> [] \<and> bit (hd a) 0"

definition get_common_slot_for_peer ::
  "nat \<Rightarrow> nat \<Rightarrow> nat \<Rightarrow> nat \<Rightarrow> ('c, 'q) peer_cache_ops \<Rightarrow> mac_address \<Rightarrow> synchronization_state \<Rightarrow> 'c \<Rightarrow>
     overlap_slot_state" where
  "get_common_slot_for_peer TU now1 now2 now3 pc peer_address our_sync_state c =
     (if is_multicast peer_address
      then OverlappingAt (multicast_slot_start_timestamp TU now1 our_sync_state)
      else case pc_get pc c peer_address of
             Some peer \<Rightarrow> next_overlap_timestamp TU now1 now2 now3 our_sync_state (synchronization_state peer)
           | None \<Rightarrow> PeerNotInCache)"

section \<open>The contract of a cache\<close>

text \<open>A \<open>retain\<close> that visits the entries in the order of the list.\<close>

fun retain_entries ::
  "(mac_address \<Rightarrow> awdl_peer \<Rightarrow> 'q \<Rightarrow> bool \<times> 'q) \<Rightarrow> peer_entry list \<Rightarrow> 'q \<Rightarrow> peer_entry list \<times> 'q" where
  "retain_entries f [] q = ([], q)"
| "retain_entries f ((a, p) # ps) q =
     (let (keep, q1) = f a p q; (ps', q2) = retain_entries f ps q1
      in (if keep then (a, p) # ps' else ps', q2))"

locale peer_cache_contract =
  fixes pc :: "('c, 'q) peer_cache_ops" and valid :: "'c \<Rightarrow> bool"
  assumes new: "valid (pc_new pc) \<and> pc_iter pc (pc_new pc) = []"
    and distinct_iter: "valid c \<Longrightarrow> distinct (map fst (pc_iter pc c))"
    and get: "valid c \<Longrightarrow> pc_get pc c a = map_of (pc_iter pc c) a"
    and contains_key: "valid c \<Longrightarrow> pc_contains_key pc c a \<longleftrightarrow> pc_get pc c a \<noteq> None"
    and get_mut_None: "valid c \<Longrightarrow> pc_get pc c a = None \<Longrightarrow> pc_get_mut pc c a = None"
    and get_mut_Some: "valid c \<Longrightarrow> pc_get pc c a = Some p \<Longrightarrow>
          \<exists>write. pc_get_mut pc c a = Some (p, write) \<and>
            (\<forall>p'. valid (write p') \<and> pc_get pc (write p') = (pc_get pc c)(a \<mapsto> p'))"
    and insert: "valid c \<Longrightarrow> \<not> pc_is_full pc c \<Longrightarrow> pc_get pc c a = None \<Longrightarrow>
          valid (pc_insert pc c a p) \<and> pc_get pc (pc_insert pc c a p) = (pc_get pc c)(a \<mapsto> p)"
    and retain: "valid c \<Longrightarrow>
          \<exists>xs. mset xs = mset (pc_iter pc c) \<and> valid (fst (pc_retain pc f c q)) \<and>
            mset (pc_iter pc (fst (pc_retain pc f c q))) = mset (fst (retain_entries f xs q)) \<and>
            snd (pc_retain pc f c q) = snd (retain_entries f xs q)"
    and clear: "valid (pc_clear pc c) \<and> pc_iter pc (pc_clear pc c) = []"

section \<open>Eligibility\<close>

definition has_counter :: "election_state \<Rightarrow> bool" where
  "has_counter e \<longleftrightarrow> self_counter e \<noteq> None"

text \<open>The counter of the other state is never read: only the metrics decide.\<close>

lemma is_more_eligible_metric: "has_counter e \<Longrightarrow> is_more_eligible e rhs \<longleftrightarrow> self_metric e < self_metric rhs"
  by (auto simp: has_counter_def is_more_eligible_def)

lemma most_eligible_in: "most_eligible m ps = m \<or> (\<exists>(a, p)\<in>set ps. most_eligible m ps = (a, election_state p))"
  by (induction m ps rule: most_eligible.induct) auto

lemma most_eligible_max:
  assumes "has_counter (snd m)" and "\<forall>(a, p)\<in>set ps. has_counter (election_state p)"
  shows "self_metric (snd m) \<le> self_metric (snd (most_eligible m ps)) \<and>
         (\<forall>(a, p)\<in>set ps. self_metric (election_state p) \<le> self_metric (snd (most_eligible m ps))) \<and>
         (most_eligible m ps = m \<or> self_metric (snd m) < self_metric (snd (most_eligible m ps)))"
  using assms
proof (induction m ps rule: most_eligible.induct)
  case (2 m address peer ps)
  show ?case
  proof (cases "self_metric (snd m) < self_metric (election_state peer)")
    case True
    then show ?thesis using 2 by (auto simp: is_more_eligible_metric)
  next
    case False
    then show ?thesis using 2 by (auto simp: is_more_eligible_metric)
  qed
qed simp

lemma retain_entries_filter:
  assumes "\<And>a p q. fst (f a p q) = P a p"
  shows "fst (retain_entries f xs q) = filter (\<lambda>(a, p). P a p) xs"
proof (induction xs arbitrary: q)
  case (Cons x xs)
  obtain a p where x: "x = (a, p)" by (cases x)
  obtain keep q1 where f: "f a p q = (keep, q1)" by (cases "f a p q")
  have "keep = P a p" using assms [of a p q] f by simp
  then show ?case using Cons [of q1] f by (simp add: x split_beta)
qed simp

context peer_cache_contract
begin

lemma iter_get: "valid c \<Longrightarrow> (a, p) \<in> set (pc_iter pc c) \<longleftrightarrow> pc_get pc c a = Some p"
  using distinct_iter [of c] by (simp add: get map_of_eq_Some_iff)

lemma find_master_cases:
  assumes "valid c"
  obtains (none) "find_master pc e addr c = Inr None" "fst (most_eligible (addr, e) (pc_iter pc c)) = addr"
  | (some) a p where "find_master pc e addr c = Inr (Some (a, election_state p, synchronization_state p))"
      "pc_get pc c a = Some p" "a \<noteq> addr"
      "most_eligible (addr, e) (pc_iter pc c) = (a, election_state p)"
proof (cases "fst (most_eligible (addr, e) (pc_iter pc c)) = addr")
  case True
  then show ?thesis using none by (simp add: find_master_def)
next
  case False
  then obtain a p where "(a, p) \<in> set (pc_iter pc c)"
      and m: "most_eligible (addr, e) (pc_iter pc c) = (a, election_state p)"
    using most_eligible_in [of "(addr, e)" "pc_iter pc c"] by auto
  then have "pc_get pc c a = Some p" using assms by (simp add: iter_get)
  then show ?thesis using some False m by (simp add: find_master_def)
qed

lemma find_master_total: "valid c \<Longrightarrow> \<exists>r. find_master pc e addr c = Inr r"
  by (rule find_master_cases) auto

text \<open>The chosen peer has the highest metric, above our own.\<close>

lemma find_master_Some:
  assumes "valid c" "has_counter e" "\<forall>a p. pc_get pc c a = Some p \<longrightarrow> has_counter (election_state p)"
    and "find_master pc e addr c = Inr (Some (a, me, ms))"
  shows "\<exists>p. pc_get pc c a = Some p \<and> me = election_state p \<and> ms = synchronization_state p \<and>
           self_metric e < self_metric me \<and>
           (\<forall>b r. pc_get pc c b = Some r \<longrightarrow> self_metric (election_state r) \<le> self_metric me)"
  using assms(1)
proof (cases rule: find_master_cases [of c e addr])
  case (some b p)
  have "\<forall>(a, p)\<in>set (pc_iter pc c). has_counter (election_state p)"
    using assms(1,3) by (auto simp: iter_get)
  note m = most_eligible_max [of "(addr, e)", simplified, OF assms(2) this]
  have "self_metric e < self_metric (election_state p)" using m some(3,4) by auto
  moreover have "self_metric (election_state r) \<le> self_metric (election_state p)" if "pc_get pc c b = Some r" for b r
    using m some(4) that assms(1) by (auto simp: iter_get [symmetric])
  ultimately show ?thesis using some assms(4) by auto
qed (use assms(4) in simp)

lemma find_master_None:
  assumes "valid c" "has_counter e" "\<forall>a p. pc_get pc c a = Some p \<longrightarrow> has_counter (election_state p)"
    and "find_master pc e addr c = Inr None" "pc_get pc c addr = None" "pc_get pc c b = Some r"
  shows "self_metric (election_state r) \<le> self_metric e"
  using assms(1)
proof (cases rule: find_master_cases [of c e addr])
  case none
  have "most_eligible (addr, e) (pc_iter pc c) = (addr, e)"
    using most_eligible_in [of "(addr, e)" "pc_iter pc c"] none(2) assms(1,5) by (auto simp: iter_get)
  moreover have "\<forall>(a, p)\<in>set (pc_iter pc c). has_counter (election_state p)"
    using assms(1,3) by (auto simp: iter_get)
  ultimately show ?thesis
    using most_eligible_max [of "(addr, e)" "pc_iter pc c"] assms(1,2,6) by (auto simp: iter_get [symmetric])
qed (use assms(4) in simp)

lemma purge_get:
  assumes "valid c"
  shows "valid (fst (purge_stale_peers pc now cb timeout c q)) \<and>
     (pc_get pc (fst (purge_stale_peers pc now cb timeout c q)) a = Some p \<longleftrightarrow>
      pc_get pc c a = Some p \<and> now - last_frame p < timeout)"
proof -
  let ?f = "\<lambda>address peer q. let retain_peer = now - last_frame peer < timeout
       in (retain_peer, if retain_peer then q else cb address peer q)"
  obtain xs where xs: "mset xs = mset (pc_iter pc c)" "valid (fst (pc_retain pc ?f c q))"
      "mset (pc_iter pc (fst (pc_retain pc ?f c q))) = mset (fst (retain_entries ?f xs q))"
    using retain [OF assms, of ?f q] by blast
  have "fst (retain_entries ?f xs q) = filter (\<lambda>(a, p). now - last_frame p < timeout) xs"
    by (rule retain_entries_filter) (simp add: Let_def)
  then have "set (pc_iter pc (fst (pc_retain pc ?f c q))) = {(a, p) \<in> set (pc_iter pc c). now - last_frame p < timeout}"
    using mset_eq_setD [OF xs(1)] mset_eq_setD [OF xs(3)] by auto
  with xs(2) show ?thesis
    using iter_get [OF xs(2), of a p] iter_get [OF assms, of a p] by (simp add: purge_stale_peers_def)
qed

text \<open>The four outcomes of \<open>modify_or_add_peer\<close>.\<close>

lemma modify_or_add_cases:
  assumes "valid c" and "modify_or_add_peer pc a modify add c s = Inr (r, c', s')"
  obtains (modified) p p' where "pc_get pc c a = Some p" "modify p s = Inr (p', s')" "r = Inr False"
      "valid c'" "pc_get pc c' = (pc_get pc c)(a \<mapsto> p')"
  | (full) "pc_get pc c a = None" "pc_is_full pc c" "r = Inl PeerCacheFullError" "c' = c" "s' = s"
  | (skipped) "pc_get pc c a = None" "\<not> pc_is_full pc c" "add s = (None, s')" "r = Inr False" "c' = c"
  | (added) p where "pc_get pc c a = None" "\<not> pc_is_full pc c" "add s = (Some p, s')" "r = Inr True"
      "valid c'" "pc_get pc c' = (pc_get pc c)(a \<mapsto> p)"
proof (cases "pc_get pc c a")
  case None
  note absent = None get_mut_None [OF assms(1) None]
  show ?thesis
  proof (cases "pc_is_full pc c")
    case True
    then show ?thesis using full assms(2) absent by (simp add: modify_or_add_peer_def)
  next
    case False
    then show ?thesis
      using skipped added assms(2) absent insert [OF assms(1) False None]
      by (auto simp: modify_or_add_peer_def split: option.splits prod.splits)
  qed
next
  case (Some p)
  obtain wr where w: "pc_get_mut pc c a = Some (p, wr)"
      "\<And>p'. valid (wr p') \<and> pc_get pc (wr p') = (pc_get pc c)(a \<mapsto> p')"
    using get_mut_Some [OF assms(1) Some] by blast
  then show ?thesis
    using modified assms(2) Some by (auto simp: modify_or_add_peer_def split: sum.splits)
qed

end

section \<open>The caches of the code\<close>

text \<open>
  The ordered map of the standard library: the entries in ascending order of their keys.
\<close>

fun btree_insert :: "peer_entry list \<Rightarrow> mac_address \<Rightarrow> awdl_peer \<Rightarrow> peer_entry list" where
  "btree_insert [] k v = [(k, v)]"
| "btree_insert ((j, w) # m) k v =
     (if k < j then (k, v) # (j, w) # m else if k = j then (k, v) # m else (j, w) # btree_insert m k v)"

definition btree_get_mut ::
  "peer_entry list \<Rightarrow> mac_address \<Rightarrow> (awdl_peer \<times> (awdl_peer \<Rightarrow> peer_entry list)) option" where
  "btree_get_mut m k = map_option (\<lambda>v. (v, btree_insert m k)) (map_of m k)"

definition DynamicAwdlPeerCache :: "(peer_entry list, 'q) peer_cache_ops" where
  "DynamicAwdlPeerCache =
     \<lparr>pc_new = [], pc_iter = (\<lambda>m. m), pc_retain = retain_entries, pc_get = map_of, pc_get_mut = btree_get_mut,
      pc_is_full = (\<lambda>_. False), pc_insert = btree_insert, pc_clear = (\<lambda>_. []),
      pc_contains_key = (\<lambda>m k. map_of m k \<noteq> None)\<rparr>"

definition btree_valid :: "peer_entry list \<Rightarrow> bool" where
  "btree_valid m \<longleftrightarrow> sorted_wrt (<) (map fst m)"

lemma btree_empty: "btree_valid []"
  by (simp add: btree_valid_def)

lemma btree_distinct: "btree_valid m \<Longrightarrow> distinct (map fst m)"
  unfolding btree_valid_def using strict_sorted_iff by blast

lemma btree_insert_keys: "fst ` set (btree_insert m k v) = insert k (fst ` set m)"
  by (induction m k v rule: btree_insert.induct) auto

lemma btree_insert_valid: "btree_valid m \<Longrightarrow> btree_valid (btree_insert m k v)"
proof (induction m k v rule: btree_insert.induct)
  case (2 j w m k v)
  then have "btree_valid m" "\<forall>x\<in>fst ` set m. j < x" by (auto simp: btree_valid_def)
  then show ?case using 2 btree_insert_keys [of m k v] by (auto simp: btree_valid_def)
qed (simp add: btree_valid_def)

lemma btree_insert_get: "btree_valid m \<Longrightarrow> map_of (btree_insert m k v) = (map_of m)(k \<mapsto> v)"
proof (induction m k v rule: btree_insert.induct)
  case (2 j w m k v)
  then show ?case by (auto simp: btree_valid_def)
qed simp

lemma retain_entries_subset: "set (fst (retain_entries f m q)) \<subseteq> set m"
proof (induction m arbitrary: q)
  case (Cons x m)
  then show ?case by (cases x) (auto simp: split_beta split: if_splits dest: subsetD)
qed simp

lemma retain_entries_sorted: "btree_valid m \<Longrightarrow> btree_valid (fst (retain_entries f m q))"
proof (induction m arbitrary: q)
  case (Cons x m)
  obtain a p where x: "x = (a, p)" by (cases x)
  have v: "btree_valid m" "\<forall>b\<in>set m. a < fst b" using Cons.prems by (auto simp: x btree_valid_def)
  have "btree_valid (fst (retain_entries f m r)) \<and> (\<forall>b\<in>set (fst (retain_entries f m r)). a < fst b)" for r
    using Cons.IH [OF v(1)] v(2) retain_entries_subset [of f m r] by blast
  then show ?case by (simp add: x btree_valid_def split_beta)
qed simp

interpretation btree: peer_cache_contract DynamicAwdlPeerCache btree_valid
proof unfold_locales
  fix c :: "peer_entry list" and f :: "mac_address \<Rightarrow> awdl_peer \<Rightarrow> 'q \<Rightarrow> bool \<times> 'q" and q
  assume "btree_valid c"
  then show "\<exists>xs. mset xs = mset (pc_iter DynamicAwdlPeerCache c) \<and>
      btree_valid (fst (pc_retain DynamicAwdlPeerCache f c q)) \<and>
      mset (pc_iter DynamicAwdlPeerCache (fst (pc_retain DynamicAwdlPeerCache f c q))) =
      mset (fst (retain_entries f xs q)) \<and>
      snd (pc_retain DynamicAwdlPeerCache f c q) = snd (retain_entries f xs q)"
    by (intro exI [of _ c]) (simp add: DynamicAwdlPeerCache_def retain_entries_sorted)
qed (auto simp: DynamicAwdlPeerCache_def btree_get_mut_def btree_insert_get btree_insert_valid btree_distinct
     btree_empty)

text \<open>
  The fixed-size map of the default build is third-party code. \<open>fnv_map_laws\<close> is its documented
  behaviour: at most \<open>fm_capacity\<close> entries, and an insertion succeeds while there is room.
\<close>

record ('m, 'q) fnv_map_ops =
  fm_new :: 'm
  fm_iter :: "'m \<Rightarrow> peer_entry list"
  fm_retain :: "(mac_address \<Rightarrow> awdl_peer \<Rightarrow> 'q \<Rightarrow> bool \<times> 'q) \<Rightarrow> 'm \<Rightarrow> 'q \<Rightarrow> 'm \<times> 'q"
  fm_get :: "'m \<Rightarrow> mac_address \<Rightarrow> awdl_peer option"
  fm_get_mut :: "'m \<Rightarrow> mac_address \<Rightarrow> (awdl_peer \<times> (awdl_peer \<Rightarrow> 'm)) option"
  fm_insert :: "'m \<Rightarrow> mac_address \<Rightarrow> awdl_peer \<Rightarrow> 'm option"
  fm_clear :: "'m \<Rightarrow> 'm"
  fm_contains_key :: "'m \<Rightarrow> mac_address \<Rightarrow> bool"
  fm_capacity :: "'m \<Rightarrow> nat"
  fm_len :: "'m \<Rightarrow> nat"

text \<open>The result of the insertion is ignored.\<close>

definition StaticAwdlPeerCache :: "('m, 'q) fnv_map_ops \<Rightarrow> ('m, 'q) peer_cache_ops" where
  "StaticAwdlPeerCache fm =
     \<lparr>pc_new = fm_new fm, pc_iter = fm_iter fm, pc_retain = fm_retain fm, pc_get = fm_get fm,
      pc_get_mut = fm_get_mut fm, pc_is_full = (\<lambda>m. fm_capacity fm m = fm_len fm m),
      pc_insert = (\<lambda>m k v. case fm_insert fm m k v of Some m' \<Rightarrow> m' | None \<Rightarrow> m),
      pc_clear = fm_clear fm, pc_contains_key = fm_contains_key fm\<rparr>"

definition fnv_map_laws :: "nat \<Rightarrow> ('m \<Rightarrow> bool) \<Rightarrow> ('m, 'q) fnv_map_ops \<Rightarrow> bool" where
  "fnv_map_laws cap valid fm \<longleftrightarrow>
     valid (fm_new fm) \<and> fm_iter fm (fm_new fm) = [] \<and>
     (\<forall>m. valid m \<longrightarrow> distinct (map fst (fm_iter fm m)) \<and> fm_capacity fm m = cap \<and>
        fm_len fm m = length (fm_iter fm m) \<and> length (fm_iter fm m) \<le> cap \<and>
        fm_get fm m = map_of (fm_iter fm m)) \<and>
     (\<forall>m k. valid m \<longrightarrow> fm_contains_key fm m k = (fm_get fm m k \<noteq> None)) \<and>
     (\<forall>m k. valid m \<and> fm_get fm m k = None \<longrightarrow> fm_get_mut fm m k = None) \<and>
     (\<forall>m k v. valid m \<and> fm_get fm m k = Some v \<longrightarrow>
        (\<exists>write. fm_get_mut fm m k = Some (v, write) \<and>
           (\<forall>v'. valid (write v') \<and> fm_get fm (write v') = (fm_get fm m)(k \<mapsto> v')))) \<and>
     (\<forall>m k v. valid m \<and> length (fm_iter fm m) < cap \<and> fm_get fm m k = None \<longrightarrow>
        (\<exists>m'. fm_insert fm m k v = Some m' \<and> valid m' \<and> fm_get fm m' = (fm_get fm m)(k \<mapsto> v))) \<and>
     (\<forall>m f q. valid m \<longrightarrow>
        (\<exists>xs. mset xs = mset (fm_iter fm m) \<and> valid (fst (fm_retain fm f m q)) \<and>
           mset (fm_iter fm (fst (fm_retain fm f m q))) = mset (fst (retain_entries f xs q)) \<and>
           snd (fm_retain fm f m q) = snd (retain_entries f xs q))) \<and>
     (\<forall>m. valid (fm_clear fm m) \<and> fm_iter fm (fm_clear fm m) = [])"

lemma static_cache:
  assumes "fnv_map_laws cap valid fm"
  shows "peer_cache_contract (StaticAwdlPeerCache fm) valid"
proof unfold_locales
  fix c a p
  assume c: "valid c" "\<not> pc_is_full (StaticAwdlPeerCache fm) c" "pc_get (StaticAwdlPeerCache fm) c a = None"
  have "fm_capacity fm c = cap" "fm_len fm c = length (fm_iter fm c)" "length (fm_iter fm c) \<le> cap"
    using assms c(1) by (simp_all add: fnv_map_laws_def)
  then have "length (fm_iter fm c) < cap" using c(2) by (simp add: StaticAwdlPeerCache_def)
  moreover have "\<forall>m k v. valid m \<and> length (fm_iter fm m) < cap \<and> fm_get fm m k = None \<longrightarrow>
      (\<exists>m'. fm_insert fm m k v = Some m' \<and> valid m' \<and> fm_get fm m' = (fm_get fm m)(k \<mapsto> v))"
    using assms unfolding fnv_map_laws_def by (elim conjE)
  ultimately have "\<exists>m'. fm_insert fm c a p = Some m' \<and> valid m' \<and> fm_get fm m' = (fm_get fm c)(a \<mapsto> p)"
    using c by (simp add: StaticAwdlPeerCache_def)
  then show "valid (pc_insert (StaticAwdlPeerCache fm) c a p) \<and>
      pc_get (StaticAwdlPeerCache fm) (pc_insert (StaticAwdlPeerCache fm) c a p) =
      (pc_get (StaticAwdlPeerCache fm) c)(a \<mapsto> p)"
    by (auto simp: StaticAwdlPeerCache_def)
next
  fix c a p
  assume "valid c" "pc_get (StaticAwdlPeerCache fm) c a = Some p"
  moreover have "\<forall>m k v. valid m \<and> fm_get fm m k = Some v \<longrightarrow>
      (\<exists>write. fm_get_mut fm m k = Some (v, write) \<and>
         (\<forall>v'. valid (write v') \<and> fm_get fm (write v') = (fm_get fm m)(k \<mapsto> v')))"
    using assms unfolding fnv_map_laws_def by (elim conjE)
  ultimately show "\<exists>write. pc_get_mut (StaticAwdlPeerCache fm) c a = Some (p, write) \<and>
      (\<forall>p'. valid (write p') \<and>
         pc_get (StaticAwdlPeerCache fm) (write p') = (pc_get (StaticAwdlPeerCache fm) c)(a \<mapsto> p'))"
    by (simp add: StaticAwdlPeerCache_def)
qed (use assms in \<open>simp_all add: fnv_map_laws_def StaticAwdlPeerCache_def\<close>)

end
