(* ===== verification/Awdl_State.thy ===== *)
theory Awdl_State
  imports Awdl_Cache
begin

text \<open>
  The state an AWDL session shares between its runners, \<open>foa_awdl/src/state.rs\<close>, and the handlers
  that change it: received action frames (\<open>runner/rx.rs\<close>), the periodic purge and election and the
  frames we send (\<open>runner/management.rs\<close>), the decision when an MSDU is sent (\<open>runner/tx.rs\<close>), the
  sessions of \<open>AwdlRunner::run\<close> (\<open>runner/mod.rs\<close>) and the address conversion of \<open>lib.rs\<close>.
  Locking a cell of the state for the length of a closure is reading and updating the field.
\<close>

section \<open>The shared state\<close>

datatype awdl_event =
    PeerDiscovered mac_address
  | PeerWentStale mac_address "u16 option" "u16 option"
  | DiscoveredServiceForPeer mac_address "u16 option" "u16 option"

datatype awdl_state = Active mac_address u8 | Inactive

text \<open>The signal with a value, of a third-party package: at most one pending value.\<close>

record ('s, 'v) value_signal_ops =
  vs_new :: 's
  vs_signal :: "'s \<Rightarrow> 'v \<Rightarrow> 's"
  vs_reset :: "'s \<Rightarrow> 's"
  vs_wait :: "'s \<Rightarrow> ('v \<times> 's) poll"

definition value_signal_laws :: "('s \<Rightarrow> 'v option) \<Rightarrow> ('s, 'v) value_signal_ops \<Rightarrow> bool" where
  "value_signal_laws pending sg \<longleftrightarrow>
     pending (vs_new sg) = None \<and> (\<forall>s v. pending (vs_signal sg s v) = Some v) \<and>
     (\<forall>s. pending (vs_reset sg s) = None) \<and>
     (\<forall>s. case pending s of None \<Rightarrow> vs_wait sg s = Pending
          | Some v \<Rightarrow> (\<exists>s'. vs_wait sg s = Ready (v, s') \<and> pending s' = None))"

record ('sg, 'ng, 'q, 'c) common_resources =
  state_signal :: 'sg
  ndp_inject_signal :: 'ng
  event_queue :: 'q
  peer_cache :: 'c
  stale_peer_timeout :: nat
  country_code :: string
  cr_sync_state :: synchronization_state
  cr_election_state :: election_state

definition CommonResources_new ::
  "('sg, awdl_state) value_signal_ops \<Rightarrow> ('ng, mac_address) value_signal_ops \<Rightarrow> ('q, awdl_event) channel_ops \<Rightarrow>
     ('c, 'q) peer_cache_ops \<Rightarrow> ('sg, 'ng, 'q, 'c) common_resources" where
  "CommonResources_new sg ng ch pc =
     \<lparr>state_signal = vs_new sg, ndp_inject_signal = vs_new ng, event_queue = ch_new ch, peer_cache = pc_new pc,
      stale_peer_timeout = 3000000, country_code = ''X0'', cr_sync_state = SynchronizationState_UNINIT,
      cr_election_state = ElectionState_UNINIT\<rparr>"

definition initialize_session_parameters ::
  "('ng, mac_address) value_signal_ops \<Rightarrow> ('q, awdl_event) channel_ops \<Rightarrow> nat \<Rightarrow> u8 \<Rightarrow> mac_address \<Rightarrow>
     ('sg, 'ng, 'q, 'c) common_resources \<Rightarrow> ('sg, 'ng, 'q, 'c) common_resources" where
  "initialize_session_parameters ng ch now channel address cr =
     cr\<lparr>ndp_inject_signal := vs_reset ng (ndp_inject_signal cr), event_queue := ch_clear ch (event_queue cr),
        cr_sync_state := SynchronizationState_new now channel, cr_election_state := ElectionState_new address\<rparr>"

definition is_peer_master :: "mac_address \<Rightarrow> ('sg, 'ng, 'q, 'c) common_resources \<Rightarrow> bool" where
  "is_peer_master address cr = is_master address (cr_election_state cr)"

definition adopt_peer_as_master ::
  "mac_address \<Rightarrow> awdl_peer \<Rightarrow> ('sg, 'ng, 'q, 'c) common_resources \<Rightarrow> panic + ('sg, 'ng, 'q, 'c) common_resources" where
  "adopt_peer_as_master address peer cr =
     (let s = sync_adopt_master (synchronization_state peer) (cr_sync_state cr)
      in case elect_adopt_master address (election_state peer) (cr_election_state cr) of
           Inl e \<Rightarrow> Inl e
         | Inr e \<Rightarrow> Inr (cr\<lparr>cr_sync_state := s, cr_election_state := e\<rparr>))"

text \<open>An event is lost when the queue is full.\<close>

definition raise_event :: "('q, awdl_event) channel_ops \<Rightarrow> awdl_event \<Rightarrow> 'q \<Rightarrow> 'q" where
  "raise_event ch event q = (case ch_try_send ch q event of None \<Rightarrow> q | Some q' \<Rightarrow> q')"

definition raise_user_event ::
  "('q, awdl_event) channel_ops \<Rightarrow> awdl_event \<Rightarrow> ('sg, 'ng, 'q, 'c) common_resources \<Rightarrow>
     ('sg, 'ng, 'q, 'c) common_resources" where
  "raise_user_event ch event cr = cr\<lparr>event_queue := raise_event ch event (event_queue cr)\<rparr>"

definition elect_master ::
  "('c, 'q) peer_cache_ops \<Rightarrow> mac_address \<Rightarrow> ('sg, 'ng, 'q, 'c) common_resources \<Rightarrow>
     panic + ('sg, 'ng, 'q, 'c) common_resources" where
  "elect_master pc our_address cr =
     (case find_master pc (cr_election_state cr) our_address (peer_cache cr) of
        Inl e \<Rightarrow> Inl e
      | Inr (Some (master_address, master_election_state, master_sync_state)) \<Rightarrow>
          (let s = sync_adopt_master master_sync_state (cr_sync_state cr)
           in case elect_adopt_master master_address master_election_state (cr_election_state cr) of
                Inl e \<Rightarrow> Inl e
              | Inr e \<Rightarrow> Inr (cr\<lparr>cr_sync_state := s, cr_election_state := e\<rparr>))
      | Inr None \<Rightarrow>
          Inr (if \<not> is_master our_address (cr_election_state cr)
               then cr\<lparr>cr_election_state := set_master_to_self our_address (cr_election_state cr)\<rparr> else cr))"

definition cr_get_common_slot_for_peer ::
  "nat \<Rightarrow> nat \<Rightarrow> nat \<Rightarrow> nat \<Rightarrow> ('c, 'q) peer_cache_ops \<Rightarrow> mac_address \<Rightarrow> ('sg, 'ng, 'q, 'c) common_resources \<Rightarrow>
     overlap_slot_state" where
  "cr_get_common_slot_for_peer TU now1 now2 now3 pc peer_address cr =
     get_common_slot_for_peer TU now1 now2 now3 pc peer_address (cr_sync_state cr) (peer_cache cr)"

definition clear_peer_cache ::
  "('c, 'q) peer_cache_ops \<Rightarrow> ('sg, 'ng, 'q, 'c) common_resources \<Rightarrow> ('sg, 'ng, 'q, 'c) common_resources" where
  "clear_peer_cache pc cr = cr\<lparr>peer_cache := pc_clear pc (peer_cache cr)\<rparr>"

definition is_peer_cached ::
  "('c, 'q) peer_cache_ops \<Rightarrow> mac_address \<Rightarrow> ('sg, 'ng, 'q, 'c) common_resources \<Rightarrow> bool" where
  "is_peer_cached pc peer_address cr = pc_contains_key pc (peer_cache cr) peer_address"

section \<open>The handlers\<close>

text \<open>What a frame of a known peer does, while the cache is borrowed.\<close>

definition update_known_peer ::
  "('q, awdl_event) channel_ops \<Rightarrow> nat \<Rightarrow> nat \<Rightarrow> mac_address \<Rightarrow> awdl_action_frame \<Rightarrow> nat \<Rightarrow> awdl_peer \<Rightarrow>
     ('sg, 'ng, 'q, 'c) common_resources \<Rightarrow> panic + awdl_peer \<times> ('sg, 'ng, 'q, 'c) common_resources" where
  "update_known_peer ch TU now transmitter af rx_timestamp peer cr =
     (let (peer', service_discovered) = peer_update TU now af rx_timestamp peer;
          cr1 = (if service_discovered
                 then raise_user_event ch
                   (DiscoveredServiceForPeer transmitter (airdrop_port peer') (airplay_port peer')) cr
                 else cr)
      in if is_peer_master transmitter cr1
         then (case adopt_peer_as_master transmitter peer' cr1 of Inl e \<Rightarrow> Inl e | Inr cr2 \<Rightarrow> Inr (peer', cr2))
         else Inr (peer', cr1))"

definition add_new_peer ::
  "('q, awdl_event) channel_ops \<Rightarrow> nat \<Rightarrow> nat \<Rightarrow> mac_address \<Rightarrow> awdl_action_frame \<Rightarrow> nat \<Rightarrow>
     ('sg, 'ng, 'q, 'c) common_resources \<Rightarrow> awdl_peer option \<times> ('sg, 'ng, 'q, 'c) common_resources" where
  "add_new_peer ch TU now transmitter af rx_timestamp cr =
     (case new_with_action_frame TU now af rx_timestamp of
        None \<Rightarrow> (None, cr)
      | Some p \<Rightarrow> (Some p, raise_user_event ch (PeerDiscovered transmitter) cr))"

definition process_action_frame ::
  "('c, 'q) peer_cache_ops \<Rightarrow> ('q, awdl_event) channel_ops \<Rightarrow> nat \<Rightarrow> nat \<Rightarrow> mac_address \<Rightarrow> mac_address \<Rightarrow>
     awdl_action_frame \<Rightarrow> nat \<Rightarrow> ('sg, 'ng, 'q, 'c) common_resources \<Rightarrow>
     panic + ('sg, 'ng, 'q, 'c) common_resources" where
  "process_action_frame pc ch TU now our_address transmitter af rx_timestamp cr =
     (case modify_or_add_peer pc transmitter (update_known_peer ch TU now transmitter af rx_timestamp)
             (add_new_peer ch TU now transmitter af rx_timestamp) (peer_cache cr) cr of
        Inl e \<Rightarrow> Inl e
      | Inr (r, c, cr1) \<Rightarrow>
          (let cr2 = cr1\<lparr>peer_cache := c\<rparr>
           in if (case r of Inl _ \<Rightarrow> False | Inr peer_added \<Rightarrow> peer_added)
              then elect_master pc our_address cr2 else Inr cr2))"

text \<open>The branch of the management loop that the stale peer ticker takes.\<close>

definition stale_peer_tick ::
  "('c, 'q) peer_cache_ops \<Rightarrow> ('q, awdl_event) channel_ops \<Rightarrow> nat \<Rightarrow> mac_address \<Rightarrow>
     ('sg, 'ng, 'q, 'c) common_resources \<Rightarrow> panic + ('sg, 'ng, 'q, 'c) common_resources" where
  "stale_peer_tick pc ch now our_address cr =
     (let (c, q) = purge_stale_peers pc now
            (\<lambda>address peer. raise_event ch (PeerWentStale address (airdrop_port peer) (airplay_port peer)))
            (stale_peer_timeout cr) (peer_cache cr) (event_queue cr)
      in elect_master pc our_address (cr\<lparr>peer_cache := c, event_queue := q\<rparr>))"

text \<open>
  The tagged data of the frames we send; \<open>delta\<close> is what the receiver reads as the transmit
  delay from the two time stamps of the frame.
\<close>

definition our_action_frame ::
  "nat \<Rightarrow> nat \<Rightarrow> nat \<Rightarrow> mac_address \<Rightarrow> ('sg, 'ng, 'q, 'c) common_resources \<Rightarrow> panic + awdl_action_frame" where
  "our_action_frame TU now delta address cr =
     (case generate_tlv_v2 (cr_election_state cr) of
        None \<Rightarrow> Inl (Panic ''called `Option::unwrap()` on a `None` value'')
      | Some v2 \<Rightarrow>
          Inr \<lparr>tx_delta = delta,
               af_channel_sequence =
                 Some \<lparr>step_count = 4,
                       sequence_field = OpClass (map (\<lambda>c. (c, 0x51)) (channel_sequence (cr_sync_state cr)))\<rparr>,
               af_sync_params = Some (sync_generate_tlv TU now (root_peer (cr_election_state cr)) (cr_sync_state cr)),
               af_election_v2 = Some v2, af_election_v1 = Some (generate_tlv_v1 (cr_election_state cr)),
               af_services = [],
               af_data_path =
                 Some \<lparr>infra_address = address, awdl_address = address, dp_country_code = country_code cr\<rparr>,
               af_raw_tlvs = [(6, replicate 9 0), (7, [0x00, 0x00, 0xce, 0x11, 0x1b, 0x0f, 0x00, 0x00])],
               af_version = Some (3, 4)\<rparr>)"

definition mif_target_tx_time :: "nat \<Rightarrow> nat \<Rightarrow> nat \<Rightarrow> ('sg, 'ng, 'q, 'c) common_resources \<Rightarrow> nat" where
  "mif_target_tx_time TU now1 now2 cr = mif_transmition_time TU now1 now2 (cr_sync_state cr)"

text \<open>
  What happens to an MSDU. Parsing it is third-party code: \<open>solicited\<close> is the address a
  neighbour solicitation asks for. The first check is made before a buffer is allocated, the
  second one after that wait, with the state of that time.
\<close>

datatype msdu_outcome = InjectNeighbor mac_address | Discarded | SendAt nat | SendNow

definition transmit_frame_check ::
  "('c, 'q) peer_cache_ops \<Rightarrow> mac_address option \<Rightarrow> mac_address \<Rightarrow> ('sg, 'ng, 'q, 'c) common_resources \<Rightarrow>
     msdu_outcome option" where
  "transmit_frame_check pc solicited destination cr =
     (case solicited of
        Some peer_address \<Rightarrow> Some (InjectNeighbor peer_address)
      | None \<Rightarrow>
          if \<not> is_multicast destination \<and> \<not> is_peer_cached pc destination cr then Some Discarded else None)"

definition transmit_frame_slot ::
  "nat \<Rightarrow> nat \<Rightarrow> nat \<Rightarrow> nat \<Rightarrow> ('c, 'q) peer_cache_ops \<Rightarrow> mac_address \<Rightarrow> ('sg, 'ng, 'q, 'c) common_resources \<Rightarrow>
     msdu_outcome" where
  "transmit_frame_slot TU now1 now2 now3 pc destination cr =
     (case cr_get_common_slot_for_peer TU now1 now2 now3 pc destination cr of
        OverlappingAt timestamp \<Rightarrow> SendAt (timestamp + 110)
      | PeerNotInCache \<Rightarrow> Discarded
      | NoOverlappingSlots \<Rightarrow> Discarded
      | CurrentlyOverlapping \<Rightarrow> SendNow)"

text \<open>The number of the next data frame, incremented in checked 16-bit arithmetic.\<close>

definition next_sequence_number :: "u16 \<Rightarrow> panic + u16" where
  "next_sequence_number n =
     (case checked_inc n of None \<Rightarrow> Inl (Panic ''attempt to add with overflow'') | Some m \<Rightarrow> Inr m)"

section \<open>Sessions\<close>

text \<open>
  The runner: the state it follows, whether a session runs, and what it told the network stack.
\<close>

record awdl_runner =
  runner_state :: awdl_state
  in_session :: bool
  link_up :: bool
  hardware_address :: "mac_address option"

definition runner_init :: awdl_runner where
  "runner_init = \<lparr>runner_state = Inactive, in_session = False, link_up = False, hardware_address = None\<rparr>"

text \<open>Outside a session: wait for a state, or start the session of an active one.\<close>

definition runner_idle ::
  "('sg, awdl_state) value_signal_ops \<Rightarrow> ('ng, mac_address) value_signal_ops \<Rightarrow> ('q, awdl_event) channel_ops \<Rightarrow> nat \<Rightarrow>
     awdl_runner \<times> ('sg, 'ng, 'q, 'c) common_resources \<Rightarrow> (awdl_runner \<times> ('sg, 'ng, 'q, 'c) common_resources) poll" where
  "runner_idle sg ng ch now s =
     (let (r, cr) = s
      in case runner_state r of
           Inactive \<Rightarrow>
             (case vs_wait sg (state_signal cr) of
                Pending \<Rightarrow> Pending
              | Ready (v, sig) \<Rightarrow> Ready (r\<lparr>runner_state := v\<rparr>, cr\<lparr>state_signal := sig\<rparr>))
         | Active our_address channel \<Rightarrow>
             Ready (r\<lparr>in_session := True, link_up := True, hardware_address := Some our_address\<rparr>,
                    initialize_session_parameters ng ch now channel our_address cr))"

text \<open>The end of a session: the fourth future of the \<open>select\<close> is the only one that returns.\<close>

definition runner_session_end ::
  "('sg, awdl_state) value_signal_ops \<Rightarrow> ('c, 'q) peer_cache_ops \<Rightarrow>
     awdl_runner \<times> ('sg, 'ng, 'q, 'c) common_resources \<Rightarrow> (awdl_runner \<times> ('sg, 'ng, 'q, 'c) common_resources) poll" where
  "runner_session_end sg pc s =
     (let (r, cr) = s
      in case vs_wait sg (state_signal cr) of
           Pending \<Rightarrow> Pending
         | Ready (v, sig) \<Rightarrow>
             Ready (r\<lparr>runner_state := v, in_session := False, link_up := False\<rparr>,
                    clear_peer_cache pc (cr\<lparr>state_signal := sig\<rparr>)))"

section \<open>Addresses\<close>

text \<open>An IPv6 address is the list of its eight segments.\<close>

definition from_be16 :: "u8 \<Rightarrow> u8 \<Rightarrow> u16" where
  "from_be16 hi lo = word_of_nat (be16 hi lo)"

definition hw_address_to_ipv6 :: "mac_address \<Rightarrow> u16 list" where
  "hw_address_to_ipv6 a =
     [0xfe80, 0, 0, 0, from_be16 (xor (a ! 0) 2) (a ! 1), from_be16 (a ! 2) 0xff, from_be16 0xfe (a ! 3),
      from_be16 (a ! 4) (a ! 5)]"

definition octets :: "u16 list \<Rightarrow> bytes" where
  "octets xs = concat (map (\<lambda>x. [word_of_nat (unat x div 256), word_of_nat (unat x mod 256)]) xs)"

definition ipv6_to_hw_address :: "u16 list \<Rightarrow> mac_address" where
  "ipv6_to_hw_address x =
     (let os = octets x in [xor (os ! 8) 2, os ! 9, os ! 10, os ! 13, os ! 14, os ! 15])"

section \<open>The own election state\<close>

text \<open>Everything the second version of the election parameters needs is present.\<close>

definition own_ok :: "election_state \<Rightarrow> bool" where
  "own_ok e \<longleftrightarrow> self_counter e \<noteq> None \<and> master_counter e \<noteq> None \<and> sync_peer e \<noteq> None"

lemma own_ok_new [simp]: "own_ok (ElectionState_new a)"
  by (simp add: own_ok_def ElectionState_new_def)

lemma own_ok_adopt: "elect_adopt_master a m e = Inr e' \<Longrightarrow> own_ok e \<Longrightarrow> own_ok e'"
  by (auto simp: elect_adopt_master_def own_ok_def split: option.splits)

lemma own_ok_tlv: "own_ok e \<Longrightarrow> \<exists>t. generate_tlv_v2 e = Some t"
  by (auto simp: own_ok_def generate_tlv_v2_def)

text \<open>The state of a session apart from the cache.\<close>

definition session_ok :: "('sg, 'ng, 'q, 'c) common_resources \<Rightarrow> bool" where
  "session_ok cr \<longleftrightarrow> own_ok (cr_election_state cr) \<and> length (channel_sequence (cr_sync_state cr)) = 16"

lemma session_ok_event [simp]: "session_ok (raise_user_event ch ev cr) = session_ok cr"
  by (simp add: session_ok_def raise_user_event_def)

lemma session_ok_cache [simp]: "session_ok (cr\<lparr>peer_cache := c\<rparr>) = session_ok cr"
  by (simp add: session_ok_def)

lemma session_ok_purge [simp]: "session_ok (cr\<lparr>peer_cache := c, event_queue := q\<rparr>) = session_ok cr"
  by (simp add: session_ok_def)

lemma adopt_peer_as_master_ok:
  "adopt_peer_as_master a p cr = Inr cr' \<Longrightarrow> session_ok cr \<Longrightarrow> session_ok cr'"
  by (auto simp: adopt_peer_as_master_def session_ok_def sync_adopt_master_def own_ok_adopt split: sum.splits)

lemma elect_master_ok:
  "elect_master pc a cr = Inr cr' \<Longrightarrow> session_ok cr \<Longrightarrow> session_ok cr' \<and> peer_cache cr' = peer_cache cr"
  by (auto simp: elect_master_def session_ok_def sync_adopt_master_def own_ok_adopt set_master_to_self_def Let_def
      split: sum.splits option.splits)

lemma update_known_peer_ok:
  "update_known_peer ch TU now a af rx p cr = Inr (p', cr') \<Longrightarrow> session_ok cr \<Longrightarrow> session_ok cr'"
  by (auto simp: update_known_peer_def Let_def adopt_peer_as_master_ok split: prod.splits if_splits sum.splits)

lemma add_new_peer_ok: "session_ok (snd (add_new_peer ch TU now a af rx cr)) = session_ok cr"
  by (simp add: add_new_peer_def split: option.splits)

lemma process_action_frame_ok:
  assumes "peer_cache_contract pc valid" "valid (peer_cache cr)" "session_ok cr"
    and "process_action_frame pc ch TU now our a af rx cr = Inr cr'"
  shows "valid (peer_cache cr') \<and> session_ok cr'"
proof -
  let ?modify = "update_known_peer ch TU now a af rx"
  let ?add = "add_new_peer ch TU now a af rx"
  obtain r c cr1 where m: "modify_or_add_peer pc a ?modify ?add (peer_cache cr) cr = Inr (r, c, cr1)"
    using assms(4) by (auto simp: process_action_frame_def split: sum.splits)
  have "valid c \<and> session_ok cr1"
  proof (cases rule: peer_cache_contract.modify_or_add_cases
      [OF assms(1,2) m, case_names modified full skipped added])
    case (added p)
    then show ?thesis using add_new_peer_ok [of ch TU now a af rx cr] assms(3) by simp
  next
    case skipped
    then show ?thesis using add_new_peer_ok [of ch TU now a af rx cr] assms(2,3) by simp
  qed (use assms(2,3) update_known_peer_ok in \<open>auto\<close>)
  then show ?thesis
    using assms(4) m elect_master_ok [of pc our "cr1\<lparr>peer_cache := c\<rparr>" cr']
    by (auto simp: process_action_frame_def Let_def split: sum.splits if_splits)
qed

lemma stale_peer_tick_ok:
  assumes "peer_cache_contract pc valid" "valid (peer_cache cr)" "session_ok cr"
    and "stale_peer_tick pc ch now our cr = Inr cr'"
  shows "valid (peer_cache cr') \<and> session_ok cr'"
proof -
  let ?cb = "\<lambda>address peer. raise_event ch (PeerWentStale address (airdrop_port peer) (airplay_port peer))"
  obtain c q where p: "purge_stale_peers pc now ?cb (stale_peer_timeout cr) (peer_cache cr) (event_queue cr) = (c, q)"
    by fastforce
  then have "valid c"
    using peer_cache_contract.purge_get [OF assms(1,2), of now ?cb "stale_peer_timeout cr" "event_queue cr"] by simp
  then show ?thesis
    using elect_master_ok [of pc our "cr\<lparr>peer_cache := c, event_queue := q\<rparr>" cr'] assms(3,4) p
    by (simp add: stale_peer_tick_def)
qed

section \<open>The election\<close>


definition sample_peer :: "u32 \<Rightarrow> awdl_peer" where
  "sample_peer m =
     \<lparr>synchronization_state = sample_sync 6, election_state = (ElectionState_new [2, 0, 0, 0, 0, 7])\<lparr>self_metric := m\<rparr>,
      last_frame = 5, data_rate = OfdmMbits12, airdrop_port = None, airplay_port = None\<rparr>"

definition option_signal :: "('v option, 'v) value_signal_ops" where
  "option_signal =
     \<lparr>vs_new = None, vs_signal = (\<lambda>_. Some), vs_reset = (\<lambda>_. None),
      vs_wait = (\<lambda>s. case s of None \<Rightarrow> Pending | Some v \<Rightarrow> Ready (v, None))\<rparr>"

lemma option_signal_laws: "value_signal_laws (\<lambda>s. s) option_signal"
  by (auto simp: value_signal_laws_def option_signal_def split: option.splits)

abbreviation sample_resources ::
  "(awdl_state option, mac_address option, awdl_event list, peer_entry list) common_resources" where
  "sample_resources \<equiv>
     CommonResources_new option_signal option_signal (list_channel 4) DynamicAwdlPeerCache"


section \<open>Runs\<close>

text \<open>
  The steps of the interface: the user signals a state, changes the timeout or takes an event;
  the neighbour injection is requested or taken up; the runner starts and ends sessions; inside a session action frames arrive and the stale peer
  ticker fires.
\<close>

inductive awdl_run ::
  "('sg, awdl_state) value_signal_ops \<Rightarrow> ('ng, mac_address) value_signal_ops \<Rightarrow> ('q, awdl_event) channel_ops \<Rightarrow>
     ('c, 'q) peer_cache_ops \<Rightarrow> nat \<Rightarrow> awdl_runner \<Rightarrow> ('sg, 'ng, 'q, 'c) common_resources \<Rightarrow> bool"
  for sg ng ch pc TU where
  awdl_start: "awdl_run sg ng ch pc TU runner_init (CommonResources_new sg ng ch pc)"
| awdl_signal: "awdl_run sg ng ch pc TU r cr \<Longrightarrow>
    awdl_run sg ng ch pc TU r (cr\<lparr>state_signal := vs_signal sg (state_signal cr) v\<rparr>)"
| awdl_timeout: "awdl_run sg ng ch pc TU r cr \<Longrightarrow> awdl_run sg ng ch pc TU r (cr\<lparr>stale_peer_timeout := t\<rparr>)"
| awdl_ndp: "awdl_run sg ng ch pc TU r cr \<Longrightarrow> awdl_run sg ng ch pc TU r (cr\<lparr>ndp_inject_signal := ns\<rparr>)"
| awdl_event: "awdl_run sg ng ch pc TU r cr \<Longrightarrow> ch_try_receive ch (event_queue cr) = Some (e, q) \<Longrightarrow>
    awdl_run sg ng ch pc TU r (cr\<lparr>event_queue := q\<rparr>)"
| awdl_idle: "awdl_run sg ng ch pc TU r cr \<Longrightarrow> \<not> in_session r \<Longrightarrow>
    runner_idle sg ng ch now (r, cr) = Ready (r', cr') \<Longrightarrow> awdl_run sg ng ch pc TU r' cr'"
| awdl_frame: "awdl_run sg ng ch pc TU r cr \<Longrightarrow> in_session r \<Longrightarrow> runner_state r = Active our channel \<Longrightarrow>
    process_action_frame pc ch TU now our transmitter af rx cr = Inr cr' \<Longrightarrow> awdl_run sg ng ch pc TU r cr'"
| awdl_tick: "awdl_run sg ng ch pc TU r cr \<Longrightarrow> in_session r \<Longrightarrow> runner_state r = Active our channel \<Longrightarrow>
    stale_peer_tick pc ch now our cr = Inr cr' \<Longrightarrow> awdl_run sg ng ch pc TU r cr'"
| awdl_end: "awdl_run sg ng ch pc TU r cr \<Longrightarrow> in_session r \<Longrightarrow>
    runner_session_end sg pc (r, cr) = Ready (r', cr') \<Longrightarrow> awdl_run sg ng ch pc TU r' cr'"

definition run_inv ::
  "('c, 'q) peer_cache_ops \<Rightarrow> ('c \<Rightarrow> bool) \<Rightarrow> awdl_runner \<Rightarrow> ('sg, 'ng, 'q, 'c) common_resources \<Rightarrow> bool" where
  "run_inv pc valid r cr \<longleftrightarrow>
     session_ok cr \<and> valid (peer_cache cr) \<and> (\<not> in_session r \<longrightarrow> pc_iter pc (peer_cache cr) = []) \<and>
     (link_up r \<longleftrightarrow> in_session r)"

lemma run_inv_start:
  assumes "peer_cache_contract pc valid"
  shows "run_inv pc valid runner_init (CommonResources_new sg ng ch pc)"
  using peer_cache_contract.new [OF assms]
  by (simp add: run_inv_def runner_init_def CommonResources_new_def session_ok_def SynchronizationState_UNINIT_def
      ElectionState_UNINIT_def)

lemma run_inv_idle:
  assumes "run_inv pc valid r cr" "\<not> in_session r" "runner_idle sg ng ch now (r, cr) = Ready (r', cr')"
  shows "run_inv pc valid r' cr'"
  using assms
  by (auto simp: runner_idle_def run_inv_def session_ok_def initialize_session_parameters_def
      SynchronizationState_new_def split: awdl_state.splits poll.splits)

lemma run_inv_end:
  assumes "peer_cache_contract pc valid" "run_inv pc valid r cr" "runner_session_end sg pc (r, cr) = Ready (r', cr')"
  shows "run_inv pc valid r' cr'"
  using assms(2,3) peer_cache_contract.clear [OF assms(1)]
  by (auto simp: runner_session_end_def run_inv_def session_ok_def clear_peer_cache_def split: poll.splits)

lemma run_inv_run:
  assumes "peer_cache_contract pc valid"
  shows "awdl_run sg ng ch pc TU r cr \<Longrightarrow> run_inv pc valid r cr"
proof (induction rule: awdl_run.induct)
  case awdl_start
  show ?case by (rule run_inv_start [OF assms])
next
  case (awdl_idle r cr now r' cr')
  then show ?case by (blast intro: run_inv_idle)
next
  case (awdl_frame r cr our channel now transmitter af rx cr')
  then show ?case
    using process_action_frame_ok [OF assms, of cr] by (auto simp: run_inv_def)
next
  case (awdl_tick r cr our channel now cr')
  then show ?case
    using stale_peer_tick_ok [OF assms, of cr] by (auto simp: run_inv_def)
next
  case (awdl_end r cr r' cr')
  then show ?case by (blast intro: run_inv_end [OF assms])
qed (simp_all add: run_inv_def session_ok_def)

text \<open>
  Sessions are isolated: a session starts with an empty cache, no pending event, and our
  station as its own master at distance zero, whatever happened in an earlier session.
\<close>

theorem awdl_session_fresh:
  assumes "peer_cache_contract pc valid" and "fifo_channel cap view ch"
    and run: "awdl_run sg ng ch pc TU r cr" "\<not> in_session r"
    and step: "runner_idle sg ng ch now (r, cr) = Ready (r', cr')" "in_session r'"
  shows "\<exists>our channel. runner_state r = Active our channel \<and> hardware_address r' = Some our \<and> link_up r' \<and>
           (\<forall>a. pc_get pc (peer_cache cr') a = None) \<and> view (event_queue cr') = [] \<and>
           is_master our (cr_election_state cr') \<and> distance_to_master (cr_election_state cr') = 0 \<and>
           channel_sequence (cr_sync_state cr') = replicate 16 channel"
proof -
  have inv: "valid (peer_cache cr)" "pc_iter pc (peer_cache cr) = []"
    using run_inv_run [OF assms(1) run(1)] run(2) by (simp_all add: run_inv_def)
  then have "pc_get pc (peer_cache cr) a = None" for a
    using peer_cache_contract.get [OF assms(1) inv(1)] by simp
  then show ?thesis
    using step run(2) fifo_clear [OF assms(2), of "event_queue cr"]
    by (auto simp: runner_idle_def initialize_session_parameters_def is_master_def ElectionState_new_def
        SynchronizationState_new_def split: awdl_state.splits poll.splits)
qed

abbreviation sample_active :: awdl_runner where
  "sample_active \<equiv> runner_init\<lparr>runner_state := Active [2, 0, 0, 0, 0, 1] 6\<rparr>"

lemma sample_run: "awdl_run option_signal option_signal (list_channel 4) DynamicAwdlPeerCache 1024 sample_active sample_resources"
proof -
  let ?cr = "sample_resources\<lparr>state_signal := vs_signal option_signal (state_signal sample_resources) (Active [2, 0, 0, 0, 0, 1] 6)\<rparr>"
  have "awdl_run option_signal option_signal (list_channel 4) DynamicAwdlPeerCache 1024 runner_init ?cr"
    by (rule awdl_signal) (rule awdl_start)
  then show ?thesis
    by (rule awdl_idle [where now = 0]) (simp_all add: runner_init_def runner_idle_def option_signal_def CommonResources_new_def)
qed

theorem awdl_session_fresh_witness:
  "event_queue (snd (case runner_idle option_signal option_signal (list_channel 4) 9 (sample_active, sample_resources) of
      Ready s \<Rightarrow> s | Pending \<Rightarrow> (runner_init, sample_resources))) = []"
proof -
  obtain r cr where s: "runner_idle option_signal option_signal (list_channel 4) 9 (sample_active, sample_resources) = Ready (r, cr)"
    and "in_session r"
    by (simp add: runner_idle_def)
  moreover have "\<not> in_session sample_active" by (simp add: runner_init_def)
  ultimately show ?thesis
    using awdl_session_fresh [OF btree.peer_cache_contract_axioms list_channel_fifo sample_run, of 9 r cr] by auto
qed

section \<open>Synchronisation over the air\<close>

text \<open>What the two fields of the TLV say together: the elapsed time units, up to the wrap-around
  of the window counter.\<close>

lemma unat_u16_le: "unat (x :: u16) \<le> 65535"
proof -
  have "unat x < 65536" using unsigned_less [of x] by simp
  then show ?thesis by linarith
qed

lemma unat_ucast_u32: "unat (ucast (x :: u16) :: u32) = unat x"
  using unat_u16_le [of x] by (simp add: unsigned_ucast_eq take_bit_nat_eq_self)

lemma tu_since_first_aw_exact:
  "unat (tu_since_first_aw t) = unat (aw_period t) * unat (aw_seq_number_field t) + unat (remaining_aw_length_field t)"
proof -
  have "unat (aw_period t) \<le> 65535" "unat (aw_seq_number_field t) \<le> 65535" "unat (remaining_aw_length_field t) \<le> 65535"
    by (rule unat_u16_le)+
  moreover from this have "unat (aw_period t) * unat (aw_seq_number_field t) \<le> 65535 * 65535"
    by (intro mult_le_mono)
  ultimately show ?thesis
    by (simp add: tu_since_first_aw_def unat_word_ariths unat_ucast_u32)
qed

lemma generated_elapsed:
  assumes "0 < TU"
  shows "unat (tu_since_first_aw (sync_generate_tlv TU now m s)) = elapsed_since_tsf_epoch now s div TU mod 2 ^ 20"
proof -
  let ?d = "elapsed_since_tsf_epoch now s"
  have d: "?d div TU = ?d div AW_DURATION_IN_US TU * 16 + ?d mod AW_DURATION_IN_US TU div TU"
  proof -
    have "?d mod (TU * 16) div TU = ?d div TU mod 16" by (rule mod_mult_div [OF assms])
    then show ?thesis by (simp add: AW_DURATION_IN_US_def TU_PER_AW_def div_mult2_eq)
  qed
  have "?d mod AW_DURATION_IN_US TU div TU < 16"
    using mod_mult_div [OF assms, of ?d 16] by (simp add: AW_DURATION_IN_US_def TU_PER_AW_def)
  then have "unat (remaining_aw_length TU ?d) = ?d div TU mod 16"
    using mod_mult_div [OF assms, of ?d 16]
    by (simp add: remaining_aw_length_def unat_of_nat AW_DURATION_IN_US_def TU_PER_AW_def)
  moreover have "unat (aw_seq_number TU ?d) = ?d div TU div 16 mod 65536"
    by (simp add: aw_seq_number_def unat_of_nat AW_DURATION_IN_US_def TU_PER_AW_def div_mult2_eq)
  moreover have "?d div TU mod (16 * 65536) = 16 * (?d div TU div 16 mod 65536) + ?d div TU mod 16"
    by (rule mod_mult2_eq)
  ultimately show ?thesis by (simp add: tu_since_first_aw_exact sync_generate_tlv_def Let_def)
qed

lemma recovered_slot:
  assumes "0 < TU" "TU < 2 ^ 32" and "tsf_epoch_in_us s' = recover_tsf_epoch TU (sync_generate_tlv TU now m s) delta rx"
  shows "current_slot_index TU (elapsed_since_tsf_epoch (rx + delta) s') =
         current_slot_index TU (elapsed_since_tsf_epoch now s)"
proof -
  let ?n = "elapsed_since_tsf_epoch now s div TU mod 2 ^ 20"
  have "?n < 2 ^ 20" by simp
  then have "TU * ?n < 2 ^ 32 * 2 ^ 20" using assms(2) by (intro mult_strict_mono) auto
  then have "elapsed_since_tsf_epoch (rx + delta) s' = TU * ?n"
    using assms(3)
    by (simp add: elapsed_since_tsf_epoch_def recover_tsf_epoch_def generated_elapsed [OF assms(1)]
        del: of_nat_mult flip: of_nat_mult)
  moreover have "TU * ?n div SLOT_DURATION TU = ?n div 64"
    using assms(1) div_mult_mult1 [of TU ?n 64] by (simp add: slot_duration mult.commute)
  moreover have "?n div 64 mod 16 = elapsed_since_tsf_epoch now s div TU div 64 mod 16"
    using mod_mult_div [of 64 "elapsed_since_tsf_epoch now s div TU" "2 ^ 14"] by (simp add: mod_mod_cancel)
  moreover have "elapsed_since_tsf_epoch now s div TU div 64 = elapsed_since_tsf_epoch now s div SLOT_DURATION TU"
    by (simp add: slot_duration div_mult2_eq [symmetric] mult.commute)
  ultimately show ?thesis by (simp add: current_slot_index_eq)
qed

text \<open>What a station learns from the frame of one whose election state is complete.\<close>

lemma our_frame_heard:
  assumes "own_ok (cr_election_state cr)" and "0 < TU" and "TU < 2 ^ 32"
  shows "\<exists>af p. our_action_frame TU now delta address cr = Inr af \<and>
           new_with_action_frame TU rx_now af rx = Some p \<and>
           election_state p = cr_election_state cr \<and>
           channel_at TU (rx + delta) (synchronization_state p) = channel_at TU now (cr_sync_state cr)"
proof -
  obtain v2 where v2: "generate_tlv_v2 (cr_election_state cr) = Some v2" using own_ok_tlv [OF assms(1)] by blast
  obtain af where af: "our_action_frame TU now delta address cr = Inr af" by (simp add: our_action_frame_def v2)
  have e: "ElectionState_from_af af = Some (cr_election_state cr)"
    using af v2 assms(1)
    by (auto simp: our_action_frame_def ElectionState_from_af_def generate_tlv_v2_def own_ok_def)
  define s' where "s' = \<lparr>channel_sequence = channel_sequence (cr_sync_state cr),
      tsf_epoch_in_us = recover_tsf_epoch TU
        (sync_generate_tlv TU now (root_peer (cr_election_state cr)) (cr_sync_state cr)) delta rx\<rparr>"
  have s: "SynchronizationState_from_af TU af rx = Some s'"
    using af v2 by (auto simp: our_action_frame_def SynchronizationState_from_af_def s'_def comp_def)
  have "current_slot_index TU (elapsed_since_tsf_epoch (rx + delta) s') =
      current_slot_index TU (elapsed_since_tsf_epoch now (cr_sync_state cr))"
    by (rule recovered_slot [OF assms(2,3)]) (simp add: s'_def)
  then have "channel_at TU (rx + delta) s' = channel_at TU now (cr_sync_state cr)"
    by (simp add: channel_at_def s'_def)
  then show ?thesis using af e s by (auto simp: new_with_action_frame_def)
qed

text \<open>
  In every reachable state the frame we send can be built, and a station that hears it for
  the first time learns our election state exactly, and places us on the channel we listen on:
  the epoch it recovers agrees with ours about the slot, also after the window counter wrapped.
\<close>

theorem awdl_frame_roundtrip:
  assumes "peer_cache_contract pc valid" and "awdl_run sg ng ch pc TU r cr" and "0 < TU" and "TU < 2 ^ 32"
  shows "\<exists>af p. our_action_frame TU now delta address cr = Inr af \<and>
           new_with_action_frame TU rx_now af rx = Some p \<and>
           election_state p = cr_election_state cr \<and>
           channel_at TU (rx + delta) (synchronization_state p) = channel_at TU now (cr_sync_state cr)"
  by (rule our_frame_heard [OF _ assms(3,4)])
    (use run_inv_run [OF assms(1,2)] in \<open>simp add: run_inv_def session_ok_def\<close>)

theorem awdl_frame_roundtrip_witness:
  "\<exists>af p. our_action_frame 1024 70000 12 [2, 0, 0, 0, 0, 1] sample_resources = Inr af \<and>
     new_with_action_frame 1024 5 af 3 = Some p \<and> election_state p = cr_election_state sample_resources \<and>
     channel_at 1024 (3 + 12) (synchronization_state p) = channel_at 1024 70000 (cr_sync_state sample_resources)"
  by (rule awdl_frame_roundtrip [OF btree.peer_cache_contract_axioms sample_run]) simp_all

section \<open>Addresses\<close>

lemma unat_from_be16: "unat (from_be16 hi lo) = be16 hi lo"
  using be16_less [of hi lo] by (simp add: from_be16_def unat_of_nat)

lemma be16_split [simp]: "be16 hi lo div 256 = unat hi" "be16 hi lo mod 256 = unat lo"
  by (simp_all add: be16_def)

text \<open>The link-local address of a station determines its hardware address.\<close>

lemma ipv6_roundtrip:
  assumes "length a = 6"
  shows "ipv6_to_hw_address (hw_address_to_ipv6 a) = a"
proof -
  obtain x0 x1 x2 x3 x4 x5 where a: "a = [x0, x1, x2, x3, x4, x5]"
    using assms by (auto simp: numeral_eq_Suc length_Suc_conv)
  show ?thesis
    by (simp add: a ipv6_to_hw_address_def hw_address_to_ipv6_def octets_def unat_from_be16 xor.assoc)
qed

end
