(* ===== verification/Tx_Buffer.thy ===== *)
theory Tx_Buffer
  imports Foa_Prelude
begin

text \<open>
  TX buffer management, \<open>foa/src/tx_buffer_management.rs\<close>. A buffer pointer is the index of
  the buffer in the slab it points into; the manager is the slab together with the channel
  of free pointers. The channel operations are the parameter \<open>ch\<close>. The lemmas show that the
  pool satisfies the allocator contract, never loses a buffer, and only hands out zeroed
  memory.
\<close>

definition TX_BUFFER_SIZE :: nat where
  "TX_BUFFER_SIZE = 1600"

record 'q tx_buffer_manager =
  tx_buffers :: "bytes list"
  buffer_queue :: 'q

fun send_pointers :: "('q, nat) channel_ops \<Rightarrow> nat list \<Rightarrow> 'q \<Rightarrow> 'q" where
  "send_pointers ch [] q = q"
| "send_pointers ch (p # ps) q =
     send_pointers ch ps (case ch_try_send ch q p of None \<Rightarrow> q | Some q' \<Rightarrow> q')"

definition TxBufferManager_new :: "('q, nat) channel_ops \<Rightarrow> bytes list \<Rightarrow> 'q tx_buffer_manager" where
  "TxBufferManager_new ch buffers =
     \<lparr>tx_buffers = buffers, buffer_queue = send_pointers ch [0..<length buffers] (ch_new ch)\<rparr>"

text \<open>One poll of the future \<open>alloc\<close> returns.\<close>

definition alloc :: "('q, nat) channel_ops \<Rightarrow> 'q tx_buffer_manager \<Rightarrow> nat poll \<times> 'q tx_buffer_manager" where
  "alloc ch m =
     (case ch_try_receive ch (buffer_queue m) of
        None \<Rightarrow> (Pending, m)
      | Some (p, q) \<Rightarrow> (Ready p, m\<lparr>buffer_queue := q\<rparr>))"

definition try_alloc :: "('q, nat) channel_ops \<Rightarrow> 'q tx_buffer_manager \<Rightarrow> (nat \<times> 'q tx_buffer_manager) option" where
  "try_alloc ch m =
     (case ch_try_receive ch (buffer_queue m) of
        None \<Rightarrow> None
      | Some (p, q) \<Rightarrow> Some (p, m\<lparr>buffer_queue := q\<rparr>))"

definition TxBuffer_deref :: "nat \<Rightarrow> 'q tx_buffer_manager \<Rightarrow> bytes" where
  "TxBuffer_deref p m = tx_buffers m ! p"

definition TxBuffer_deref_mut :: "nat \<Rightarrow> bytes \<Rightarrow> 'q tx_buffer_manager \<Rightarrow> 'q tx_buffer_manager" where
  "TxBuffer_deref_mut p bs m = m\<lparr>tx_buffers := (tx_buffers m)[p := bs]\<rparr>"

definition TxBuffer_drop :: "('q, nat) channel_ops \<Rightarrow> nat \<Rightarrow> 'q tx_buffer_manager \<Rightarrow> 'q tx_buffer_manager" where
  "TxBuffer_drop ch p m =
     (let m' = TxBuffer_deref_mut p (replicate (length (TxBuffer_deref p m)) 0) m
      in case ch_try_send ch (buffer_queue m') p of
           None \<Rightarrow> m'
         | Some q \<Rightarrow> m'\<lparr>buffer_queue := q\<rparr>)"

lemmas tx_buffer_defs = try_alloc_def TxBuffer_deref_def TxBuffer_deref_mut_def TxBuffer_drop_def

section \<open>The pool as an allocator\<close>

definition pool_free :: "('q \<Rightarrow> nat list) \<Rightarrow> 'q tx_buffer_manager \<Rightarrow> nat list" where
  "pool_free view m = view (buffer_queue m)"

definition pool_held :: "nat \<Rightarrow> ('q \<Rightarrow> nat list) \<Rightarrow> 'q tx_buffer_manager \<Rightarrow> nat set" where
  "pool_held n view m = {..<n} - set (pool_free view m)"

definition zeroed :: "bytes \<Rightarrow> bool" where
  "zeroed bs \<longleftrightarrow> bs = replicate TX_BUFFER_SIZE 0"

definition pool_inv :: "nat \<Rightarrow> ('q \<Rightarrow> nat list) \<Rightarrow> 'q tx_buffer_manager \<Rightarrow> bool" where
  "pool_inv n view m \<longleftrightarrow>
     length (tx_buffers m) = n \<and>
     (\<forall>bs \<in> set (tx_buffers m). length bs = TX_BUFFER_SIZE) \<and>
     distinct (pool_free view m) \<and> set (pool_free view m) \<subseteq> {..<n} \<and>
     (\<forall>p \<in> set (pool_free view m). zeroed (tx_buffers m ! p))"

lemmas pool_defs = pool_inv_def pool_held_def pool_free_def

lemma pool_free_length_less:
  assumes "pool_inv n view m" "p \<in> pool_held n view m"
  shows "length (pool_free view m) < n"
proof -
  have "set (pool_free view m) \<subset> {..<n}" using assms by (auto simp: pool_defs)
  then have "card (set (pool_free view m)) < card {..<n}" by (intro psubset_card_mono) auto
  then show ?thesis using assms(1) by (simp add: pool_inv_def distinct_card)
qed

lemma send_pointers_view:
  assumes "fifo_channel n view ch" "length (view q) + length ps \<le> n"
  shows "view (send_pointers ch ps q) = view q @ ps"
  using assms(2)
proof (induction ps arbitrary: q)
  case Nil
  then show ?case by simp
next
  case (Cons p ps)
  then obtain q' where "ch_try_send ch q p = Some q'" "view q' = view q @ [p]"
    using fifo_send [OF assms(1), of q p] by auto
  then show ?case using Cons by simp
qed

lemma pool_new_free:
  assumes "fifo_channel n view ch" "length buffers = n"
  shows "pool_free view (TxBufferManager_new ch buffers) = [0..<n]"
  using send_pointers_view [OF assms(1), of "ch_new ch" "[0..<n]"] fifo_new [OF assms(1)] assms(2)
  by (simp add: pool_free_def TxBufferManager_new_def)

lemma pool_new_inv [foa_inv]:
  assumes "fifo_channel n view ch"
  shows "pool_inv n view (TxBufferManager_new ch (replicate n (replicate TX_BUFFER_SIZE 0)))"
  using pool_new_free [OF assms, of "replicate n (replicate TX_BUFFER_SIZE 0)"]
  by (auto simp: pool_inv_def zeroed_def TxBufferManager_new_def)

lemma try_alloc_free:
  assumes "fifo_channel n view ch" "try_alloc ch m = Some (p, m')"
  shows "pool_free view m = p # pool_free view m'" "tx_buffers m' = tx_buffers m"
  using assms(2) fifo_receive_Some [OF assms(1)]
  by (auto simp: try_alloc_def pool_free_def split: option.splits)

lemma try_alloc_inv [foa_inv]:
  assumes "fifo_channel n view ch" "pool_inv n view m" "try_alloc ch m = Some (p, m')"
  shows "pool_inv n view m'"
  using try_alloc_free [OF assms(1,3)] assms(2) by (auto simp: pool_inv_def)

lemma try_alloc_None:
  assumes "fifo_channel n view ch"
  shows "try_alloc ch m = None \<longleftrightarrow> pool_free view m = []"
proof (cases "pool_free view m")
  case Nil
  then show ?thesis using fifo_receive_empty [OF assms] by (simp add: pool_free_def try_alloc_def)
next
  case (Cons p ps)
  then obtain q where "ch_try_receive ch (buffer_queue m) = Some (p, q)"
    using fifo_receive [OF assms] unfolding pool_free_def by blast
  then show ?thesis using Cons by (simp add: try_alloc_def)
qed

text \<open>\<open>drop\<close> always gets its pointer back into the channel, because a held pointer leaves room.\<close>

lemma TxBuffer_drop_free:
  assumes "fifo_channel n view ch" "pool_inv n view m" "p \<in> pool_held n view m"
  shows "pool_free view (TxBuffer_drop ch p m) = pool_free view m @ [p]"
    and "tx_buffers (TxBuffer_drop ch p m) = (tx_buffers m)[p := replicate TX_BUFFER_SIZE 0]"
proof -
  have less: "length (view (buffer_queue m)) < n"
    using pool_free_length_less [OF assms(2,3)] by (simp add: pool_free_def)
  obtain q where q: "ch_try_send ch (buffer_queue m) p = Some q" "view q = view (buffer_queue m) @ [p]"
    using fifo_send [OF assms(1) less] by blast
  have p: "p < length (tx_buffers m)" using assms(2,3) by (simp add: pool_defs)
  then have "length (tx_buffers m ! p) = TX_BUFFER_SIZE"
    using assms(2) by (simp add: pool_inv_def)
  then show "pool_free view (TxBuffer_drop ch p m) = pool_free view m @ [p]"
    and "tx_buffers (TxBuffer_drop ch p m) = (tx_buffers m)[p := replicate TX_BUFFER_SIZE 0]"
    using q by (simp_all add: tx_buffer_defs Let_def pool_free_def)
qed

lemma TxBuffer_drop_inv [foa_inv]:
  assumes "fifo_channel n view ch" "pool_inv n view m" "p \<in> pool_held n view m"
  shows "pool_inv n view (TxBuffer_drop ch p m)"
proof -
  note free = TxBuffer_drop_free [OF assms]
  have p: "p < n" "p \<notin> set (pool_free view m)" using assms(3) by (auto simp: pool_held_def)
  have "\<forall>x \<in> set ((tx_buffers m)[p := replicate TX_BUFFER_SIZE 0]). length x = TX_BUFFER_SIZE"
    using assms(2) set_update_subset_insert [of "tx_buffers m" p "replicate TX_BUFFER_SIZE 0"]
    by (auto simp: pool_inv_def)
  moreover have "zeroed ((tx_buffers m)[p := replicate TX_BUFFER_SIZE 0] ! i)"
    if "i \<in> set (pool_free view m @ [p])" for i
    using that p assms(2) by (cases "i = p") (auto simp: pool_inv_def zeroed_def)
  ultimately show ?thesis
    using assms(2) p by (auto simp: pool_inv_def free)
qed

lemma TxBuffer_deref_mut_inv [foa_inv]:
  assumes "pool_inv n view m" "p \<in> pool_held n view m" "length bs = TX_BUFFER_SIZE"
  shows "pool_inv n view (TxBuffer_deref_mut p bs m)"
    "pool_free view (TxBuffer_deref_mut p bs m) = pool_free view m"
proof -
  show free: "pool_free view (TxBuffer_deref_mut p bs m) = pool_free view m"
    by (simp add: TxBuffer_deref_mut_def pool_free_def)
  have "\<forall>x \<in> set ((tx_buffers m)[p := bs]). length x = TX_BUFFER_SIZE"
    using assms set_update_subset_insert [of "tx_buffers m" p bs] by (auto simp: pool_inv_def)
  moreover have "(tx_buffers m)[p := bs] ! i = tx_buffers m ! i" if "i \<in> set (pool_free view m)" for i
    using that assms(2) by (metis DiffD2 nth_list_update_neq pool_held_def)
  ultimately show "pool_inv n view (TxBuffer_deref_mut p bs m)"
    using assms(1) free by (simp add: pool_inv_def TxBuffer_deref_mut_def)
qed

lemma tx_pool_allocator:
  assumes ch: "fifo_channel n view ch"
  shows "allocator (try_alloc ch) (TxBuffer_drop ch) (pool_held n view) {..<n} (pool_inv n view)"
proof (unfold_locales, goal_cases)
  case (1 s)
  then show ?case by (auto simp: pool_held_def)
next
  case (2 s h s')
  note free = try_alloc_free [OF ch 2(2)]
  show ?case using 2 free try_alloc_inv [OF ch 2] by (auto simp: pool_defs)
next
  case (3 s)
  then show ?case using try_alloc_None [OF ch] by (simp add: pool_held_def)
next
  case (4 s h)
  show ?case using TxBuffer_drop_free [OF ch 4] TxBuffer_drop_inv [OF ch 4] 4(2)
    by (auto simp: pool_held_def)
qed

section \<open>All runs of the pool\<close>

text \<open>The users of the pool allocate, write to the buffers they own and drop them.
  \<open>outs\<close> is the set of live buffers.\<close>

inductive tx_pool_run :: "('q, nat) channel_ops \<Rightarrow> nat \<Rightarrow> nat set \<Rightarrow> 'q tx_buffer_manager \<Rightarrow> bool"
  for ch n where
  pool_start: "tx_pool_run ch n {} (TxBufferManager_new ch (replicate n (replicate TX_BUFFER_SIZE 0)))"
| pool_alloc: "tx_pool_run ch n outs m \<Longrightarrow> try_alloc ch m = Some (p, m') \<Longrightarrow>
     tx_pool_run ch n (insert p outs) m'"
| pool_write: "tx_pool_run ch n outs m \<Longrightarrow> p \<in> outs \<Longrightarrow> length bs = TX_BUFFER_SIZE \<Longrightarrow>
     tx_pool_run ch n outs (TxBuffer_deref_mut p bs m)"
| pool_drop: "tx_pool_run ch n outs m \<Longrightarrow> p \<in> outs \<Longrightarrow>
     tx_pool_run ch n (outs - {p}) (TxBuffer_drop ch p m)"

lemma tx_pool_run_inv:
  assumes ch: "fifo_channel n view ch"
  shows "tx_pool_run ch n outs m \<Longrightarrow> pool_inv n view m \<and> pool_held n view m = outs"
proof (induction rule: tx_pool_run.induct)
  case pool_start
  then show ?case using pool_new_inv [OF ch] pool_new_free [OF ch] by (auto simp: pool_held_def)
next
  case (pool_alloc outs m p m')
  then show ?case using allocator.acquire_fresh [OF tx_pool_allocator [OF ch]] by blast
next
  case (pool_write outs m p bs)
  then show ?case using TxBuffer_deref_mut_inv [of n view m p bs] by (auto simp: pool_held_def)
next
  case (pool_drop outs m p)
  then show ?case using allocator.release_held [OF tx_pool_allocator [OF ch]] by blast
qed

lemma tx_pool_partition:
  assumes "fifo_channel n view ch" "tx_pool_run ch n outs m"
  shows "set (view (buffer_queue m)) = {..<n} - outs" "outs \<subseteq> {..<n}"
    and "length (view (buffer_queue m)) + card outs = n"
proof -
  have inv: "pool_inv n view m" "pool_held n view m = outs"
    using tx_pool_run_inv [OF assms] by auto
  then show part: "set (view (buffer_queue m)) = {..<n} - outs" and sub: "outs \<subseteq> {..<n}"
    by (auto simp: pool_defs)
  have "length (view (buffer_queue m)) = card ({..<n} - outs)"
    using inv(1) distinct_card [of "pool_free view m"] part by (simp add: pool_inv_def pool_free_def)
  then show "length (view (buffer_queue m)) + card outs = n"
    using sub card_Diff_subset [of outs "{..<n}"] card_mono [of "{..<n}" outs]
    by (simp add: finite_subset)
qed

text \<open>
  In every state the users of the pool can reach, the free buffers and the live ones
  partition the slab, so no buffer is lost or handed out twice, and allocation fails only
  when all of them are live.
\<close>

theorem tx_pool_conservation:
  assumes "fifo_channel n view ch" "tx_pool_run ch n outs m"
  shows "set (view (buffer_queue m)) = {..<n} - outs \<and> outs \<subseteq> {..<n} \<and>
     length (view (buffer_queue m)) + card outs = n \<and>
     (try_alloc ch m = None \<longleftrightarrow> outs = {..<n})"
  using tx_pool_partition [OF assms] try_alloc_None [OF assms(1)] by (auto simp: pool_free_def)

theorem tx_pool_conservation_witness:
  "set (buffer_queue (snd (the (try_alloc (list_channel 2)
      (TxBufferManager_new (list_channel 2) (replicate 2 (replicate TX_BUFFER_SIZE 0))))))) = {..<2} - {0 :: nat}"
proof -
  let ?m = "TxBufferManager_new (list_channel 2) (replicate 2 (replicate TX_BUFFER_SIZE 0))"
  have a: "try_alloc (list_channel 2) ?m = Some (0, ?m\<lparr>buffer_queue := [1]\<rparr>)"
    by (simp add: try_alloc_def TxBufferManager_new_def list_channel_def upt_rec numeral_2_eq_2)
  have "tx_pool_run (list_channel 2) 2 {0} (?m\<lparr>buffer_queue := [1]\<rparr>)"
    using pool_alloc [OF pool_start a] by simp
  from tx_pool_conservation [OF list_channel_fifo this] show ?thesis using a by simp
qed

text \<open>
  Whatever earlier users wrote, a freshly allocated buffer is not live anywhere else and
  contains only zero bytes: no frame leaks into the next one.
\<close>

theorem tx_alloc_exclusive_zeroed:
  assumes "fifo_channel n view ch" "tx_pool_run ch n outs m" "try_alloc ch m = Some (p, m')"
  shows "p < n \<and> p \<notin> outs \<and> TxBuffer_deref p m' = replicate TX_BUFFER_SIZE 0"
proof -
  have inv: "pool_inv n view m" "pool_held n view m = outs"
    using tx_pool_run_inv [OF assms(1,2)] by auto
  have "pool_free view m = p # pool_free view m'" "tx_buffers m' = tx_buffers m"
    using try_alloc_free [OF assms(1,3)] by auto
  then show ?thesis using inv by (auto simp: pool_defs zeroed_def TxBuffer_deref_def)
qed

theorem tx_alloc_exclusive_zeroed_witness:
  "TxBuffer_deref 0 (snd (the (try_alloc (list_channel 1)
      (TxBufferManager_new (list_channel 1) (replicate 1 (replicate TX_BUFFER_SIZE 0)))))) =
   replicate TX_BUFFER_SIZE 0"
proof -
  let ?m = "TxBufferManager_new (list_channel 1) (replicate 1 (replicate TX_BUFFER_SIZE 0))"
  have a: "try_alloc (list_channel 1) ?m = Some (0, ?m\<lparr>buffer_queue := []\<rparr>)"
    by (simp add: try_alloc_def TxBufferManager_new_def list_channel_def)
  from tx_alloc_exclusive_zeroed [OF list_channel_fifo pool_start a] show ?thesis using a by simp
qed

end
