(* ===== verification/Tx_Queue.thy ===== *)
theory Tx_Queue
  imports Tx_Buffer
begin

text \<open>
  The asynchronous transmit queue, \<open>foa/src/tx_queue.rs\<close>: a ring of \<open>TX_BUFFER_COUNT\<close>
  slots (the parameter \<open>N\<close>), a running generation counter and the remaining capacity. A
  caller holds a generation number (\<open>PendingTransmission\<close>); the background runner takes the
  front frame, passes it to the radio and stores the result. Wake-ups and released buffers
  are recorded as effects. Frames, radio results and PHY rates are type parameters.
\<close>

section \<open>Data\<close>

datatype 'r retry_behaviour = Drop | RetryUntil u8 | MultiRateRetry "'r list"

datatype 'r tx_error_behaviour = DriverDrop | DriverRetryUntil u8 | DriverMultiRateRetry "'r list"

fun as_driver_behaviour :: "'r retry_behaviour \<Rightarrow> 'r tx_error_behaviour" where
  "as_driver_behaviour Drop = DriverDrop"
| "as_driver_behaviour (RetryUntil retries) = DriverRetryUntil retries"
| "as_driver_behaviour (MultiRateRetry rates) = DriverMultiRateRetry rates"

text \<open>The fields of the driver's transmission parameters that the stack sets.\<close>

record 'r tx_plcp_parameters =
  rate :: 'r

record tx_mac_parameters =
  key_slot_index :: "u8 option"
  wait_for_ack :: bool
  override_seq_num :: bool

record ('b, 'r) pending_frame =
  frame :: 'b
  frame_length :: nat
  plcp_parameters :: "'r tx_plcp_parameters"
  mac_parameters :: tx_mac_parameters
  interface :: u8
  retry_behaviour :: "'r retry_behaviour"

record ('b, 'e) tx_return_data =
  result :: "'e + u8"
  return_frame :: 'b
  return_frame_length :: nat

datatype ('b, 'r, 'e) tx_queue_slot =
    Empty
  | SlotPending "('b, 'r) pending_frame"
  | InProgress
  | ReturnDataAvailable "('b, 'e) tx_return_data"

text \<open>A queue item is the slot and the flag that return data is expected.\<close>

record ('b, 'r, 'e) tx_queue_state =
  queue_items :: "(('b, 'r, 'e) tx_queue_slot \<times> bool) list"
  counter :: nat
  capacity :: nat

datatype 'b tx_effect =
    WakeQueue | WakeSlot nat | RegisterQueue | RegisterSlot nat | ReleaseBuffer 'b

text \<open>The buffers a slot value owns, which dropping it gives back to the pool.\<close>

fun slot_buffers :: "('b, 'r, 'e) tx_queue_slot \<Rightarrow> 'b list" where
  "slot_buffers Empty = []"
| "slot_buffers (SlotPending f) = [frame f]"
| "slot_buffers InProgress = []"
| "slot_buffers (ReturnDataAvailable d) = [return_frame d]"

section \<open>The queue state\<close>

definition TxQueueState_new :: "nat \<Rightarrow> ('b, 'r, 'e) tx_queue_state" where
  "TxQueueState_new N = \<lparr>queue_items = replicate N (Empty, True), counter = 0, capacity = N\<rparr>"

definition next_slot_index :: "nat \<Rightarrow> ('b, 'r, 'e) tx_queue_state \<Rightarrow> nat" where
  "next_slot_index N s = counter s mod N"

definition queue_len :: "nat \<Rightarrow> ('b, 'r, 'e) tx_queue_state \<Rightarrow> nat" where
  "queue_len N s = N - capacity s"

definition front_index :: "nat \<Rightarrow> ('b, 'r, 'e) tx_queue_state \<Rightarrow> nat" where
  "front_index N s =
     (let len = queue_len N s; next = next_slot_index N s
      in if len \<le> next then next - len
         else (let overrun_count = len - next in N - overrun_count))"

definition increase_queue_counter ::
  "('b, 'r, 'e) tx_queue_state \<Rightarrow> panic + (nat \<times> ('b, 'r, 'e) tx_queue_state)" where
  "increase_queue_counter s =
     (if counter s + 1 < 2 ^ 64
      then Inr (counter s, s\<lparr>counter := counter s + 1\<rparr>)
      else Inl (Panic ''TX queue generation counter exhausted''))"

definition queue_is_empty :: "nat \<Rightarrow> ('b, 'r, 'e) tx_queue_state \<Rightarrow> bool" where
  "queue_is_empty N s \<longleftrightarrow> capacity s = N"

definition is_counter_out_of_bounds :: "nat \<Rightarrow> nat \<Rightarrow> ('b, 'r, 'e) tx_queue_state \<Rightarrow> bool" where
  "is_counter_out_of_bounds N c s \<longleftrightarrow> counter s - c > N"

definition slot_at :: "('b, 'r, 'e) tx_queue_state \<Rightarrow> nat \<Rightarrow> ('b, 'r, 'e) tx_queue_slot" where
  "slot_at s i = fst (queue_items s ! i)"

definition return_data_expected :: "('b, 'r, 'e) tx_queue_state \<Rightarrow> nat \<Rightarrow> bool" where
  "return_data_expected s i = snd (queue_items s ! i)"

definition set_slot ::
  "nat \<Rightarrow> ('b, 'r, 'e) tx_queue_slot \<Rightarrow> bool \<Rightarrow> ('b, 'r, 'e) tx_queue_state \<Rightarrow> ('b, 'r, 'e) tx_queue_state" where
  "set_slot i v expected s = s\<lparr>queue_items := (queue_items s)[i := (v, expected)]\<rparr>"

section \<open>Enqueueing, the runner, and the handles\<close>

definition enqueue_frame ::
  "nat \<Rightarrow> ('b, 'r) pending_frame \<Rightarrow> ('b, 'r, 'e) tx_queue_state \<Rightarrow>
     panic + (nat \<times> ('b, 'r, 'e) tx_queue_state \<times> 'b tx_effect list)" where
  "enqueue_frame N f s =
     (if \<not> 0 < capacity s then Inl (Panic ''TX queue capacity exhausted'')
      else
        (let was_queue_empty = queue_is_empty N s; i = next_slot_index N s
         in case increase_queue_counter s of
              Inl p \<Rightarrow> Inl p
            | Inr (c, s1) \<Rightarrow>
                Inr (c,
                     set_slot i (SlotPending f) True (s1\<lparr>capacity := capacity s1 - 1\<rparr>),
                     map ReleaseBuffer (slot_buffers (slot_at s i)) @
                       (if was_queue_empty then [WakeQueue] else []))))"

definition wait_queue_not_empty ::
  "nat \<Rightarrow> ('b, 'r, 'e) tx_queue_state \<Rightarrow> unit poll \<times> 'b tx_effect list" where
  "wait_queue_not_empty N s =
     (if queue_is_empty N s then (Pending, [RegisterQueue]) else (Ready (), []))"

definition try_receive ::
  "nat \<Rightarrow> ('b, 'r, 'e) tx_queue_state \<Rightarrow>
     panic + ((nat \<times> ('b, 'r) pending_frame \<times> ('b, 'r, 'e) tx_queue_state) option)" where
  "try_receive N s =
     (if queue_is_empty N s then Inr None
      else
        (let i = front_index N s
         in case slot_at s i of
              Empty \<Rightarrow> Inl (Panic ''Queue was not marked as empty, however the front slot was.'')
            | ReturnDataAvailable d \<Rightarrow>
                Inl (Panic ''Queue was not marked as empty, however the front slot was.'')
            | SlotPending f \<Rightarrow>
                Inr (Some (i, f, set_slot i InProgress (return_data_expected s i) s))
            | InProgress \<Rightarrow> Inl (Panic ''TX queue front slot is in progress.'')))"

definition finish ::
  "nat \<Rightarrow> ('b, 'r, 'e) tx_queue_slot \<Rightarrow> ('b, 'r, 'e) tx_queue_state \<Rightarrow>
     ('b, 'r, 'e) tx_queue_state \<times> 'b tx_effect list" where
  "finish i new_slot_state s =
     (let expected = return_data_expected s i;
          s1 = s\<lparr>capacity := capacity s + 1\<rparr>;
          old = map ReleaseBuffer (slot_buffers (slot_at s i))
      in if expected
         then (set_slot i new_slot_state expected s1, old @ [WakeSlot i])
         else (set_slot i Empty expected s1,
               old @ [WakeSlot i] @ map ReleaseBuffer (slot_buffers new_slot_state)))"

text \<open>What the runner passes to the radio, and the transmission of one frame: the radio
  future resolves to \<open>res\<close>.\<close>

definition transmit_request ::
  "('b, 'r) pending_frame \<Rightarrow>
     nat \<times> 'r tx_plcp_parameters \<times> tx_mac_parameters \<times> 'r tx_error_behaviour \<times> 'b \<times> nat" where
  "transmit_request f =
     (unat (interface f), plcp_parameters f, mac_parameters f,
      as_driver_behaviour (retry_behaviour f), frame f, frame_length f)"

definition transmit ::
  "nat \<Rightarrow> ('b, 'r) pending_frame \<Rightarrow> 'e + u8 \<Rightarrow> ('b, 'r, 'e) tx_queue_state \<Rightarrow>
     ('b, 'r, 'e) tx_queue_state \<times> 'b tx_effect list" where
  "transmit i f res s =
     finish i (ReturnDataAvailable
       \<lparr>result = res, return_frame = frame f, return_frame_length = frame_length f\<rparr>) s"

text \<open>Dropping the runner while the radio is busy drops the transmission and its frame.\<close>

definition InProgressTransmission_drop ::
  "nat \<Rightarrow> ('b, 'r) pending_frame \<Rightarrow> ('b, 'r, 'e) tx_queue_state \<Rightarrow>
     ('b, 'r, 'e) tx_queue_state \<times> 'b tx_effect list" where
  "InProgressTransmission_drop i f s =
     (let (s', eff) = finish i Empty s in (s', eff @ [ReleaseBuffer (frame f)]))"

text \<open>The inner loop of \<open>TxQueueRunner::run\<close>, which serves frames until the queue is empty:
  \<open>radio f\<close> is the result the driver gives for frame \<open>f\<close>; the returned list holds the frames
  in the order they were passed to the radio. A run that does not end is \<open>None\<close>.\<close>

partial_function (option) run_inner ::
  "nat \<Rightarrow> (('b, 'r) pending_frame \<Rightarrow> 'e + u8) \<Rightarrow> ('b, 'r, 'e) tx_queue_state \<Rightarrow>
     (panic + ('b, 'r) pending_frame list \<times> ('b, 'r, 'e) tx_queue_state) option" where
  "run_inner N radio s =
     (case try_receive N s of
        Inl p \<Rightarrow> Some (Inl p)
      | Inr None \<Rightarrow> Some (Inr ([], s))
      | Inr (Some (i, f, s1)) \<Rightarrow>
          Option.bind (run_inner N radio (fst (transmit i f (radio f) s1)))
            (\<lambda>r. Some (case r of Inl p \<Rightarrow> Inl p | Inr (fs, s2) \<Rightarrow> Inr (f # fs, s2))))"

datatype pending_transmission_status =
  StatusPending | StatusInProgress | StatusReturnDataAvailable | SlotNoLongerValid

definition slot_index :: "nat \<Rightarrow> nat \<Rightarrow> nat" where
  "slot_index N c = c mod N"

definition status :: "nat \<Rightarrow> nat \<Rightarrow> ('b, 'r, 'e) tx_queue_state \<Rightarrow> pending_transmission_status" where
  "status N c s =
     (if is_counter_out_of_bounds N c s then SlotNoLongerValid
      else case slot_at s (slot_index N c) of
             InProgress \<Rightarrow> StatusInProgress
           | SlotPending f \<Rightarrow> StatusPending
           | ReturnDataAvailable d \<Rightarrow> StatusReturnDataAvailable
           | Empty \<Rightarrow> SlotNoLongerValid)"

text \<open>One poll of \<open>wait_for_completion\<close>.\<close>

definition wait_for_completion ::
  "nat \<Rightarrow> nat \<Rightarrow> ('b, 'r, 'e) tx_queue_state \<Rightarrow>
     ('b, 'e) tx_return_data option poll \<times> ('b, 'r, 'e) tx_queue_state \<times> 'b tx_effect list" where
  "wait_for_completion N c s =
     (if is_counter_out_of_bounds N c s then (Ready None, s, [])
      else
        (let i = slot_index N c
         in case slot_at s i of
              ReturnDataAvailable d \<Rightarrow>
                (Ready (Some d), set_slot i Empty (return_data_expected s i) s, [])
            | Empty \<Rightarrow> (Ready None, s, [])
            | SlotPending f \<Rightarrow> (Pending, s, [RegisterSlot i])
            | InProgress \<Rightarrow> (Pending, s, [RegisterSlot i])))"

definition PendingTransmission_drop ::
  "nat \<Rightarrow> nat \<Rightarrow> ('b, 'r, 'e) tx_queue_state \<Rightarrow> ('b, 'r, 'e) tx_queue_state \<times> 'b tx_effect list" where
  "PendingTransmission_drop N c s =
     (if is_counter_out_of_bounds N c s then (s, [])
      else
        (let i = slot_index N c
         in case slot_at s i of
              ReturnDataAvailable d \<Rightarrow> (set_slot i Empty False s, [ReleaseBuffer (return_frame d)])
            | v \<Rightarrow> (set_slot i v False s, [])))"

text \<open>The endpoint of an interface picks one of the four EDCA queues by the hardware slot of
  the access category, which the driver numbers from one.\<close>

definition transmit_edca ::
  "nat \<Rightarrow> nat \<Rightarrow> nat \<Rightarrow> 'b \<Rightarrow> nat \<Rightarrow> 'r tx_plcp_parameters \<Rightarrow> tx_mac_parameters \<Rightarrow> 'r retry_behaviour \<Rightarrow>
     ('b, 'r, 'e) tx_queue_state list \<Rightarrow>
     panic + (nat \<times> ('b, 'r, 'e) tx_queue_state list \<times> 'b tx_effect list)" where
  "transmit_edca N iface hardware_slot buf len plcp mac retry queues =
     (let q = hardware_slot - 1
      in case enqueue_frame N
                \<lparr>frame = buf, frame_length = len, plcp_parameters = plcp, mac_parameters = mac,
                 interface = of_nat iface, retry_behaviour = retry\<rparr> (queues ! q) of
           Inl p \<Rightarrow> Inl p
         | Inr (c, s, eff) \<Rightarrow> Inr (c, queues[q := s], eff))"

section \<open>Ring arithmetic\<close>

lemma mod_window_inj:
  assumes "(g :: nat) mod N = h mod N" "g \<le> h" "h < g + N"
  shows "g = h"
proof -
  have "N dvd h - g" using assms(1,2) mod_eq_dvd_iff_nat [of g h N] by simp
  moreover have "h - g < N" using assms(2,3) by linarith
  ultimately have "h - g = 0" by (metis dvd_imp_le not_gr_zero linorder_not_less)
  then show ?thesis using assms(2) by simp
qed

lemma front_index_mod:
  assumes "0 < N" "queue_len N s \<le> counter s"
  shows "front_index N s = (counter s - queue_len N s) mod N"
proof -
  define q where "q = counter s div N"
  define r where "r = counter s mod N"
  have c: "counter s = q * N + r" and r: "r < N"
    using assms(1) by (simp_all add: q_def r_def)
  have len: "queue_len N s \<le> N" by (simp add: queue_len_def)
  show ?thesis
  proof (cases "queue_len N s \<le> r")
    case True
    then have "counter s - queue_len N s = q * N + (r - queue_len N s)" using c by simp
    moreover have "(q * N + (r - queue_len N s)) mod N = r - queue_len N s"
      using r by (simp add: less_imp_diff_less)
    ultimately show ?thesis using True
      by (simp add: front_index_def next_slot_index_def Let_def r_def [symmetric])
  next
    case False
    then have "q \<noteq> 0" using c assms(2) by (intro notI) simp
    then obtain k where k: "q = Suc k" by (cases q) auto
    have "counter s - queue_len N s = k * N + (N - (queue_len N s - r))"
      using False len c k by simp
    moreover have "(k * N + (N - (queue_len N s - r))) mod N = N - (queue_len N s - r)"
      using False assms(1) by simp
    ultimately show ?thesis using False
      by (simp add: front_index_def next_slot_index_def Let_def r_def [symmetric])
  qed
qed

lemma set_slot_simps [simp]:
  "counter (set_slot i v b s) = counter s"
  "capacity (set_slot i v b s) = capacity s"
  "length (queue_items (set_slot i v b s)) = length (queue_items s)"
  by (simp_all add: set_slot_def)

lemma set_slot_at [simp]:
  "i < length (queue_items s) \<Longrightarrow>
     slot_at (set_slot i v b s) j = (if j = i then v else slot_at s j)"
  "i < length (queue_items s) \<Longrightarrow>
     return_data_expected (set_slot i v b s) j = (if j = i then b else return_data_expected s j)"
  by (auto simp: set_slot_def slot_at_def return_data_expected_def)

lemma slot_at_counters [simp]:
  "slot_at (s\<lparr>capacity := n\<rparr>) i = slot_at s i" "slot_at (s\<lparr>counter := n\<rparr>) i = slot_at s i"
  "slot_at (s\<lparr>counter := m, capacity := n\<rparr>) i = slot_at s i"
  "return_data_expected (s\<lparr>capacity := n\<rparr>) i = return_data_expected s i"
  "return_data_expected (s\<lparr>counter := n\<rparr>) i = return_data_expected s i"
  "return_data_expected (s\<lparr>counter := m, capacity := n\<rparr>) i = return_data_expected s i"
  by (simp_all add: slot_at_def return_data_expected_def)

end
