(* ===== verification/Tx_Queue_Runs.thy ===== *)
theory Tx_Queue_Runs
  imports Tx_Queue
begin

text \<open>
  All runs of one transmit queue: callers enqueue frames, poll and drop their handles in any
  order, while the runner takes the front frame, and the radio completes it or the runner is
  aborted. The ghost fields record what was enqueued (\<open>history\<close>, so generation \<open>g\<close> is
  \<open>history ! g\<close>), what the radio is busy with, and where every buffer went. The lemmas give
  an inductive invariant of these runs; the properties are its consequences.
\<close>

record ('b, 'r, 'e) txq_sys =
  queue :: "('b, 'r, 'e) tx_queue_state"
  inflight :: "(nat \<times> ('b, 'r) pending_frame) option"
  history :: "('b, 'r) pending_frame list"
  released :: "'b multiset"
  returned :: "'b multiset"

fun effect_buffers :: "'b tx_effect list \<Rightarrow> 'b multiset" where
  "effect_buffers [] = {#}"
| "effect_buffers (ReleaseBuffer b # es) = add_mset b (effect_buffers es)"
| "effect_buffers (_ # es) = effect_buffers es"

definition poll_buffers :: "('b, 'e) tx_return_data option poll \<Rightarrow> 'b multiset" where
  "poll_buffers r = (case r of Ready (Some d) \<Rightarrow> {#return_frame d#} | _ \<Rightarrow> {#})"

definition txq_init :: "nat \<Rightarrow> ('b, 'r, 'e) txq_sys" where
  "txq_init N = \<lparr>queue = TxQueueState_new N, inflight = None, history = [], released = {#}, returned = {#}\<rparr>"

inductive txq_step :: "nat \<Rightarrow> ('b, 'r, 'e) txq_sys \<Rightarrow> ('b, 'r, 'e) txq_sys \<Rightarrow> bool" for N where
  step_enqueue: "enqueue_frame N f (queue s) = Inr (c, q, eff) \<Longrightarrow>
     txq_step N s (s\<lparr>queue := q, history := history s @ [f],
                     released := released s + effect_buffers eff\<rparr>)"
| step_receive: "inflight s = None \<Longrightarrow> try_receive N (queue s) = Inr (Some (i, f, q)) \<Longrightarrow>
     txq_step N s (s\<lparr>queue := q, inflight := Some (i, f)\<rparr>)"
| step_complete: "inflight s = Some (i, f) \<Longrightarrow> transmit i f res (queue s) = (q, eff) \<Longrightarrow>
     txq_step N s (s\<lparr>queue := q, inflight := None, released := released s + effect_buffers eff\<rparr>)"
| step_abort: "inflight s = Some (i, f) \<Longrightarrow> InProgressTransmission_drop i f (queue s) = (q, eff) \<Longrightarrow>
     txq_step N s (s\<lparr>queue := q, inflight := None, released := released s + effect_buffers eff\<rparr>)"
| step_poll: "c < counter (queue s) \<Longrightarrow> wait_for_completion N c (queue s) = (r, q, eff) \<Longrightarrow>
     txq_step N s (s\<lparr>queue := q, returned := returned s + poll_buffers r\<rparr>)"
| step_drop: "c < counter (queue s) \<Longrightarrow> PendingTransmission_drop N c (queue s) = (q, eff) \<Longrightarrow>
     txq_step N s (s\<lparr>queue := q, released := released s + effect_buffers eff\<rparr>)"

inductive txq_reach :: "nat \<Rightarrow> ('b, 'r, 'e) txq_sys \<Rightarrow> bool" for N where
  reach_init: "txq_reach N (txq_init N)"
| reach_step: "txq_reach N s \<Longrightarrow> txq_step N s t \<Longrightarrow> txq_reach N t"

section \<open>The shape of the ring\<close>

text \<open>\<open>ring_ok N c l h fl slot\<close>: with generation counter \<open>c\<close> and \<open>l\<close> queued frames, the last \<open>l\<close>
  generations sit in their slots in order, the front one marked while the radio has it, and
  every older generation that still owns its slot has finished.\<close>

definition finished_slot :: "('b, 'r) pending_frame \<Rightarrow> ('b, 'r, 'e) tx_queue_slot \<Rightarrow> bool" where
  "finished_slot f v \<longleftrightarrow>
     (case v of Empty \<Rightarrow> True
      | ReturnDataAvailable d \<Rightarrow> return_frame d = frame f \<and> return_frame_length d = frame_length f
      | _ \<Rightarrow> False)"

definition ring_ok ::
  "nat \<Rightarrow> nat \<Rightarrow> nat \<Rightarrow> ('b, 'r) pending_frame list \<Rightarrow> (nat \<times> ('b, 'r) pending_frame) option \<Rightarrow>
     (nat \<Rightarrow> ('b, 'r, 'e) tx_queue_slot) \<Rightarrow> bool" where
  "ring_ok N c l h fl slot \<longleftrightarrow>
     0 < N \<and> l \<le> c \<and> l \<le> N \<and> length h = c \<and>
     (\<forall>g. c - l \<le> g \<and> g < c \<longrightarrow>
        slot (g mod N) = (if g = c - l \<and> fl \<noteq> None then InProgress else SlotPending (h ! g))) \<and>
     (\<forall>i f. fl = Some (i, f) \<longrightarrow> 0 < l \<and> i = (c - l) mod N \<and> f = h ! (c - l)) \<and>
     (\<forall>g. g < c - l \<and> c \<le> g + N \<longrightarrow> finished_slot (h ! g) (slot (g mod N))) \<and>
     (\<forall>i < N. c \<le> i \<longrightarrow> slot i = Empty)"

lemma ring_okD:
  assumes "ring_ok N c l h fl slot"
  shows ring_pos: "0 < N" "l \<le> c" "l \<le> N" "length h = c"
    and ring_live: "\<And>g. c - l \<le> g \<Longrightarrow> g < c \<Longrightarrow>
          slot (g mod N) = (if g = c - l \<and> fl \<noteq> None then InProgress else SlotPending (h ! g))"
    and ring_inflight: "\<And>i f. fl = Some (i, f) \<Longrightarrow> 0 < l \<and> i = (c - l) mod N \<and> f = h ! (c - l)"
    and ring_done: "\<And>g. g < c - l \<Longrightarrow> c \<le> g + N \<Longrightarrow> finished_slot (h ! g) (slot (g mod N))"
    and ring_unused: "\<And>i. i < N \<Longrightarrow> c \<le> i \<Longrightarrow> slot i = Empty"
  using assms unfolding ring_ok_def by blast+

text \<open>Two generations that both own their slot and share it are the same.\<close>

lemma window_neq: "(g :: nat) < h \<Longrightarrow> h < g + N \<Longrightarrow> g mod N \<noteq> h mod N"
  using mod_window_inj [of g N h] by auto

lemma ring_init: "0 < N \<Longrightarrow> ring_ok N 0 0 [] None (\<lambda>_. Empty)"
  by (simp add: ring_ok_def)

lemma ring_cong: "(\<And>i. i < N \<Longrightarrow> slot i = slot' i) \<Longrightarrow> ring_ok N c l h fl slot = ring_ok N c l h fl slot'"
  unfolding ring_ok_def by (cases "0 < N") (simp_all add: mod_less_divisor cong: conj_cong)

lemma ring_enqueue:
  assumes "ring_ok N c l h fl slot" "l < N"
  shows "ring_ok N (c + 1) (l + 1) (h @ [f]) fl (slot(c mod N := SlotPending f))"
proof -
  note R = ring_okD [OF assms(1)]
  have live: "(slot(c mod N := SlotPending f)) (g mod N) =
      (if g = c - l \<and> fl \<noteq> None then InProgress else SlotPending ((h @ [f]) ! g))"
    if "c - l \<le> g" "g \<le> c" for g
  proof (cases "g = c")
    case True
    then have "fl = None" if "g = c - l" using that R(2) R(6) by (cases fl) fastforce+
    then show ?thesis using True R(4) by (auto simp: nth_append)
  next
    case False
    then have "g mod N \<noteq> c mod N" using that assms(2) R(2) by (intro window_neq) auto
    then show ?thesis using R(5) [of g] that False R(4) by (simp add: nth_append)
  qed
  have don: "finished_slot ((h @ [f]) ! g) ((slot(c mod N := SlotPending f)) (g mod N))"
    if "g < c - l" "c + 1 \<le> g + N" for g
  proof -
    have "g < c" using that by simp
    then have "g mod N \<noteq> c mod N" using that by (intro window_neq) auto
    then show ?thesis using R(7) [of g] that R(4) \<open>g < c\<close> by (simp add: nth_append)
  qed
  have un: "(slot(c mod N := SlotPending f)) i = Empty" if "i < N" "c + 1 \<le> i" for i
    using R(8) [of i] that by auto
  have infl: "0 < l + 1 \<and> i = (c - l) mod N \<and> f' = (h @ [f]) ! (c - l)" if "fl = Some (i, f')" for i f'
    using R(6) [OF that] R(2,4) by (auto simp: nth_append)
  show ?thesis
    unfolding ring_ok_def using R(1-4) assms(2) live don un infl by auto
qed

lemma ring_receive:
  assumes "ring_ok N c l h None slot" "0 < l"
  shows "ring_ok N c l h (Some ((c - l) mod N, h ! (c - l))) (slot((c - l) mod N := InProgress))"
proof -
  note R = ring_okD [OF assms(1)]
  have live: "(slot((c - l) mod N := InProgress)) (g mod N) =
      (if g = c - l then InProgress else SlotPending (h ! g))" if "c - l \<le> g" "g < c" for g
  proof (cases "g = c - l")
    case False
    then have "(c - l) mod N \<noteq> g mod N" using that R(2,3) by (intro window_neq) auto
    then show ?thesis using R(5) [of g] that False by auto
  qed simp
  have don: "finished_slot (h ! g) ((slot((c - l) mod N := InProgress)) (g mod N))"
    if "g < c - l" "c \<le> g + N" for g
  proof -
    have "g mod N \<noteq> (c - l) mod N" using that assms(2) by (intro window_neq) auto
    then show ?thesis using R(7) that by simp
  qed
  have un: "(slot((c - l) mod N := InProgress)) i = Empty" if "i < N" "c \<le> i" for i
    using R(8) [of i] that assms(2) R(2) by auto
  show ?thesis unfolding ring_ok_def using R(1-4) assms(2) live don un by auto
qed

lemma ring_finish:
  assumes "ring_ok N c l h (Some (i, f)) slot" "finished_slot f v"
  shows "ring_ok N c (l - 1) h None (slot(i := v))"
proof -
  note R = ring_okD [OF assms(1)]
  have i: "0 < l" "i = (c - l) mod N" "f = h ! (c - l)" using R(6) by auto
  have front: "c - (l - 1) = Suc (c - l)" using i(1) R(2) by simp
  have live: "(slot(i := v)) (g mod N) = SlotPending (h ! g)" if "c - (l - 1) \<le> g" "g < c" for g
  proof -
    have "(c - l) mod N \<noteq> g mod N" using that front R(2,3) by (intro window_neq) auto
    then show ?thesis using R(5) [of g] that front i by auto
  qed
  have don: "finished_slot (h ! g) ((slot(i := v)) (g mod N))"
    if "g < c - (l - 1)" "c \<le> g + N" for g
  proof (cases "g = c - l")
    case True
    then show ?thesis using i assms(2) by simp
  next
    case False
    then have "g mod N \<noteq> (c - l) mod N" using that front i(1) by (intro window_neq) auto
    then show ?thesis using R(7) that front False i(2) by simp
  qed
  have un: "(slot(i := v)) j = Empty" if "j < N" "c \<le> j" for j
    using R(8) [of j] that i R(2) by auto
  show ?thesis unfolding ring_ok_def using R(1-4) live don un by auto
qed

lemma ring_clear:
  assumes "ring_ok N c l h fl slot" "slot j = ReturnDataAvailable d"
  shows "ring_ok N c l h fl (slot(j := Empty))"
proof -
  note R = ring_okD [OF assms(1)]
  have "(slot(j := Empty)) (g mod N) = slot (g mod N)" if "c - l \<le> g" "g < c" for g
    using R(5) [OF that] assms(2) by (auto split: if_splits)
  moreover have "finished_slot (h ! g) ((slot(j := Empty)) (g mod N))" if "g < c - l" "c \<le> g + N" for g
    using R(7) [OF that] by (simp add: finished_slot_def)
  ultimately show ?thesis unfolding ring_ok_def using R by auto
qed

section \<open>Every buffer is somewhere\<close>

definition queue_buffers :: "('b, 'r, 'e) tx_queue_state \<Rightarrow> 'b multiset" where
  "queue_buffers s = mset (concat (map (\<lambda>p. slot_buffers (fst p)) (queue_items s)))"

definition inflight_buffers :: "(nat \<times> ('b, 'r) pending_frame) option \<Rightarrow> 'b multiset" where
  "inflight_buffers fl = (case fl of None \<Rightarrow> {#} | Some (i, f) \<Rightarrow> {#frame f#})"

lemma queue_buffers_set_slot:
  fixes s :: "('b, 'r, 'e) tx_queue_state"
  assumes "i < length (queue_items s)"
  shows "queue_buffers (set_slot i v b s) + mset (slot_buffers (slot_at s i)) =
    queue_buffers s + mset (slot_buffers v)"
proof -
  let ?B = "\<lambda>p :: ('b, 'r, 'e) tx_queue_slot \<times> bool. slot_buffers (fst p)"
  let ?xs = "queue_items s"
  have "?xs = take i ?xs @ ?xs ! i # drop (Suc i) ?xs" using assms by (rule id_take_nth_drop)
  then have "concat (map ?B ?xs) =
      concat (map ?B (take i ?xs)) @ ?B (?xs ! i) @ concat (map ?B (drop (Suc i) ?xs))"
    by (metis concat.simps(2) concat_append list.simps(9) map_append)
  moreover have "?xs[i := (v, b)] = take i ?xs @ (v, b) # drop (Suc i) ?xs"
    using assms by (rule upd_conv_take_nth_drop)
  ultimately show ?thesis by (simp add: queue_buffers_def set_slot_def slot_at_def)
qed

lemma queue_buffers_counters [simp]:
  "queue_buffers (s\<lparr>capacity := n\<rparr>) = queue_buffers s"
  "queue_buffers (s\<lparr>counter := n\<rparr>) = queue_buffers s"
  "queue_buffers (s\<lparr>counter := m, capacity := n\<rparr>) = queue_buffers s"
  by (simp_all add: queue_buffers_def)

lemma effect_buffers_append [simp]: "effect_buffers (xs @ ys) = effect_buffers xs + effect_buffers ys"
  by (induction xs rule: effect_buffers.induct) auto

lemma effect_buffers_release [simp]: "effect_buffers (map ReleaseBuffer bs) = mset bs"
  by (induction bs) auto

definition txq_inv :: "nat \<Rightarrow> ('b, 'r, 'e) txq_sys \<Rightarrow> bool" where
  "txq_inv N s \<longleftrightarrow>
     length (queue_items (queue s)) = N \<and> capacity (queue s) \<le> N \<and> counter (queue s) < 2 ^ 64 \<and>
     ring_ok N (counter (queue s)) (queue_len N (queue s)) (history s) (inflight s) (slot_at (queue s)) \<and>
     mset (map frame (history s)) =
       queue_buffers (queue s) + inflight_buffers (inflight s) + released s + returned s"

lemma txq_invD:
  assumes "txq_inv N s"
  shows "length (queue_items (queue s)) = N" "capacity (queue s) \<le> N" "counter (queue s) < 2 ^ 64"
    "ring_ok N (counter (queue s)) (queue_len N (queue s)) (history s) (inflight s) (slot_at (queue s))"
    "mset (map frame (history s)) =
       queue_buffers (queue s) + inflight_buffers (inflight s) + released s + returned s"
  using assms unfolding txq_inv_def by blast+

lemma txq_inv_init [foa_inv]:
  assumes "0 < N"
  shows "txq_inv N (txq_init N)"
proof -
  have "ring_ok N 0 0 [] None (slot_at (TxQueueState_new N))"
    using ring_init [OF assms]
    by (subst ring_cong [of N _ "\<lambda>_. Empty"]) (simp_all add: slot_at_def TxQueueState_new_def)
  moreover have "concat (replicate N []) = ([] :: 'z list)" by (induction N) auto
  ultimately show ?thesis
    by (simp add: txq_inv_def txq_init_def queue_len_def queue_buffers_def inflight_buffers_def
        TxQueueState_new_def)
qed

section \<open>Every step keeps the invariant\<close>

lemma slot_at_set_slot: "i < length (queue_items s) \<Longrightarrow> slot_at (set_slot i v b s) = (slot_at s)(i := v)"
  by auto

lemma slot_at_capacity [simp]: "slot_at (s\<lparr>capacity := n\<rparr>) = slot_at s" "slot_at (s\<lparr>counter := m\<rparr>) = slot_at s"
  "slot_at (s\<lparr>counter := m, capacity := n\<rparr>) = slot_at s"
  by auto

lemma queue_len_set_slot [simp]: "queue_len N (set_slot i v b s) = queue_len N s"
  by (simp add: queue_len_def)

lemma enqueue_frame_Inr:
  assumes "enqueue_frame N f s = Inr (c, q, eff)"
  shows "0 < capacity s" "counter s + 1 < 2 ^ 64" "c = counter s"
    "q = set_slot (counter s mod N) (SlotPending f) True (s\<lparr>counter := counter s + 1, capacity := capacity s - 1\<rparr>)"
    "effect_buffers eff = mset (slot_buffers (slot_at s (counter s mod N)))"
  using assms
  by (auto simp: enqueue_frame_def increase_queue_counter_def next_slot_index_def Let_def split: if_splits)

lemma txq_enqueue_inv [foa_inv]:
  assumes "txq_inv N s" "enqueue_frame N f (queue s) = Inr (c, q, eff)"
  shows "txq_inv N (s\<lparr>queue := q, history := history s @ [f], released := released s + effect_buffers eff\<rparr>)"
proof -
  note I = txq_invD [OF assms(1)] and E = enqueue_frame_Inr [OF assms(2)]
  let ?i = "counter (queue s) mod N"
  have i: "?i < length (queue_items (queue s))" using I(1) ring_pos(1) [OF I(4)] by simp
  have len: "queue_len N q = queue_len N (queue s) + 1" "queue_len N (queue s) < N"
    using E(1,4) I(2) by (auto simp: queue_len_def)
  have ring: "ring_ok N (counter q) (queue_len N q) (history s @ [f]) (inflight s) (slot_at q)"
    using ring_enqueue [OF I(4) len(2), of f] len(1) E(4) i by (simp add: slot_at_set_slot)
  have "queue_buffers q + mset (slot_buffers (slot_at (queue s) ?i)) = queue_buffers (queue s) + {#frame f#}"
    using queue_buffers_set_slot [of ?i "(queue s)\<lparr>counter := counter (queue s) + 1, capacity := capacity (queue s) - 1\<rparr>" "SlotPending f" True]
      E(4) i by simp
  then show ?thesis
    using ring I(1,2,5) E by (simp add: txq_inv_def ac_simps)
qed

lemma front_slot:
  assumes "txq_inv N s"
  shows "front_index N (queue s) = (counter (queue s) - queue_len N (queue s)) mod N"
    and "front_index N (queue s) < N"
  using ring_pos [OF txq_invD(4) [OF assms]] front_index_mod [of N "queue s"] by auto

lemma try_receive_idle:
  assumes "txq_inv N s" "inflight s = None" "\<not> queue_is_empty N (queue s)"
  shows "try_receive N (queue s) =
     (let i = front_index N (queue s); f = history s ! (counter (queue s) - queue_len N (queue s))
      in Inr (Some (i, f, set_slot i InProgress (return_data_expected (queue s) i) (queue s))))"
proof -
  note I = txq_invD [OF assms(1)]
  have "0 < queue_len N (queue s)" "queue_len N (queue s) \<le> counter (queue s)"
    using assms(3) I(2) ring_pos(2) [OF I(4)] by (auto simp: queue_is_empty_def queue_len_def)
  then have "slot_at (queue s) (front_index N (queue s)) =
      SlotPending (history s ! (counter (queue s) - queue_len N (queue s)))"
    using ring_live [OF I(4)] assms(2) front_slot(1) [OF assms(1)] by simp
  then show ?thesis using assms(3) by (simp add: try_receive_def Let_def)
qed

lemma txq_receive_inv [foa_inv]:
  assumes "txq_inv N s" "inflight s = None" "try_receive N (queue s) = Inr (Some (i, f, q))"
  shows "txq_inv N (s\<lparr>queue := q, inflight := Some (i, f)\<rparr>)"
proof -
  note I = txq_invD [OF assms(1)] and F = front_slot [OF assms(1)]
  have ne: "\<not> queue_is_empty N (queue s)" using assms(3) by (auto simp: try_receive_def)
  then have len: "0 < queue_len N (queue s)" using I(2) by (auto simp: queue_is_empty_def queue_len_def)
  have R: "i = front_index N (queue s)" "f = history s ! (counter (queue s) - queue_len N (queue s))"
    "q = set_slot i InProgress (return_data_expected (queue s) i) (queue s)"
    using assms(3) try_receive_idle [OF assms(1,2) ne] by (auto simp: Let_def)
  have slot: "slot_at (queue s) i = SlotPending f"
    using ring_live [OF I(4), of "counter (queue s) - queue_len N (queue s)"] len
      ring_pos(2) [OF I(4)] assms(2) R F(1) by auto
  have ring: "ring_ok N (counter q) (queue_len N q) (history s) (Some (i, f)) (slot_at q)"
    using ring_receive [OF I(4) [unfolded assms(2)] len] R F I(1) by (simp add: slot_at_set_slot)
  have "queue_buffers q + {#frame f#} = queue_buffers (queue s)"
    using queue_buffers_set_slot [of i "queue s" InProgress] R F(2) I(1) slot by simp
  then show ?thesis
    using ring I R(3) assms(2) by (simp add: txq_inv_def inflight_buffers_def)
qed

lemma finish_result:
  assumes "finish i v s = (q, eff)" "i < length (queue_items s)"
  shows "counter q = counter s" "capacity q = capacity s + 1" "length (queue_items q) = length (queue_items s)"
    "slot_at q = (slot_at s)(i := if return_data_expected s i then v else Empty)"
    "queue_buffers q + effect_buffers eff = queue_buffers s + mset (slot_buffers v)"
proof -
  let ?v = "if return_data_expected s i then v else Empty"
  have q: "q = set_slot i ?v (return_data_expected s i) (s\<lparr>capacity := capacity s + 1\<rparr>)"
    and e: "effect_buffers eff =
      mset (slot_buffers (slot_at s i)) + (if return_data_expected s i then {#} else mset (slot_buffers v))"
    using assms(1) by (auto simp: finish_def Let_def split: if_splits)
  show "counter q = counter s" "capacity q = capacity s + 1" "length (queue_items q) = length (queue_items s)"
    "slot_at q = (slot_at s)(i := ?v)"
    using assms(2) by (simp_all add: q slot_at_set_slot)
  show "queue_buffers q + effect_buffers eff = queue_buffers s + mset (slot_buffers v)"
    using queue_buffers_set_slot [of i "s\<lparr>capacity := capacity s + 1\<rparr>" ?v "return_data_expected s i"] assms(2)
    by (simp add: q e split: if_splits)
qed

lemma txq_finish_inv:
  assumes "txq_inv N s" "inflight s = Some (i, f)" "finish i v (queue s) = (q, eff)" "finished_slot f v"
    and "mset (slot_buffers v) + b = {#frame f#}"
  shows "txq_inv N (s\<lparr>queue := q, inflight := None, released := released s + (effect_buffers eff + b)\<rparr>)"
proof -
  note I = txq_invD [OF assms(1)]
  have l: "0 < queue_len N (queue s)" "i < N"
    using ring_inflight [OF I(4) assms(2)] ring_pos(1) [OF I(4)] by auto
  note F = finish_result [OF assms(3), unfolded I(1), OF l(2)]
  have fin: "finished_slot f (if return_data_expected (queue s) i then v else Empty)"
    using assms(4) by (simp add: finished_slot_def)
  have len: "queue_len N q = queue_len N (queue s) - 1" using F(2) by (simp add: queue_len_def)
  have ring: "ring_ok N (counter q) (queue_len N q) (history s) None (slot_at q)"
    using ring_finish [OF I(4) [unfolded assms(2)] fin] F len by simp
  have "queue_buffers q + (effect_buffers eff + b) = queue_buffers (queue s) + {#frame f#}"
    using F(5) assms(5) by (metis add.assoc)
  then show ?thesis
    using ring I F l(1) assms(2) by (simp add: txq_inv_def inflight_buffers_def queue_len_def ac_simps)
qed

lemma txq_complete_inv [foa_inv]:
  assumes "txq_inv N s" "inflight s = Some (i, f)" "transmit i f res (queue s) = (q, eff)"
  shows "txq_inv N (s\<lparr>queue := q, inflight := None, released := released s + effect_buffers eff\<rparr>)"
  using txq_finish_inv [OF assms(1,2) assms(3) [unfolded transmit_def], of "{#}"]
  by (simp add: finished_slot_def)

lemma txq_abort_inv [foa_inv]:
  assumes "txq_inv N s" "inflight s = Some (i, f)" "InProgressTransmission_drop i f (queue s) = (q, eff)"
  shows "txq_inv N (s\<lparr>queue := q, inflight := None, released := released s + effect_buffers eff\<rparr>)"
proof -
  obtain e where e: "finish i Empty (queue s) = (q, e)" "eff = e @ [ReleaseBuffer (frame f)]"
    using assms(3) by (auto simp: InProgressTransmission_drop_def split: prod.splits)
  then show ?thesis
    using txq_finish_inv [OF assms(1,2) e(1), of "{#frame f#}"] by (simp add: finished_slot_def)
qed

text \<open>Taking the return data out of a slot, which both the poll and the drop of a handle do.\<close>

lemma txq_take_inv:
  assumes "txq_inv N s" "i < N" "slot_at (queue s) i = ReturnDataAvailable d"
  shows "ring_ok N (counter (queue s)) (queue_len N (queue s)) (history s) (inflight s)
      (slot_at (set_slot i Empty b (queue s)))"
    and "queue_buffers (set_slot i Empty b (queue s)) + {#return_frame d#} = queue_buffers (queue s)"
  using ring_clear [OF txq_invD(4) [OF assms(1)] assms(3)] txq_invD(1) [OF assms(1)]
    queue_buffers_set_slot [of i "queue s" Empty b] assms(2,3)
  by (simp_all add: slot_at_set_slot)

lemma txq_poll_inv [foa_inv]:
  assumes "txq_inv N s" "wait_for_completion N c (queue s) = (r, q, eff)"
  shows "txq_inv N (s\<lparr>queue := q, returned := returned s + poll_buffers r\<rparr>)"
proof -
  note I = txq_invD [OF assms(1)]
  have i: "slot_index N c < N" using ring_pos(1) [OF I(4)] by (simp add: slot_index_def)
  show ?thesis
    using assms I txq_take_inv [OF assms(1) i]
    by (auto simp: wait_for_completion_def poll_buffers_def txq_inv_def Let_def ac_simps
        split: if_splits tx_queue_slot.splits)
qed

lemma txq_drop_inv [foa_inv]:
  assumes "txq_inv N s" "PendingTransmission_drop N c (queue s) = (q, eff)"
  shows "txq_inv N (s\<lparr>queue := q, released := released s + effect_buffers eff\<rparr>)"
proof -
  note I = txq_invD [OF assms(1)]
  let ?i = "slot_index N c"
  have i: "?i < N" using ring_pos(1) [OF I(4)] by (simp add: slot_index_def)
  have same: "slot_at (set_slot ?i (slot_at (queue s) ?i) False (queue s)) = slot_at (queue s)"
    "queue_buffers (set_slot ?i (slot_at (queue s) ?i) False (queue s)) = queue_buffers (queue s)"
    using i I(1) queue_buffers_set_slot [of ?i "queue s" "slot_at (queue s) ?i" False]
    by (simp_all add: slot_at_set_slot)
  show ?thesis
  proof (cases "\<exists>d. slot_at (queue s) ?i = ReturnDataAvailable d")
    case True
    then show ?thesis using assms I txq_take_inv [OF assms(1) i]
      by (auto simp: PendingTransmission_drop_def txq_inv_def Let_def ac_simps split: if_splits)
  next
    case False
    then have "q = queue s \<and> eff = [] \<or> q = set_slot ?i (slot_at (queue s) ?i) False (queue s) \<and> eff = []"
      using assms(2)
      by (auto simp: PendingTransmission_drop_def Let_def split: if_splits tx_queue_slot.splits)
    then show ?thesis using assms(1) I same by (auto simp: txq_inv_def)
  qed
qed

lemma txq_step_inv: "txq_step N s t \<Longrightarrow> txq_inv N s \<Longrightarrow> txq_inv N t"
  by (induction rule: txq_step.induct) (simp_all add: foa_inv)

lemma txq_reach_inv: "txq_reach N s \<Longrightarrow> 0 < N \<Longrightarrow> txq_inv N s"
  by (induction rule: txq_reach.induct) (auto intro: txq_inv_init txq_step_inv)

section \<open>The queue as a bounded FIFO\<close>

text \<open>The abstraction: the frames that wait, oldest first.\<close>

definition queue_frames :: "nat \<Rightarrow> ('b, 'r, 'e) tx_queue_state \<Rightarrow> ('b, 'r) pending_frame list" where
  "queue_frames N s =
     concat (map (\<lambda>g. case slot_at s (g mod N) of SlotPending f \<Rightarrow> [f] | _ \<Rightarrow> [])
       [counter s - queue_len N s..<counter s])"

text \<open>Enqueueing without the panic, and one round of the runner's loop.\<close>

definition enqueue_opt ::
  "nat \<Rightarrow> ('b, 'r) pending_frame \<Rightarrow> ('b, 'r, 'e) tx_queue_state \<Rightarrow> ('b, 'r, 'e) tx_queue_state option" where
  "enqueue_opt N f s = (case enqueue_frame N f s of Inl p \<Rightarrow> None | Inr (c, q, eff) \<Rightarrow> Some q)"

definition run_round ::
  "nat \<Rightarrow> (('b, 'r) pending_frame \<Rightarrow> 'e + u8) \<Rightarrow> ('b, 'r, 'e) tx_queue_state \<Rightarrow>
     (('b, 'r) pending_frame \<times> ('b, 'r, 'e) tx_queue_state) option" where
  "run_round N radio s =
     (case try_receive N s of
        Inr (Some (i, f, s1)) \<Rightarrow> Some (f, fst (transmit i f (radio f) s1))
      | _ \<Rightarrow> None)"

definition queue_room :: "('b, 'r, 'e) tx_queue_state \<Rightarrow> nat" where
  "queue_room s = min (capacity s) (2 ^ 64 - 1 - counter s)"

definition idle_inv :: "nat \<Rightarrow> ('b, 'r, 'e) tx_queue_state \<Rightarrow> bool" where
  "idle_inv N q \<longleftrightarrow> (\<exists>s. txq_inv N s \<and> inflight s = None \<and> queue s = q)"

lemma queue_frames_history:
  assumes "txq_inv N s" "inflight s = None"
  shows "queue_frames N (queue s) = drop (counter (queue s) - queue_len N (queue s)) (history s)"
proof -
  note I = txq_invD [OF assms(1)]
  let ?c = "counter (queue s)" and ?l = "queue_len N (queue s)"
  have "map (\<lambda>g. case slot_at (queue s) (g mod N) of SlotPending f \<Rightarrow> [f] | _ \<Rightarrow> []) [?c - ?l..<?c] =
      map (\<lambda>g. [history s ! g]) [?c - ?l..<?c]"
    using ring_live [OF I(4)] assms(2) by (intro map_cong) auto
  then have "queue_frames N (queue s) = map (\<lambda>g. history s ! g) [?c - ?l..<?c]"
    by (simp only: queue_frames_def concat_map_singleton)
  also have "\<dots> = drop (?c - ?l) (history s)"
    using ring_pos(4) [OF I(4)] by (intro nth_equalityI) auto
  finally show ?thesis .
qed

lemma enqueue_frame_ok:
  assumes "0 < capacity s" "counter s + 1 < 2 ^ 64"
  obtains q eff where "enqueue_frame N f s = Inr (counter s, q, eff)"
  using assms by (simp add: enqueue_frame_def increase_queue_counter_def Let_def)

lemma enqueue_opt_fifo:
  assumes "idle_inv N q" "0 < queue_room q"
  shows "\<exists>q'. enqueue_opt N f q = Some q' \<and> idle_inv N q' \<and>
     queue_frames N q' = queue_frames N q @ [f] \<and> queue_room q' = queue_room q - 1"
proof -
  obtain s where s: "txq_inv N s" "inflight s = None" "queue s = q" using assms(1) by (auto simp: idle_inv_def)
  have "0 < capacity q" "counter q + 1 < 2 ^ 64" using assms(2) by (auto simp: queue_room_def)
  then obtain q' eff where e: "enqueue_frame N f q = Inr (counter q, q', eff)" by (rule enqueue_frame_ok)
  note E = enqueue_frame_Inr [OF e]
  let ?t = "s\<lparr>queue := q', history := history s @ [f], released := released s + effect_buffers eff\<rparr>"
  have t: "txq_inv N ?t" using txq_enqueue_inv [OF s(1)] s(3) e by simp
  have "counter q' - queue_len N q' = counter q - queue_len N q" "counter q - queue_len N q \<le> length (history s)"
    using E(1,4) txq_invD [OF s(1)] s(3) by (auto simp: queue_len_def dest: ring_pos)
  then have "queue_frames N q' = queue_frames N q @ [f]"
    using queue_frames_history [OF t] queue_frames_history [OF s(1)] s by simp
  moreover have "queue_room q' = queue_room q - 1" using E(1,2,4) by (auto simp: queue_room_def)
  moreover have "idle_inv N q'" using t s(2) unfolding idle_inv_def by (intro exI [of _ ?t]) simp
  ultimately show ?thesis by (simp add: enqueue_opt_def e)
qed

text \<open>One round serves the oldest frame and removes it.\<close>

lemma serve_front:
  assumes "idle_inv N q" "queue_frames N q = f # fs"
  shows "\<exists>i q1. try_receive N q = Inr (Some (i, f, q1)) \<and> idle_inv N (fst (transmit i f res q1)) \<and>
     queue_frames N (fst (transmit i f res q1)) = fs"
proof -
  obtain s where s: "txq_inv N s" "inflight s = None" "queue s = q" using assms(1) by (auto simp: idle_inv_def)
  note I = txq_invD [OF s(1)]
  let ?k = "counter q - queue_len N q"
  have d: "drop ?k (history s) = f # fs" using queue_frames_history [OF s(1,2)] s(3) assms(2) by simp
  then have f: "history s ! ?k = f" "drop (Suc ?k) (history s) = fs"
    by (metis nth_via_drop) (metis d drop_Suc list.sel(3) tl_drop)
  have ne: "\<not> queue_is_empty N q"
    using d ring_pos(4) [OF I(4)] s(3) by (auto simp: queue_is_empty_def queue_len_def)
  then obtain i q1 where r: "try_receive N q = Inr (Some (i, f, q1))"
    using try_receive_idle [OF s(1,2)] s(3) f(1) by (simp add: Let_def)
  let ?t = "s\<lparr>queue := q1, inflight := Some (i, f)\<rparr>"
  have t: "txq_inv N ?t" using txq_receive_inv [OF s(1,2)] r s(3) by simp
  obtain q2 eff where x: "transmit i f res q1 = (q2, eff)" by fastforce
  let ?u = "?t\<lparr>queue := q2, inflight := None, released := released s + effect_buffers eff\<rparr>"
  have u: "txq_inv N ?u" using txq_complete_inv [OF t] x by simp
  have len: "queue_len N q1 = queue_len N q" "counter q1 = counter q" "i < length (queue_items q1)"
    using try_receive_idle [OF s(1,2)] ne s(3) r front_slot(2) [OF s(1)] I(1) by (auto simp: Let_def)
  have fin: "counter q2 = counter q1" "capacity q2 = capacity q1 + 1"
    using finish_result(1,2) [OF x [unfolded transmit_def] len(3)] by simp_all
  have "0 < queue_len N q" "queue_len N q \<le> counter q"
    using ne I(2) ring_pos(2) [OF I(4)] s(3) by (auto simp: queue_is_empty_def queue_len_def)
  then have "counter q2 - queue_len N q2 = Suc ?k" using len fin by (simp add: queue_len_def)
  then have "queue_frames N q2 = fs" using queue_frames_history [OF u] f(2) by simp
  moreover have "idle_inv N q2" using u unfolding idle_inv_def by (intro exI [of _ ?u]) simp
  ultimately show ?thesis using r x by auto
qed

lemma no_frames_empty:
  assumes "idle_inv N q" "queue_frames N q = []"
  shows "queue_is_empty N q" "try_receive N q = Inr None"
proof -
  obtain s where s: "txq_inv N s" "inflight s = None" "queue s = q" using assms(1) by (auto simp: idle_inv_def)
  note I = txq_invD [OF s(1)]
  show "queue_is_empty N q"
    using queue_frames_history [OF s(1,2)] assms(2) s(3) I(2) ring_pos [OF I(4)]
    by (simp add: queue_is_empty_def queue_len_def)
  then show "try_receive N q = Inr None" by (simp add: try_receive_def)
qed

text \<open>Every queued frame owns a buffer, so the queue is never longer than the number of
  buffers it and the radio hold.\<close>

lemma queue_buffers_size:
  "size (queue_buffers q) = (\<Sum>i<length (queue_items q). length (slot_buffers (slot_at q i)))"
proof -
  have "size (queue_buffers q) = sum_list (map (\<lambda>p. length (slot_buffers (fst p))) (queue_items q))"
    by (simp add: queue_buffers_def length_concat comp_def)
  also have "\<dots> = (\<Sum>i<length (queue_items q). length (slot_buffers (slot_at q i)))"
    by (simp add: sum_list_sum_nth slot_at_def atLeast0LessThan)
  finally show ?thesis .
qed

lemma queue_len_le_buffers:
  assumes "txq_inv N s"
  shows "queue_len N (queue s) \<le> size (queue_buffers (queue s) + inflight_buffers (inflight s))"
proof -
  note I = txq_invD [OF assms] and R = ring_okD [OF txq_invD(4) [OF assms]]
  let ?c = "counter (queue s)" and ?l = "queue_len N (queue s)"
  define k where "k = (if inflight s = None then ?c - ?l else Suc (?c - ?l))"
  let ?A = "(\<lambda>g. g mod N) ` {k..<?c}"
  have k: "?c - ?l \<le> k" by (simp add: k_def)
  have one: "length (slot_buffers (slot_at (queue s) i)) = 1" if "i \<in> ?A" for i
    using that R(5) k by (auto simp: k_def split: if_splits)
  have "inj_on (\<lambda>g. g mod N) {k..<?c}"
  proof (rule inj_onI)
    fix g h assume gh: "g \<in> {k..<?c}" "h \<in> {k..<?c}" "g mod N = h mod N"
    then have "h < g + N" "g < h + N" using k R(2,3) by auto
    then show "g = h" using gh(3) window_neq [of g h N] window_neq [of h g N]
      by (cases g h rule: linorder_cases) auto
  qed
  then have "card ?A = ?c - k" by (simp add: card_image)
  then have "?c - k = (\<Sum>i\<in>?A. length (slot_buffers (slot_at (queue s) i)))" using one by simp
  also have "\<dots> \<le> (\<Sum>i<N. length (slot_buffers (slot_at (queue s) i)))"
    using R(1) by (intro sum_mono2) auto
  finally have "?c - k \<le> size (queue_buffers (queue s))" using queue_buffers_size I(1) by metis
  moreover have "?l \<le> ?c - k + size (inflight_buffers (inflight s))"
    using R(2) R(6) by (auto simp: k_def inflight_buffers_def split: option.splits)
  ultimately show ?thesis by simp
qed

interpretation txq: bounded_fifo "enqueue_opt N" "run_round N radio" "queue_frames N" queue_room "idle_inv N"
  for N and radio
proof (unfold_locales, goal_cases)
  case (1 q x)
  then show ?case by (rule enqueue_opt_fifo)
next
  case (2 q x xs)
  then show ?case using serve_front [OF 2] by (fastforce simp: run_round_def)
next
  case (3 q)
  then show ?case by (simp add: run_round_def no_frames_empty)
qed

section \<open>Properties\<close>

text \<open>A queue of two frames, for the witnesses.\<close>

definition sample_frame :: "nat \<Rightarrow> (nat, unit) pending_frame" where
  "sample_frame b = \<lparr>frame = b, frame_length = 3, plcp_parameters = \<lparr>rate = ()\<rparr>,
      mac_parameters = \<lparr>key_slot_index = None, wait_for_ack = True, override_seq_num = True\<rparr>,
      interface = 0, retry_behaviour = Drop\<rparr>"

definition sample_queue :: "(nat, unit, unit) tx_queue_state" where
  "sample_queue = \<lparr>queue_items = [(SlotPending (sample_frame 5), True), (SlotPending (sample_frame 6), True)],
      counter = 2, capacity = 0\<rparr>"

lemma reach_sample:
  "txq_reach 2 (txq_init 2\<lparr>queue := sample_queue, history := [sample_frame 5, sample_frame 6]\<rparr>)"
proof -
  let ?q1 = "\<lparr>queue_items = [(SlotPending (sample_frame 5), True), (Empty, True)], counter = 1, capacity = 1\<rparr>
      :: (nat, unit, unit) tx_queue_state"
  have two: "replicate 2 x = [x, x]" for x :: "(nat, unit, unit) tx_queue_slot \<times> bool"
    by (simp add: numeral_2_eq_2)
  have e1: "enqueue_frame 2 (sample_frame 5) (queue (txq_init 2)) = Inr (0, ?q1, [WakeQueue])"
    and e2: "enqueue_frame 2 (sample_frame 6) ?q1 = Inr (1, sample_queue, [])"
    by (simp_all add: txq_init_def TxQueueState_new_def enqueue_frame_def increase_queue_counter_def
        queue_is_empty_def next_slot_index_def slot_at_def set_slot_def sample_queue_def Let_def
        two)
  let ?s1 = "txq_init 2\<lparr>queue := ?q1, history := [sample_frame 5]\<rparr>"
  have "txq_reach 2 ?s1"
    using reach_step [OF reach_init step_enqueue [OF e1]] by (simp add: txq_init_def)
  moreover have "enqueue_frame 2 (sample_frame 6) (queue ?s1) = Inr (1, sample_queue, [])" using e2 by simp
  ultimately show ?thesis using reach_step [OF _ step_enqueue] by (fastforce simp: txq_init_def)
qed

lemma reach_enqueue1:
  "txq_reach 1 (txq_init 1\<lparr>queue := \<lparr>queue_items = [(SlotPending f, True)], counter = 1, capacity = 0\<rparr>,
      history := [f]\<rparr>)"
proof -
  have "enqueue_frame 1 f (queue (txq_init 1)) =
      Inr (0, \<lparr>queue_items = [(SlotPending f, True)], counter = 1, capacity = 0\<rparr>, [WakeQueue])"
    by (simp add: txq_init_def TxQueueState_new_def enqueue_frame_def increase_queue_counter_def
        queue_is_empty_def next_slot_index_def slot_at_def set_slot_def Let_def)
  from reach_step [OF reach_init step_enqueue [OF this]] show ?thesis
    by (simp add: txq_init_def)
qed

text \<open>
  C9: in every reachable state of the queue the assertions of the runner hold: an idle
  runner never finds an empty, completed or in-progress front slot, and gets the oldest
  waiting frame exactly when there is one. Enqueueing panics only on a full queue or an
  exhausted generation counter.
\<close>

theorem tx_queue_no_panic:
  assumes "0 < N" "txq_reach N s" "inflight s = None"
  shows "(case queue_frames N (queue s) of
            [] \<Rightarrow> try_receive N (queue s) = Inr None
          | f # fs \<Rightarrow> (\<exists>q. try_receive N (queue s) = Inr (Some (front_index N (queue s), f, q)))) \<and>
     ((\<exists>p. enqueue_frame N x (queue s) = Inl p) \<longleftrightarrow>
        capacity (queue s) = 0 \<or> counter (queue s) = 2 ^ 64 - 1)"
proof
  have inv: "txq_inv N s" by (rule txq_reach_inv [OF assms(2,1)])
  then have idle: "idle_inv N (queue s)" using assms(3) by (auto simp: idle_inv_def)
  show "case queue_frames N (queue s) of
            [] \<Rightarrow> try_receive N (queue s) = Inr None
          | f # fs \<Rightarrow> (\<exists>q. try_receive N (queue s) = Inr (Some (front_index N (queue s), f, q)))"
  proof (cases "queue_frames N (queue s)")
    case Nil
    then show ?thesis using no_frames_empty(2) [OF idle] by simp
  next
    case (Cons f fs)
    from serve_front [OF idle Cons] obtain i q where r: "try_receive N (queue s) = Inr (Some (i, f, q))" by blast
    then have "\<not> queue_is_empty N (queue s)" by (auto simp: try_receive_def)
    then show ?thesis using r Cons try_receive_idle [OF inv assms(3)] by (auto simp: Let_def)
  qed
  have "counter (queue s) < 2 ^ 64" by (rule txq_invD(3) [OF inv])
  then show "(\<exists>p. enqueue_frame N x (queue s) = Inl p) \<longleftrightarrow>
        capacity (queue s) = 0 \<or> counter (queue s) = 2 ^ 64 - 1"
    by (auto simp: enqueue_frame_def increase_queue_counter_def Let_def)
qed

theorem tx_queue_no_panic_witness:
  "try_receive 1 (queue (txq_init 1 :: (nat, unit, unit) txq_sys)) = Inr None"
proof -
  have "txq_reach 1 (txq_init 1 :: (nat, unit, unit) txq_sys)" by (rule reach_init)
  from tx_queue_no_panic [OF _ this, of "sample_frame 0"] show ?thesis
    by (simp add: txq_init_def TxQueueState_new_def queue_frames_def queue_len_def)
qed

text \<open>
  C15: a handle only ever resolves to its own frame. Polling generation \<open>c\<close> registers its waker
  while the frame waits or is being sent, returns the buffer and length that were enqueued
  under \<open>c\<close> when the data is there, and otherwise reports that the data is gone, which only
  happens after the transmission is over.
\<close>

theorem tx_handle_own_frame:
  assumes "0 < N" "txq_reach N s" "c < counter (queue s)"
    and "wait_for_completion N c (queue s) = (r, q, eff)"
  shows "case r of
           Pending \<Rightarrow> counter (queue s) - queue_len N (queue s) \<le> c \<and> eff = [RegisterSlot (c mod N)]
         | Ready None \<Rightarrow> c < counter (queue s) - queue_len N (queue s)
         | Ready (Some d) \<Rightarrow> c < counter (queue s) - queue_len N (queue s) \<and>
             return_frame d = frame (history s ! c) \<and> return_frame_length d = frame_length (history s ! c)"
proof -
  have inv: "txq_inv N s" by (rule txq_reach_inv [OF assms(2,1)])
  note I = txq_invD [OF inv]
  let ?k = "counter (queue s) - queue_len N (queue s)"
  show ?thesis
  proof (cases "?k \<le> c")
    case True
    then have "\<not> is_counter_out_of_bounds N c (queue s)"
      using assms(3) ring_pos(2,3) [OF I(4)] by (auto simp: is_counter_out_of_bounds_def)
    then show ?thesis using ring_live [OF I(4) True assms(3)] assms(4) True
      by (auto simp: wait_for_completion_def slot_index_def Let_def split: if_splits)
  next
    case False
    then have "\<not> is_counter_out_of_bounds N c (queue s) \<Longrightarrow>
        finished_slot (history s ! c) (slot_at (queue s) (c mod N))"
      using ring_done [OF I(4), of c] by (auto simp: is_counter_out_of_bounds_def)
    then show ?thesis using False assms(4)
      by (auto simp: wait_for_completion_def slot_index_def Let_def finished_slot_def
          split: if_splits tx_queue_slot.splits)
  qed
qed

theorem tx_handle_own_frame_witness:
  "\<exists>s :: (nat, unit, unit) txq_sys. txq_reach 1 s \<and> fst (wait_for_completion 1 0 (queue s)) = Pending \<and>
     counter (queue s) - queue_len 1 (queue s) \<le> 0"
proof -
  let ?f = "\<lparr>frame = 5 :: nat, frame_length = 3, plcp_parameters = \<lparr>rate = ()\<rparr>,
      mac_parameters = \<lparr>key_slot_index = None, wait_for_ack = True, override_seq_num = True\<rparr>,
      interface = 0, retry_behaviour = Drop\<rparr>"
  let ?s = "txq_init 1\<lparr>queue := \<lparr>queue_items = [(SlotPending ?f, True)], counter = 1, capacity = 0\<rparr>,
      history := [?f]\<rparr> :: (nat, unit, unit) txq_sys"
  have w: "wait_for_completion 1 0 (queue ?s) = (Pending, queue ?s, [RegisterSlot 0])"
    by (simp add: wait_for_completion_def is_counter_out_of_bounds_def slot_index_def slot_at_def Let_def)
  from tx_handle_own_frame [OF _ reach_enqueue1 _ w]
  have "counter (queue ?s) - queue_len 1 (queue ?s) \<le> 0" by simp
  then show ?thesis using reach_enqueue1 [of ?f] w by (intro exI [of _ ?s]) (simp del: One_nat_def)
qed

text \<open>
  Dropping a handle, however late, leaves every other generation alone: no other frame
  that still owns its slot changes state or loses its return data.
\<close>

theorem tx_handle_drop_local:
  assumes "0 < N" "txq_reach N s" "c < counter (queue s)" "g < counter (queue s)" "g \<noteq> c"
    and "counter (queue s) \<le> g + N" "PendingTransmission_drop N c (queue s) = (q, eff)"
  shows "slot_at q (g mod N) = slot_at (queue s) (g mod N) \<and>
     return_data_expected q (g mod N) = return_data_expected (queue s) (g mod N) \<and>
     counter q = counter (queue s) \<and> capacity q = capacity (queue s)"
proof (cases "is_counter_out_of_bounds N c (queue s)")
  case True
  then show ?thesis using assms(7) by (simp add: PendingTransmission_drop_def)
next
  case False
  then have "counter (queue s) \<le> c + N" by (auto simp: is_counter_out_of_bounds_def)
  then have "g mod N \<noteq> c mod N"
    using assms(3-6) window_neq [of g c N] window_neq [of c g N] by (cases "g < c") auto
  moreover have "c mod N < length (queue_items (queue s))"
    using txq_invD(1) [OF txq_reach_inv [OF assms(2,1)]] assms(1) by simp
  ultimately show ?thesis using assms(7) False
    by (auto simp: PendingTransmission_drop_def slot_index_def Let_def split: tx_queue_slot.splits)
qed

theorem tx_handle_drop_local_witness:
  "slot_at (fst (PendingTransmission_drop 2 0 sample_queue)) 1 = SlotPending (sample_frame 6)"
proof -
  have d: "PendingTransmission_drop 2 0 (queue (txq_init 2\<lparr>queue := sample_queue,
      history := [sample_frame 5, sample_frame 6]\<rparr>)) = (set_slot 0 (SlotPending (sample_frame 5)) False sample_queue, [])"
    by (simp add: PendingTransmission_drop_def is_counter_out_of_bounds_def slot_index_def slot_at_def
        sample_queue_def Let_def)
  from tx_handle_drop_local [OF _ reach_sample _ _ _ _ d, of 1] show ?thesis
    using d by (simp add: sample_queue_def slot_at_def)
qed

text \<open>
  C18: no buffer is lost or duplicated by the queue: in every reachable state each buffer that
  was ever enqueued is waiting or completed in a slot, with the radio, given back to the pool
  or handed to a caller, with the multiplicity it was enqueued with.
\<close>

theorem tx_queue_buffer_conservation:
  assumes "0 < N" "txq_reach N s"
  shows "mset (map frame (history s)) =
     queue_buffers (queue s) + inflight_buffers (inflight s) + released s + returned s"
  by (rule txq_invD(5) [OF txq_reach_inv [OF assms(2,1)]])

theorem tx_queue_buffer_conservation_witness:
  "mset (map frame [sample_frame 5, sample_frame 6]) = queue_buffers sample_queue"
  using tx_queue_buffer_conservation [OF _ reach_sample]
  by (simp add: txq_init_def inflight_buffers_def)

text \<open>
  A caller that drops its handle never strands the buffer. If the handle of a waiting or
  running transmission is dropped, then the end of that transmission, completed or aborted,
  frees the slot and gives exactly this frame's buffer back to the pool.
\<close>

theorem tx_abandoned_buffer_released:
  assumes "0 < N" "txq_reach N s" "inflight s = Some (i, f)"
    and "PendingTransmission_drop N (counter (queue s) - queue_len N (queue s)) (queue s) = (q, eff)"
  shows "slot_at (fst (transmit i f res q)) i = Empty \<and>
     effect_buffers (snd (transmit i f res q)) = {#frame f#} \<and>
     slot_at (fst (InProgressTransmission_drop i f q)) i = Empty \<and>
     effect_buffers (snd (InProgressTransmission_drop i f q)) = {#frame f#}"
proof -
  have inv: "txq_inv N s" by (rule txq_reach_inv [OF assms(2,1)])
  note I = txq_invD [OF inv] and F = ring_inflight [OF txq_invD(4) [OF inv] assms(3)]
  let ?k = "counter (queue s) - queue_len N (queue s)"
  have "\<not> is_counter_out_of_bounds N ?k (queue s)"
    using ring_pos(2,3) [OF I(4)] by (auto simp: is_counter_out_of_bounds_def)
  moreover have slot: "slot_at (queue s) i = InProgress"
    using ring_live [OF I(4), of ?k] F assms(3) ring_pos(2) [OF I(4)] by simp
  ultimately have q: "q = set_slot i InProgress False (queue s)"
    using assms(4) F by (simp add: PendingTransmission_drop_def slot_index_def Let_def)
  have i: "i < length (queue_items (queue s))" using F I(1) assms(1) by simp
  show ?thesis using i
    by (simp add: transmit_def InProgressTransmission_drop_def finish_def q Let_def slot_at_set_slot)
qed

lemma reach_sample_receive:
  "txq_reach 2 (txq_init 2\<lparr>queue := set_slot 0 InProgress True sample_queue,
     inflight := Some (0, sample_frame 5), history := [sample_frame 5, sample_frame 6]\<rparr>)"
proof -
  let ?s = "txq_init 2\<lparr>queue := sample_queue, history := [sample_frame 5, sample_frame 6]\<rparr>"
  have "try_receive 2 (queue ?s) = Inr (Some (0, sample_frame 5, set_slot 0 InProgress True sample_queue))"
    by (simp add: try_receive_def queue_is_empty_def front_index_def queue_len_def next_slot_index_def
        slot_at_def return_data_expected_def sample_queue_def Let_def)
  moreover have "inflight ?s = None" by (simp add: txq_init_def)
  ultimately show ?thesis using reach_step [OF reach_sample step_receive] by (fastforce simp: txq_init_def)
qed

theorem tx_abandoned_buffer_released_witness:
  "effect_buffers (snd (transmit 0 (sample_frame 5) (Inr 0) (set_slot 0 InProgress False sample_queue))) = {#5#}"
proof -
  let ?s = "txq_init 2\<lparr>queue := set_slot 0 InProgress True sample_queue,
     inflight := Some (0, sample_frame 5), history := [sample_frame 5, sample_frame 6]\<rparr>"
  have d: "PendingTransmission_drop 2 (counter (queue ?s) - queue_len 2 (queue ?s)) (queue ?s) =
      (set_slot 0 InProgress False sample_queue, [])"
    by (simp add: PendingTransmission_drop_def is_counter_out_of_bounds_def slot_index_def slot_at_def
        set_slot_def queue_len_def sample_queue_def Let_def)
  from tx_abandoned_buffer_released [OF _ reach_sample_receive _ d] show ?thesis
    by (simp add: sample_frame_def)
qed

text \<open>
  C35: the queue is first in, first out. Frames enqueued on an idle reachable queue, as long as
  there is room, come out of the runner's loop after those that were waiting, in the order
  they were enqueued, whatever the radio answers.
\<close>

theorem tx_queue_fifo:
  assumes "0 < N" "txq_reach N s" "inflight s = None"
    and "length fs \<le> capacity (queue s)" "counter (queue s) + length fs < 2 ^ 64"
  shows "\<exists>q. enq_all (enqueue_opt N) fs (queue s) = Some q \<and>
     deq_n (run_round N radio) (length (queue_frames N (queue s)) + length fs) q = queue_frames N (queue s) @ fs"
proof -
  have "idle_inv N (queue s)" using txq_reach_inv [OF assms(2,1)] assms(3) by (auto simp: idle_inv_def)
  moreover have "length fs \<le> queue_room (queue s)" using assms(4,5) by (simp add: queue_room_def)
  ultimately obtain q where q: "enq_all (enqueue_opt N) fs (queue s) = Some q" "idle_inv N q"
    "queue_frames N q = queue_frames N (queue s) @ fs"
    using txq.enq_all_ok by blast
  then show ?thesis using txq.deq_n_contents [OF q(2), of _ radio] by simp
qed

theorem tx_queue_fifo_witness:
  "\<exists>q. enq_all (enqueue_opt 2) [] sample_queue = Some q \<and>
     deq_n (run_round 2 (\<lambda>_. Inr 0)) (Suc (Suc 0)) q = [sample_frame 5, sample_frame 6]"
proof -
  have "queue_frames 2 sample_queue = [sample_frame 5, sample_frame 6]"
    by (simp add: queue_frames_def queue_len_def sample_queue_def slot_at_def upt_rec)
  then show ?thesis
    using tx_queue_fifo [OF _ reach_sample, of "[]" "\<lambda>_. Inr 0"] by (simp add: txq_init_def sample_queue_def del: deq_n.simps)
qed



end
