(* ===== verification/Rx_Arc_Pool.thy ===== *)
theory Rx_Arc_Pool
  imports Foa_Prelude
begin

text \<open>
  Reference-counted receive buffers, \<open>foa/src/rx_arc_pool.rs\<close>, and the delivery of a received
  frame to the interfaces, \<open>foa/src/bg_task.rs\<close>. A handle is the index of its record in the
  pool; the count starts at zero for one handle and the record is freed by the drop that
  finds zero. The RX queues are the third-party channel, a parameter of the definitions.
\<close>

section \<open>The pool\<close>

record 'b rx_arc_inner =
  buffer :: 'b
  refs :: u32
  index :: nat

type_synonym 'b rx_arc_pool = "'b rx_arc_inner option list"

definition RxArcPool_new :: "nat \<Rightarrow> 'b rx_arc_pool" where
  "RxArcPool_new R = replicate R None"

text \<open>\<open>fetch_add\<close> and \<open>fetch_sub\<close> return the value before the update, and wrap around.\<close>

definition increment_refs :: "'b rx_arc_inner \<Rightarrow> u32 \<times> 'b rx_arc_inner" where
  "increment_refs r = (refs r, r\<lparr>refs := refs r + 1\<rparr>)"

definition decrement_refs :: "'b rx_arc_inner \<Rightarrow> u32 \<times> 'b rx_arc_inner" where
  "decrement_refs r = (refs r, r\<lparr>refs := refs r - 1\<rparr>)"

definition rx_try_alloc :: "'b \<Rightarrow> 'b rx_arc_pool \<Rightarrow> (nat \<times> 'b rx_arc_pool) option" where
  "rx_try_alloc b pool =
     (case find_index (\<lambda>i. pool ! i = None) (length pool) of
        None \<Rightarrow> None
      | Some i \<Rightarrow> Some (i, pool[i := Some \<lparr>buffer = b, refs = 0, index = i\<rparr>]))"

definition inner_ref :: "nat \<Rightarrow> 'b rx_arc_pool \<Rightarrow> 'b rx_arc_inner option" where
  "inner_ref i pool = pool ! i"

definition RxArcBuffer_deref :: "nat \<Rightarrow> 'b rx_arc_pool \<Rightarrow> 'b option" where
  "RxArcBuffer_deref i pool = map_option buffer (inner_ref i pool)"

definition RxArcBuffer_clone :: "nat \<Rightarrow> 'b rx_arc_pool \<Rightarrow> 'b rx_arc_pool" where
  "RxArcBuffer_clone i pool =
     (case inner_ref i pool of
        None \<Rightarrow> pool
      | Some r \<Rightarrow> pool[i := Some (snd (increment_refs r))])"

definition rx_free :: "'b rx_arc_inner \<Rightarrow> 'b rx_arc_pool \<Rightarrow> 'b rx_arc_pool" where
  "rx_free r pool = pool[index r := None]"

definition RxArcBuffer_drop :: "nat \<Rightarrow> 'b rx_arc_pool \<Rightarrow> 'b rx_arc_pool" where
  "RxArcBuffer_drop i pool =
     (case inner_ref i pool of
        None \<Rightarrow> pool
      | Some r \<Rightarrow>
          (let (old, r') = decrement_refs r; pool' = pool[i := Some r']
           in if old = 0 then rx_free r' pool' else pool'))"

section \<open>Delivery to the interfaces\<close>

text \<open>The RX queue of an interface and the flag that its endpoint is alive.\<close>

type_synonym 'q rx_queues = "('q \<times> bool) list"

definition RxEndpoint_new :: "nat \<Rightarrow> 'q rx_queues \<Rightarrow> 'q rx_queues" where
  "RxEndpoint_new i qs = qs[i := (fst (qs ! i), True)]"

definition RxEndpoint_receive :: "('q, 'a) channel_ops \<Rightarrow> nat \<Rightarrow> 'q rx_queues \<Rightarrow> ('a \<times> 'q rx_queues) option" where
  "RxEndpoint_receive ch i qs =
     (case ch_try_receive ch (fst (qs ! i)) of
        None \<Rightarrow> None
      | Some (x, q) \<Rightarrow> Some (x, qs[i := (q, snd (qs ! i))]))"

definition RxEndpoint_drop :: "nat \<Rightarrow> 'q rx_queues \<Rightarrow> 'q rx_queues" where
  "RxEndpoint_drop i qs = qs[i := (fst (qs ! i), False)]"

text \<open>\<open>process_packet\<close> with reference-counted buffers: the loop over the interfaces the
  driver names, a clone for every active one, which is dropped again when its queue is full.\<close>

fun deliver ::
  "('q, nat) channel_ops \<Rightarrow> nat \<Rightarrow> nat list \<Rightarrow> 'b rx_arc_pool \<times> 'q rx_queues \<Rightarrow> 'b rx_arc_pool \<times> 'q rx_queues" where
  "deliver ch h [] (pool, qs) = (pool, qs)"
| "deliver ch h (i # is) (pool, qs) =
     (if \<not> snd (qs ! i) then deliver ch h is (pool, qs)
      else
        (let pool' = RxArcBuffer_clone h pool
         in case ch_try_send ch (fst (qs ! i)) h of
              None \<Rightarrow> deliver ch h is (RxArcBuffer_drop h pool', qs)
            | Some q \<Rightarrow> deliver ch h is (pool', qs[i := (q, snd (qs ! i))])))"

definition process_packet_arc ::
  "('q, nat) channel_ops \<Rightarrow> ('b \<Rightarrow> nat list) \<Rightarrow> 'b \<Rightarrow> 'b rx_arc_pool \<times> 'q rx_queues \<Rightarrow>
     'b rx_arc_pool \<times> 'q rx_queues" where
  "process_packet_arc ch interface_iterator b s =
     (case rx_try_alloc b (fst s) of
        None \<Rightarrow> s
      | Some (h, pool) \<Rightarrow>
          (let (pool', qs) = deliver ch h (interface_iterator b) (pool, snd s)
           in (RxArcBuffer_drop h pool', qs)))"

text \<open>\<open>process_packet\<close> with borrowed buffers delivers only what one interface receives.\<close>

definition process_packet_borrowed ::
  "('q, 'b) channel_ops \<Rightarrow> ('b \<Rightarrow> nat list) \<Rightarrow> 'b \<Rightarrow> 'q rx_queues \<Rightarrow> 'q rx_queues" where
  "process_packet_borrowed ch interface_iterator b qs =
     (case interface_iterator b of
        [] \<Rightarrow> qs
      | [i] \<Rightarrow>
          (if snd (qs ! i)
           then (case ch_try_send ch (fst (qs ! i)) b of
                   None \<Rightarrow> qs
                 | Some q \<Rightarrow> qs[i := (q, snd (qs ! i))])
           else qs)
      | _ # _ # _ \<Rightarrow> qs)"

section \<open>The count of a record is its number of handles\<close>

text \<open>\<open>h i\<close> is the number of live handles of record \<open>i\<close>, \<open>c i\<close> the frame they were made for.\<close>

definition record_ok :: "nat \<Rightarrow> nat \<Rightarrow> 'b \<Rightarrow> 'b rx_arc_inner option \<Rightarrow> bool" where
  "record_ok i n b v \<longleftrightarrow>
     n \<le> 2 ^ 32 \<and>
     (case v of None \<Rightarrow> n = 0 | Some r \<Rightarrow> 0 < n \<and> unat (refs r) = n - 1 \<and> index r = i \<and> buffer r = b)"

definition arc_inv :: "(nat \<Rightarrow> nat) \<Rightarrow> (nat \<Rightarrow> 'b) \<Rightarrow> 'b rx_arc_pool \<Rightarrow> bool" where
  "arc_inv h c pool \<longleftrightarrow> (\<forall>i < length pool. record_ok i (h i) (c i) (pool ! i))"

lemma arc_inv_upd:
  "arc_inv h c pool \<Longrightarrow> record_ok i n b v \<Longrightarrow> arc_inv (h(i := n)) (c(i := b)) (pool[i := v])"
  by (simp add: arc_inv_def nth_list_update)

lemma arc_inv_upd_count:
  "arc_inv h c pool \<Longrightarrow> record_ok i n (c i) v \<Longrightarrow> arc_inv (h(i := n)) c (pool[i := v])"
  using arc_inv_upd [of h c pool i n "c i" v] by simp

lemma arc_held:
  assumes "arc_inv h c pool" "i < length pool" "0 < h i"
  obtains r where "pool ! i = Some r" "unat (refs r) = h i - 1" "index r = i" "h i \<le> 2 ^ 32" "buffer r = c i"
  using assms by (cases "pool ! i") (auto simp: arc_inv_def record_ok_def)

lemma arc_occupied: "arc_inv h c pool \<Longrightarrow> i < length pool \<Longrightarrow> pool ! i = None \<longleftrightarrow> h i = 0"
  by (cases "pool ! i") (auto simp: arc_inv_def record_ok_def)

lemma arc_deref: "arc_inv h c pool \<Longrightarrow> i < length pool \<Longrightarrow> 0 < h i \<Longrightarrow> RxArcBuffer_deref i pool = Some (c i)"
  by (auto simp: RxArcBuffer_deref_def inner_ref_def elim: arc_held)

lemma rx_try_alloc_Some:
  assumes "arc_inv h c pool" "rx_try_alloc b pool = Some (i, pool')"
  shows "i < length pool" "h i = 0" "length pool' = length pool" "arc_inv (h(i := 1)) (c(i := b)) pool'"
proof -
  have i: "i < length pool" "pool ! i = None"
    and p: "pool' = pool[i := Some \<lparr>buffer = b, refs = 0, index = i\<rparr>]"
    using assms(2) by (auto simp: rx_try_alloc_def find_index_Some split: option.splits)
  show "i < length pool" "length pool' = length pool" using i p by simp_all
  show "h i = 0" using arc_occupied [OF assms(1) i(1)] i(2) by simp
  show "arc_inv (h(i := 1)) (c(i := b)) pool'"
    unfolding p by (rule arc_inv_upd [OF assms(1)]) (simp add: record_ok_def)
qed

lemma rx_try_alloc_None: "rx_try_alloc b pool = None \<longleftrightarrow> (\<forall>i < length pool. pool ! i \<noteq> None)"
  unfolding rx_try_alloc_def find_index_None [symmetric] by (simp split: option.splits)

lemma RxArcBuffer_clone_inv [foa_inv]:
  assumes "arc_inv h c pool" "i < length pool" "0 < h i" "h i < 2 ^ 32"
  shows "arc_inv (h(i := h i + 1)) c (RxArcBuffer_clone i pool)"
proof -
  obtain r where r: "pool ! i = Some r" "unat (refs r) = h i - 1" "index r = i" "buffer r = c i"
    using arc_held [OF assms(1-3)] by blast
  have "refs r \<noteq> - 1"
  proof
    assume "refs r = - 1"
    then have "unat (refs r) = 2 ^ 32 - 1" using word_max_unat [where 'n = 32] by simp
    then show False using r(2) assms(3,4) by linarith
  qed
  then have "unat (refs r + 1) = h i" using r(2) assms(3) by (simp add: unat_inc)
  then have "record_ok i (h i + 1) (c i) (Some (r\<lparr>refs := refs r + 1\<rparr>))"
    using r(3,4) assms(4) by (simp add: record_ok_def)
  from arc_inv_upd_count [OF assms(1) this] show ?thesis
    by (simp add: RxArcBuffer_clone_def inner_ref_def r(1) increment_refs_def)
qed

lemma RxArcBuffer_drop_inv [foa_inv]:
  assumes "arc_inv h c pool" "i < length pool" "0 < h i"
  shows "arc_inv (h(i := h i - 1)) c (RxArcBuffer_drop i pool)"
proof -
  obtain r where r: "pool ! i = Some r" "unat (refs r) = h i - 1" "index r = i" "h i \<le> 2 ^ 32" "buffer r = c i"
    using arc_held [OF assms] by blast
  have zero: "refs r = 0 \<longleftrightarrow> h i = 1" using r(2) assms(3) unat_eq_zero [of "refs r"] by linarith
  have d: "RxArcBuffer_drop i pool =
      pool[i := (if h i = 1 then None else Some (r\<lparr>refs := refs r - 1\<rparr>))]"
    using r(3) zero by (simp add: RxArcBuffer_drop_def inner_ref_def r(1) decrement_refs_def rx_free_def)
  have "unat (refs r - 1) = h i - 1 - 1" if "h i \<noteq> 1"
    using r(2) zero that assms(3) by (simp add: unat_minus_one)
  then have "record_ok i (h i - 1) (c i) (if h i = 1 then None else Some (r\<lparr>refs := refs r - 1\<rparr>))"
    using r(3-5) assms(3) by (auto simp: record_ok_def)
  from arc_inv_upd_count [OF assms(1) this] show ?thesis by (simp add: d)
qed

lemma arc_lengths [simp]:
  "length (RxArcBuffer_clone i pool) = length pool" "length (RxArcBuffer_drop i pool) = length pool"
  by (simp_all add: RxArcBuffer_clone_def RxArcBuffer_drop_def rx_free_def decrement_refs_def Let_def
      split: option.splits)

text \<open>The records themselves obey the allocator contract.\<close>

definition rx_held :: "'b rx_arc_pool \<Rightarrow> nat set" where
  "rx_held pool = {i. i < length pool \<and> pool ! i \<noteq> None}"

definition rx_shape :: "nat \<Rightarrow> 'b rx_arc_pool \<Rightarrow> bool" where
  "rx_shape R pool \<longleftrightarrow>
     length pool = R \<and> (\<forall>i < R. case pool ! i of None \<Rightarrow> True | Some r \<Rightarrow> index r = i)"

interpretation rxpool: allocator "rx_try_alloc b" "\<lambda>i pool. rx_free (the (inner_ref i pool)) pool"
    rx_held "{..<R}" "rx_shape R" for b R
proof (unfold_locales, goal_cases)
  case (1 s)
  then show ?case by (auto simp: rx_held_def rx_shape_def)
next
  case (2 s i s')
  then show ?case
    by (auto simp: rx_try_alloc_def find_index_Some rx_held_def rx_shape_def nth_list_update
        split: option.splits if_splits)
next
  case (3 s)
  then show ?case using rx_try_alloc_None [of b s] by (auto simp: rx_held_def rx_shape_def)
next
  case (4 s i)
  then have "index (the (inner_ref i s)) = i" by (auto simp: rx_held_def rx_shape_def inner_ref_def split: option.splits)
  then show ?case using 4 by (auto simp: rx_free_def rx_held_def rx_shape_def nth_list_update)
qed

section \<open>All runs of the receive path\<close>

record ('b, 'q) rx_sys =
  arc_pool :: "'b rx_arc_pool"
  rx_queues :: "'q rx_queues"
  outside :: "nat \<Rightarrow> nat"
  content :: "nat \<Rightarrow> 'b"

text \<open>Handles of record \<open>i\<close> that wait in some RX queue, and all of them.\<close>

definition queue_refs :: "('q \<Rightarrow> nat list) \<Rightarrow> 'q rx_queues \<Rightarrow> nat \<Rightarrow> nat" where
  "queue_refs view qs i = sum_list (map (\<lambda>q. count_list (view (fst q)) i) qs)"

definition rx_handles :: "('q \<Rightarrow> nat list) \<Rightarrow> ('b, 'q) rx_sys \<Rightarrow> nat \<Rightarrow> nat" where
  "rx_handles view s i = queue_refs view (rx_queues s) i + outside s i"

lemma queue_refs_upd:
  assumes "j < length qs"
  shows "queue_refs view (qs[j := (q, a)]) i + count_list (view (fst (qs ! j))) i =
    queue_refs view qs i + count_list (view q) i"
proof -
  let ?f = "\<lambda>q. count_list (view (fst q)) i"
  have "?f (qs ! j) \<le> sum_list (map ?f qs)"
    using assms elem_le_sum_list [of j "map ?f qs"] by simp
  then show ?thesis using assms
    by (simp add: queue_refs_def map_update sum_list_update)
qed

lemma queue_refs_flag [simp]:
  "j < length qs \<Longrightarrow> queue_refs view (qs[j := (fst (qs ! j), a)]) = queue_refs view qs"
  using queue_refs_upd [of j qs view "fst (qs ! j)" a] by auto

lemma queue_refs_send:
  assumes "fifo_channel cap view ch" "j < length qs" "ch_try_send ch (fst (qs ! j)) h = Some q"
  shows "queue_refs view (qs[j := (q, a)]) = (queue_refs view qs)(h := queue_refs view qs h + 1)"
proof
  fix i
  have "view q = view (fst (qs ! j)) @ [h]" by (rule fifo_send_Some(1) [OF assms(1,3)])
  then show "queue_refs view (qs[j := (q, a)]) i = ((queue_refs view qs)(h := queue_refs view qs h + 1)) i"
    using queue_refs_upd [OF assms(2), of view q a i] by auto
qed

lemma queue_refs_receive:
  assumes "fifo_channel cap view ch" "j < length qs" "ch_try_receive ch (fst (qs ! j)) = Some (h, q)"
  shows "queue_refs view qs = (queue_refs view (qs[j := (q, a)]))(h := queue_refs view (qs[j := (q, a)]) h + 1)"
proof
  fix i
  have "view (fst (qs ! j)) = h # view q" by (rule fifo_receive_Some [OF assms(1,3)])
  then show "queue_refs view qs i = ((queue_refs view (qs[j := (q, a)]))(h := queue_refs view (qs[j := (q, a)]) h + 1)) i"
    using queue_refs_upd [OF assms(2), of view q a i] by auto
qed

text \<open>The delivery loop keeps every count equal to the number of handles; the caller holds
  one handle of the frame itself.\<close>

lemma deliver_inv:
  assumes "fifo_channel cap view ch"
  shows "arc_inv (\<lambda>i. queue_refs view qs i + o' i) c pool \<Longrightarrow> h < length pool \<Longrightarrow> 0 < o' h \<Longrightarrow>
     queue_refs view qs h + o' h + length is \<le> 2 ^ 32 \<Longrightarrow> \<forall>i \<in> set is. i < length qs \<Longrightarrow>
     deliver ch h is (pool, qs) = (pool', qs') \<Longrightarrow>
     arc_inv (\<lambda>i. queue_refs view qs' i + o' i) c pool' \<and> length pool' = length pool \<and> length qs' = length qs"
proof (induction "is" arbitrary: pool qs)
  case Nil
  then show ?case by simp
next
  case (Cons j js)
  let ?n = "queue_refs view qs h + o' h"
  have n: "0 < ?n" "?n < 2 ^ 32" "j < length qs" using Cons.prems by auto
  show ?case
  proof (cases "snd (qs ! j)")
    case False
    then show ?thesis using Cons.IH [of qs pool] Cons.prems by simp
  next
    case True
    let ?p = "RxArcBuffer_clone h pool"
    have clone: "arc_inv ((\<lambda>i. queue_refs view qs i + o' i)(h := ?n + 1)) c ?p"
      using RxArcBuffer_clone_inv [OF Cons.prems(1,2)] n by simp
    show ?thesis
    proof (cases "ch_try_send ch (fst (qs ! j)) h")
      case None
      have "arc_inv (\<lambda>i. queue_refs view qs i + o' i) c (RxArcBuffer_drop h ?p)"
        using RxArcBuffer_drop_inv [OF clone, of h] Cons.prems(2) by (simp add: fun_upd_idem)
      then show ?thesis using Cons.IH [of qs "RxArcBuffer_drop h ?p"] Cons.prems True None by (simp add: Let_def)
    next
      case (Some q)
      let ?qs = "qs[j := (q, snd (qs ! j))]"
      have refs: "queue_refs view ?qs = (queue_refs view qs)(h := queue_refs view qs h + 1)"
        by (rule queue_refs_send [OF assms n(3) Some])
      have "(\<lambda>i. queue_refs view ?qs i + o' i) = (\<lambda>i. queue_refs view qs i + o' i)(h := ?n + 1)"
        by (auto simp: refs fun_eq_iff)
      then have "arc_inv (\<lambda>i. queue_refs view ?qs i + o' i) c ?p" using clone by simp
      then show ?thesis using Cons.IH [of ?qs ?p] Cons.prems True Some refs by (simp add: Let_def)
    qed
  qed
qed


text \<open>
  The driver delivers packets, interfaces open and close their endpoints, take frames out of
  their queues, clone and drop them. A machine word bounds the number of handles that can
  exist, which is the guard on clones.
\<close>

definition rx_init :: "nat \<Rightarrow> 'q rx_queues \<Rightarrow> (nat \<Rightarrow> 'b) \<Rightarrow> ('b, 'q) rx_sys" where
  "rx_init R qs c = \<lparr>arc_pool = RxArcPool_new R, rx_queues = qs, outside = (\<lambda>_. 0), content = c\<rparr>"

inductive rx_step ::
  "('q, nat) channel_ops \<Rightarrow> ('q \<Rightarrow> nat list) \<Rightarrow> ('b \<Rightarrow> nat list) \<Rightarrow> ('b, 'q) rx_sys \<Rightarrow> ('b, 'q) rx_sys \<Rightarrow> bool"
  for ch view ifaces where
  rx_packet: "process_packet_arc ch ifaces b (arc_pool s, rx_queues s) = (pool, qs) \<Longrightarrow>
     \<forall>i \<in> set (ifaces b). i < length (rx_queues s) \<Longrightarrow> length (ifaces b) < 2 ^ 32 \<Longrightarrow>
     rx_step ch view ifaces s (s\<lparr>arc_pool := pool, rx_queues := qs,
       content := (case rx_try_alloc b (arc_pool s) of None \<Rightarrow> content s | Some (h, p) \<Rightarrow> (content s)(h := b))\<rparr>)"
| rx_open: "i < length (rx_queues s) \<Longrightarrow>
     rx_step ch view ifaces s (s\<lparr>rx_queues := RxEndpoint_new i (rx_queues s)\<rparr>)"
| rx_close: "i < length (rx_queues s) \<Longrightarrow>
     rx_step ch view ifaces s (s\<lparr>rx_queues := RxEndpoint_drop i (rx_queues s)\<rparr>)"
| rx_receive: "i < length (rx_queues s) \<Longrightarrow> RxEndpoint_receive ch i (rx_queues s) = Some (h, qs) \<Longrightarrow>
     rx_step ch view ifaces s (s\<lparr>rx_queues := qs, outside := (outside s)(h := outside s h + 1)\<rparr>)"
| rx_clone: "h < length (arc_pool s) \<Longrightarrow> 0 < outside s h \<Longrightarrow> rx_handles view s h < 2 ^ 32 \<Longrightarrow>
     rx_step ch view ifaces s
       (s\<lparr>arc_pool := RxArcBuffer_clone h (arc_pool s), outside := (outside s)(h := outside s h + 1)\<rparr>)"
| rx_drop: "h < length (arc_pool s) \<Longrightarrow> 0 < outside s h \<Longrightarrow>
     rx_step ch view ifaces s
       (s\<lparr>arc_pool := RxArcBuffer_drop h (arc_pool s), outside := (outside s)(h := outside s h - 1)\<rparr>)"

inductive rx_reach ::
  "('q, nat) channel_ops \<Rightarrow> ('q \<Rightarrow> nat list) \<Rightarrow> ('b \<Rightarrow> nat list) \<Rightarrow> ('b, 'q) rx_sys \<Rightarrow> ('b, 'q) rx_sys \<Rightarrow> bool"
  for ch view ifaces s0 where
  rx_reach_init: "rx_reach ch view ifaces s0 s0"
| rx_reach_step: "rx_reach ch view ifaces s0 s \<Longrightarrow> rx_step ch view ifaces s t \<Longrightarrow> rx_reach ch view ifaces s0 t"

definition rx_inv :: "('q \<Rightarrow> nat list) \<Rightarrow> ('b, 'q) rx_sys \<Rightarrow> bool" where
  "rx_inv view s \<longleftrightarrow> arc_inv (rx_handles view s) (content s) (arc_pool s)"

lemma rx_packet_inv:
  assumes "fifo_channel cap view ch" "rx_inv view s"
    and "process_packet_arc ch ifaces b (arc_pool s, rx_queues s) = (pool, qs)"
    and "\<forall>i \<in> set (ifaces b). i < length (rx_queues s)" "length (ifaces b) < 2 ^ 32"
  shows "rx_inv view (s\<lparr>arc_pool := pool, rx_queues := qs,
       content := (case rx_try_alloc b (arc_pool s) of None \<Rightarrow> content s | Some (h, p) \<Rightarrow> (content s)(h := b))\<rparr>)"
proof (cases "rx_try_alloc b (arc_pool s)")
  case None
  then show ?thesis using assms(2,3) by (simp add: process_packet_arc_def rx_inv_def rx_handles_def [abs_def])
next
  case (Some r)
  obtain h p where r: "r = (h, p)" by fastforce
  let ?q = "queue_refs view (rx_queues s)" and ?o = "(outside s)(h := outside s h + 1)"
  let ?c = "(content s)(h := b)"
  note A = rx_try_alloc_Some [OF assms(2) [unfolded rx_inv_def] Some [unfolded r]]
  have zero: "?q h = 0" "outside s h = 0" using A(2) by (auto simp: rx_handles_def)
  have "(rx_handles view s)(h := 1) = (\<lambda>i. ?q i + ?o i)" using zero by (auto simp: rx_handles_def)
  then have a: "arc_inv (\<lambda>i. ?q i + ?o i) ?c p" using A(4) by simp
  obtain p' where d: "deliver ch h (ifaces b) (p, rx_queues s) = (p', qs)" "pool = RxArcBuffer_drop h p'"
    using assms(3) Some r by (auto simp: process_packet_arc_def split: prod.splits)
  have bnd: "h < length p" "0 < ?o h" "?q h + ?o h + length (ifaces b) \<le> 2 ^ 32"
    using A(1,3) zero assms(5) by simp_all
  have D: "arc_inv (\<lambda>i. queue_refs view qs i + ?o i) ?c p'" "length p' = length p"
    using deliver_inv [OF assms(1) a bnd assms(4) d(1)] by blast+
  have "(\<lambda>i. queue_refs view qs i + ?o i)(h := queue_refs view qs h + ?o h - 1) =
      (\<lambda>i. queue_refs view qs i + outside s i)" by auto
  then have "arc_inv (\<lambda>i. queue_refs view qs i + outside s i) ?c pool"
    using RxArcBuffer_drop_inv [OF D(1), of h] D(2) A(1,3) d(2) by simp
  then show ?thesis using Some r by (simp add: rx_inv_def rx_handles_def [abs_def])
qed

lemma rx_step_inv:
  assumes "fifo_channel cap view ch"
  shows "rx_step ch view ifaces s t \<Longrightarrow> rx_inv view s \<Longrightarrow> rx_inv view t"
proof (induction rule: rx_step.induct)
  case (rx_packet b s pool qs)
  show ?case by (rule rx_packet_inv [OF assms rx_packet.prems rx_packet.hyps])
next
  case (rx_open i s)
  then show ?case by (simp add: rx_inv_def rx_handles_def [abs_def] RxEndpoint_new_def)
next
  case (rx_close i s)
  then show ?case by (simp add: rx_inv_def rx_handles_def [abs_def] RxEndpoint_drop_def)
next
  case (rx_receive i s h qs)
  then obtain q where q: "ch_try_receive ch (fst (rx_queues s ! i)) = Some (h, q)"
    "qs = (rx_queues s)[i := (q, snd (rx_queues s ! i))]"
    by (auto simp: RxEndpoint_receive_def split: option.splits)
  have refs: "queue_refs view (rx_queues s) = (queue_refs view qs)(h := queue_refs view qs h + 1)"
    unfolding q(2) by (rule queue_refs_receive [OF assms rx_receive.hyps(1) q(1)])
  have "rx_handles view (s\<lparr>rx_queues := qs, outside := (outside s)(h := outside s h + 1)\<rparr>) = rx_handles view s"
    by (auto simp: rx_handles_def fun_eq_iff refs)
  then show ?case using rx_receive.prems by (simp add: rx_inv_def)
next
  case (rx_clone h s)
  then have "arc_inv ((rx_handles view s)(h := rx_handles view s h + 1)) (content s) (RxArcBuffer_clone h (arc_pool s))"
    by (intro RxArcBuffer_clone_inv) (auto simp: rx_inv_def rx_handles_def)
  moreover have "(rx_handles view s)(h := rx_handles view s h + 1) =
      rx_handles view (s\<lparr>arc_pool := RxArcBuffer_clone h (arc_pool s), outside := (outside s)(h := outside s h + 1)\<rparr>)"
    by (auto simp: rx_handles_def fun_eq_iff)
  ultimately show ?case by (simp add: rx_inv_def)
next
  case (rx_drop h s)
  then have "arc_inv ((rx_handles view s)(h := rx_handles view s h - 1)) (content s) (RxArcBuffer_drop h (arc_pool s))"
    by (intro RxArcBuffer_drop_inv) (auto simp: rx_inv_def rx_handles_def)
  moreover have "(rx_handles view s)(h := rx_handles view s h - 1) =
      rx_handles view (s\<lparr>arc_pool := RxArcBuffer_drop h (arc_pool s), outside := (outside s)(h := outside s h - 1)\<rparr>)"
    using rx_drop.hyps(2) by (auto simp: rx_handles_def fun_eq_iff)
  ultimately show ?case by (simp add: rx_inv_def)
qed

lemma rx_init_inv:
  "\<forall>q \<in> set qs. view (fst q) = [] \<Longrightarrow> rx_inv view (rx_init R qs c)"
proof -
  assume "\<forall>q \<in> set qs. view (fst q) = []"
  then have "map (\<lambda>q. count_list (view (fst q)) i) qs = map (\<lambda>_. 0) qs" for i by simp
  then have "queue_refs view qs i = 0" for i by (simp only: queue_refs_def) (simp add: sum_list_triv map_replicate_const)
  then show ?thesis by (simp add: rx_inv_def rx_init_def rx_handles_def arc_inv_def record_ok_def RxArcPool_new_def)
qed

lemma rx_reach_inv:
  assumes "fifo_channel cap view ch" "\<forall>q \<in> set qs. view (fst q) = []"
  shows "rx_reach ch view ifaces (rx_init R qs c) s \<Longrightarrow> rx_inv view s"
  by (induction rule: rx_reach.induct) (auto intro: rx_init_inv [OF assms(2)] rx_step_inv [OF assms(1)])

text \<open>
  C11: receive buffers are neither leaked nor freed early. Whatever packets arrive and
  whatever the interfaces do with them, a record of the pool is occupied exactly while a
  handle to it waits in an RX queue or is held by an interface, and every such handle still
  reads the frame it was made for.
\<close>

theorem rx_buffers_live:
  assumes "fifo_channel cap view ch" "\<forall>q \<in> set qs. view (fst q) = []"
    and "rx_reach ch view ifaces (rx_init R qs c) s" "i < length (arc_pool s)"
  shows "(arc_pool s ! i \<noteq> None \<longleftrightarrow> 0 < queue_refs view (rx_queues s) i + outside s i) \<and>
     (0 < queue_refs view (rx_queues s) i + outside s i \<longrightarrow>
        RxArcBuffer_deref i (arc_pool s) = Some (content s i))"
  using rx_reach_inv [OF assms(1-3)] arc_occupied [of _ _ "arc_pool s" i] arc_deref [of _ _ "arc_pool s" i] assms(4)
  by (simp add: rx_inv_def rx_handles_def)

theorem rx_buffers_live_witness:
  "arc_pool (rx_init 2 [([], True)] (\<lambda>_. 0 :: nat)) ! 1 = None"
proof -
  let ?s = "rx_init 2 [([] :: nat list, True)] (\<lambda>_. 0 :: nat)"
  have "rx_reach (list_channel 3) (\<lambda>q. q) (\<lambda>b. [0]) ?s ?s" by (rule rx_reach_init)
  from rx_buffers_live [OF list_channel_fifo _ this, of 1] show ?thesis
    by (simp add: rx_init_def RxArcPool_new_def queue_refs_def)
qed

end
