(* ===== verification/Foa_Stack.thy ===== *)
theory Foa_Stack
  imports Tx_Queue_Runs Rx_Arc_Pool Lmac_Crypto Lmac_Channel Rx_Filter
begin

unbundle bit_operations_syntax

text \<open>
  How the stack is put together, \<open>foa/src/lib.rs\<close>: the resources, the initialisation that wires
  the queues, buffers and locks of the other theories to the driver, and the virtual interfaces.
  With it the rest of the TX endpoint (\<open>foa/src/tx_queue.rs\<close>), which hands out buffers and uses
  the beacon queue, and the receive loop of \<open>foa/src/bg_task.rs\<close>. The components the driver is
  split into are an argument: the numbers of the interface controllers, the hardware slots of the
  transmit endpoints and the two controllers the lower MAC owns.
\<close>

section \<open>Resources\<close>

record ('c, 'k) shared_lmac_state =
  shared_channel_state :: "'c channel_state"
  off_channel_requesters :: "off_channel_request_state list"
  shared_key_slots :: "'k key_slot_manager"

definition SharedLMacState_new :: "nat \<Rightarrow> 'c \<Rightarrow> 'k \<Rightarrow> ('c, 'k) shared_lmac_state" where
  "SharedLMacState_new I c k =
     \<lparr>shared_channel_state = ChannelState_new c, off_channel_requesters = replicate I NotRequested,
      shared_key_slots = KeySlotManager_new k\<rparr>"

text \<open>Every interface control takes one of the \<open>I\<close> receivers of the completion watch.\<close>

definition SharedLMacState_split :: "nat \<Rightarrow> nat list \<Rightarrow> panic + nat list" where
  "SharedLMacState_split I controllers =
     (if length controllers \<le> I then Inr controllers
      else Inl (Panic ''This should not be able to fail, since we have as many receivers as interface controls.''))"

record ('c, 'k, 'q, 'p, 'b, 'r, 'e) foa_resources =
  res_lmac :: "('c, 'k) shared_lmac_state option"
  res_rx_queues :: "'q rx_queues"
  res_arc_pool :: "'b rx_arc_pool"
  res_edca_tx_queues :: "(nat, 'r, 'e) tx_queue_state list option"
  res_beacon_tx_queue :: "nat option"
  res_tx_buffers :: "bytes list"
  res_tx_buffer_manager :: "'p tx_buffer_manager option"

definition FoAResources_new ::
  "nat \<Rightarrow> nat \<Rightarrow> nat \<Rightarrow> ('q, 'a) channel_ops \<Rightarrow> ('c, 'k, 'q, 'p, 'b, 'r, 'e) foa_resources" where
  "FoAResources_new I R N ch =
     \<lparr>res_lmac = None, res_rx_queues = replicate I (ch_new ch, False), res_arc_pool = RxArcPool_new R,
      res_edca_tx_queues = None, res_beacon_tx_queue = None,
      res_tx_buffers = replicate N (replicate TX_BUFFER_SIZE 0), res_tx_buffer_manager = None\<rparr>"

section \<open>Initialisation\<close>

record ('c, 'k) driver_components =
  rx_interface_controllers :: "nat list"
  driver_channel_controller :: 'c
  driver_crypto_controller :: 'k
  beacon_tx_slot :: nat
  edca_tx_slots :: "nat list"

record virtual_interface =
  vif_interface :: nat
  vif_rx_queue :: nat
  vif_tx_interface :: nat

record tx_queue_runner =
  runner_queue :: nat
  runner_slot :: nat

text \<open>The queue of a runner is found by the hardware slot of its endpoint, counted from one.\<close>

definition TxQueueRunner_for :: "nat \<Rightarrow> panic + tx_queue_runner" where
  "TxQueueRunner_for slot =
     (if slot = 0 then Inl (Panic ''attempt to subtract with overflow'')
      else if slot - 1 < 4 then Inr \<lparr>runner_queue = slot - 1, runner_slot = slot\<rparr>
      else Inl (Panic ''index out of bounds''))"

fun collect :: "('a \<Rightarrow> panic + 'b) \<Rightarrow> 'a list \<Rightarrow> panic + 'b list" where
  "collect f [] = Inr []"
| "collect f (x # xs) =
     (case f x of Inl p \<Rightarrow> Inl p | Inr y \<Rightarrow> (case collect f xs of Inl p \<Rightarrow> Inl p | Inr ys \<Rightarrow> Inr (y # ys)))"

definition VirtualInterface_for :: "'q rx_queues \<Rightarrow> nat \<Rightarrow> panic + virtual_interface" where
  "VirtualInterface_for qs i =
     (if i < length qs then Inr \<lparr>vif_interface = i, vif_rx_queue = i, vif_tx_interface = i\<rparr>
      else Inl (Panic ''index out of bounds''))"

definition init ::
  "nat \<Rightarrow> nat \<Rightarrow> ('p, nat) channel_ops \<Rightarrow> ('c, 'k) driver_components \<Rightarrow> ('c, 'k, 'q, 'p, 'b, 'r, 'e) foa_resources \<Rightarrow>
     panic + virtual_interface list \<times> tx_queue_runner list \<times> ('c, 'k, 'q, 'p, 'b, 'r, 'e) foa_resources" where
  "init I N pch d res =
     (let lmac = SharedLMacState_new I (driver_channel_controller d) (driver_crypto_controller d);
          manager = TxBufferManager_new pch (res_tx_buffers res)
      in case SharedLMacState_split I (rx_interface_controllers d) of
           Inl p \<Rightarrow> Inl p
         | Inr controls \<Rightarrow>
        (case collect (VirtualInterface_for (res_rx_queues res)) controls of
           Inl p \<Rightarrow> Inl p
         | Inr vifs \<Rightarrow>
        (case collect TxQueueRunner_for (edca_tx_slots d) of
           Inl p \<Rightarrow> Inl p
         | Inr runners \<Rightarrow>
             Inr (vifs, runners, res\<lparr>res_lmac := Some lmac, res_tx_buffer_manager := Some manager,
               res_beacon_tx_queue := Some (beacon_tx_slot d),
               res_edca_tx_queues := Some (replicate 4 (TxQueueState_new N))\<rparr>))))"

section \<open>Virtual interfaces\<close>

text \<open>Splitting an interface activates its RX queue.\<close>

definition VirtualInterface_split :: "virtual_interface \<Rightarrow> 'q rx_queues \<Rightarrow> (nat \<times> nat \<times> nat) \<times> 'q rx_queues" where
  "VirtualInterface_split v qs =
     ((vif_interface v, vif_rx_queue v, vif_tx_interface v), RxEndpoint_new (vif_rx_queue v) qs)"

record ('c, 'q, 'fl) interface_state =
  if_queues :: "'q rx_queues"
  if_channel :: "'c channel_state"
  if_filters :: 'fl

definition VirtualInterface_reset ::
  "nat \<Rightarrow> ('q, 'a) channel_ops \<Rightarrow> ('c, 'm) radio_ops \<Rightarrow> 'fl filter_ops \<Rightarrow> virtual_interface \<Rightarrow>
     ('c, 'q, 'fl) interface_state \<Rightarrow> ('c, 'q, 'fl) interface_state" where
  "VirtualInterface_reset I ch ro fo v s =
     (let q = if_queues s ! vif_rx_queue v;
          cs = unlock_channel I (vif_interface v) (if_channel s)
      in s\<lparr>if_queues := (if_queues s)[vif_rx_queue v := (ch_clear ch (fst q), snd q)],
           if_channel := cs\<lparr>channel_controller := set_mode ro (vif_interface v) (mode_disabled ro) (channel_controller cs)\<rparr>,
           if_filters := driver_clear_filter fo ReceiverAddress (driver_clear_filter fo BssidBank (if_filters s))\<rparr>)"

section \<open>The rest of the TX endpoint\<close>

definition alloc_tx_buf :: "('p, nat) channel_ops \<Rightarrow> 'p tx_buffer_manager \<Rightarrow> nat poll \<times> 'p tx_buffer_manager" where
  "alloc_tx_buf pch m = alloc pch m"

definition try_alloc_tx_buf :: "('p, nat) channel_ops \<Rightarrow> 'p tx_buffer_manager \<Rightarrow> (nat \<times> 'p tx_buffer_manager) option" where
  "try_alloc_tx_buf pch m = try_alloc pch m"

text \<open>
  The beacon queue is the hardware endpoint behind a lock: \<open>held\<close> says that another transmission
  has it. The driver's transmissions are parameters.
\<close>

definition transmit_beacon ::
  "(nat \<Rightarrow> 'r tx_plcp_parameters \<Rightarrow> tx_mac_parameters \<Rightarrow> 'r tx_error_behaviour \<Rightarrow> bytes \<Rightarrow> 'd \<Rightarrow> ('e + u8) \<times> 'd) \<Rightarrow>
     bool \<Rightarrow> nat \<Rightarrow> bytes \<Rightarrow> 'r tx_plcp_parameters \<Rightarrow> tx_mac_parameters \<Rightarrow> 'r retry_behaviour \<Rightarrow> 'd \<Rightarrow> (('e + u8) \<times> 'd) poll" where
  "transmit_beacon driver_transmit held iface buf plcp mac retry hw =
     (if held then Pending else Ready (driver_transmit iface plcp mac (as_driver_behaviour retry) buf hw))"

definition transmit_beacon_with_hook ::
  "(nat \<Rightarrow> 'r tx_plcp_parameters \<Rightarrow> tx_mac_parameters \<Rightarrow> bytes \<Rightarrow> 'd \<Rightarrow> ('e + unit) \<times> 'd) \<Rightarrow>
     bool \<Rightarrow> nat \<Rightarrow> bytes \<Rightarrow> 'r tx_plcp_parameters \<Rightarrow> tx_mac_parameters \<Rightarrow> (bytes \<Rightarrow> bytes) \<Rightarrow> 'd \<Rightarrow> (('e + unit) \<times> 'd) poll" where
  "transmit_beacon_with_hook transmit_oneshot held iface buf plcp mac hook hw =
     (if held then Pending else Ready (transmit_oneshot iface plcp mac (hook buf) hw))"

text \<open>What a trace of a transmission may show of its frame.\<close>

record tx_trace_header =
  trace_kind :: "u8 option"
  trace_subtype :: "u8 option"
  trace_protected :: "bool option"
  trace_sequence :: "u16 option"

definition TxTraceHeader_default :: tx_trace_header where
  "TxTraceHeader_default = \<lparr>trace_kind = None, trace_subtype = None, trace_protected = None, trace_sequence = None\<rparr>"

definition tx_trace_header_of :: "bytes \<Rightarrow> tx_trace_header" where
  "tx_trace_header_of f =
     (case get_to 2 f of
        None \<Rightarrow> TxTraceHeader_default
      | Some control \<Rightarrow>
          if control ! 0 AND 3 \<noteq> 0 then TxTraceHeader_default
          else (let k = drop_bit 2 (control ! 0) AND 3
                in \<lparr>trace_kind = Some k, trace_subtype = Some (drop_bit 4 (control ! 0)),
                    trace_protected = Some (control ! 1 AND 0x40 \<noteq> 0),
                    trace_sequence =
                      (if k = 0 \<or> k = 2
                       then map_option (\<lambda>bs. drop_bit 4 (of_nat (be16 (bs ! 1) (bs ! 0)))) (get_range 22 24 f)
                       else None)\<rparr>))"

section \<open>The receive loop\<close>

text \<open>One round of \<open>RxRunner::run\<close>: nothing was received, or the packet is processed.\<close>

definition rx_runner_round ::
  "('q, nat) channel_ops \<Rightarrow> ('b \<Rightarrow> nat list) \<Rightarrow> 'b option \<Rightarrow> 'b rx_arc_pool \<times> 'q rx_queues \<Rightarrow> 'b rx_arc_pool \<times> 'q rx_queues" where
  "rx_runner_round ch interface_iterator received s =
     (case received of None \<Rightarrow> s | Some b \<Rightarrow> process_packet_arc ch interface_iterator b s)"

section \<open>Lemmas\<close>

lemma collect_Inr:
  "(\<And>x. x \<in> set xs \<Longrightarrow> f x = Inr (g x)) \<Longrightarrow> collect f xs = Inr (map g xs)"
  by (induction xs) simp_all

text \<open>Only the header of a frame is looked at for a trace, never its body.\<close>

lemma get_range_take: "b \<le> n \<Longrightarrow> get_range a b (take n f) = get_range a b f"
  by (auto simp: get_range_def drop_take min_def)

lemma tx_trace_header_public: "tx_trace_header_of (take 24 f) = tx_trace_header_of f"
proof -
  have "get_range 0 2 (take 24 f) = get_range 0 2 f" "get_range 22 24 (take 24 f) = get_range 22 24 f"
    by (rule get_range_take, simp)+
  then show ?thesis unfolding tx_trace_header_of_def get_to_def by (simp only:)
qed

text \<open>What the driver promises: its interface controllers are numbered from zero, and its four
  EDCA endpoints have the hardware slots one to four.\<close>

definition driver_split_ok :: "nat \<Rightarrow> ('c, 'k) driver_components \<Rightarrow> bool" where
  "driver_split_ok I d \<longleftrightarrow>
     rx_interface_controllers d = [0..<I] \<and> distinct (edca_tx_slots d) \<and> set (edca_tx_slots d) = {1..4}"

lemma init_result:
  assumes "driver_split_ok I d" "length (res_rx_queues res) = I"
  shows "init I N pch d res =
    Inr (map (\<lambda>i. \<lparr>vif_interface = i, vif_rx_queue = i, vif_tx_interface = i\<rparr>) [0..<I],
         map (\<lambda>h. \<lparr>runner_queue = h - 1, runner_slot = h\<rparr>) (edca_tx_slots d),
         res\<lparr>res_lmac := Some (SharedLMacState_new I (driver_channel_controller d) (driver_crypto_controller d)),
             res_tx_buffer_manager := Some (TxBufferManager_new pch (res_tx_buffers res)),
             res_beacon_tx_queue := Some (beacon_tx_slot d),
             res_edca_tx_queues := Some (replicate 4 (TxQueueState_new N))\<rparr>)"
proof -
  have "collect (VirtualInterface_for (res_rx_queues res)) [0..<I] =
      Inr (map (\<lambda>i. \<lparr>vif_interface = i, vif_rx_queue = i, vif_tx_interface = i\<rparr>) [0..<I])"
    using assms(2) by (intro collect_Inr) (auto simp: VirtualInterface_for_def)
  moreover have "collect TxQueueRunner_for (edca_tx_slots d) =
      Inr (map (\<lambda>h. \<lparr>runner_queue = h - 1, runner_slot = h\<rparr>) (edca_tx_slots d))"
    using assms(1) by (intro collect_Inr) (auto simp: TxQueueRunner_for_def driver_split_ok_def)
  ultimately show ?thesis using assms(1) by (simp add: init_def SharedLMacState_split_def driver_split_ok_def)
qed

lemma FoAResources_new_queues [simp]: "length (res_rx_queues (FoAResources_new I R N ch)) = I"
  by (simp add: FoAResources_new_def)

text \<open>
  C29: the stack is wired correctly. On a driver whose interfaces are numbered from zero and whose
  EDCA endpoints have the slots one to four, the initialisation does not panic, every interface
  gets its own receive queue and sends under its own number, and a frame sent in the access
  category of a hardware slot enters a queue that exactly one runner serves, the one that owns
  the endpoint of this slot; the other queues are not touched.
\<close>

theorem edca_frames_reach_their_endpoint:
  assumes "driver_split_ok I d" and "init I N pch d (FoAResources_new I R N ch) = Inr (vifs, runners, res)"
    and "h \<in> {1..4}" and "length queues = 4"
    and "transmit_edca N (vif_tx_interface (vifs ! i)) h buf len plcp mac retry queues = Inr (c, queues', eff)" and "i < I"
  shows "vif_rx_queue (vifs ! i) = i \<and> vif_tx_interface (vifs ! i) = i \<and> length (res_rx_queues res) = I \<and>
         (\<exists>!r. r \<in> set runners \<and> runner_queue r = h - 1) \<and>
         (\<forall>r\<in>set runners. runner_queue r = h - 1 \<longrightarrow> runner_slot r = h) \<and> distinct (map runner_queue runners) \<and>
         enqueue_frame N \<lparr>frame = buf, frame_length = len, plcp_parameters = plcp, mac_parameters = mac,
           interface = of_nat i, retry_behaviour = retry\<rparr> (queues ! (h - 1)) = Inr (c, queues' ! (h - 1), eff) \<and>
         (\<forall>q<4. q \<noteq> h - 1 \<longrightarrow> queues' ! q = queues ! q)"
proof -
  have res: "vifs = map (\<lambda>i. \<lparr>vif_interface = i, vif_rx_queue = i, vif_tx_interface = i\<rparr>) [0..<I]"
    "runners = map (\<lambda>h. \<lparr>runner_queue = h - 1, runner_slot = h\<rparr>) (edca_tx_slots d)" "length (res_rx_queues res) = I"
    using assms(2) unfolding init_result [OF assms(1) FoAResources_new_queues] by auto
  have slots: "distinct (edca_tx_slots d)" "set (edca_tx_slots d) = {1..4}" using assms(1) by (simp_all add: driver_split_ok_def)
  have inj: "inj_on (\<lambda>h. h - 1) {1..4 :: nat}" by (auto simp: inj_on_def)
  have "distinct (map runner_queue runners)" using slots inj by (simp add: res(2) distinct_map comp_def)
  moreover have "\<exists>!r. r \<in> set runners \<and> runner_queue r = h - 1"
    using slots(2) assms(3) by (auto simp: res(2) intro!: ex1I [of _ "\<lparr>runner_queue = h - 1, runner_slot = h\<rparr>"])
  moreover have "\<forall>r\<in>set runners. runner_queue r = h - 1 \<longrightarrow> runner_slot r = h"
    using slots(2) assms(3) by (auto simp: res(2))
  ultimately show ?thesis using assms(3-6) res
    by (auto simp: transmit_edca_def Let_def split: sum.splits)
qed

definition sample_driver :: "(u8, nat set) driver_components" where
  "sample_driver = \<lparr>rx_interface_controllers = [0, 1], driver_channel_controller = 1, driver_crypto_controller = {},
     beacon_tx_slot = 0, edca_tx_slots = [4, 3, 2, 1]\<rparr>"

lemma sample_driver_ok: "driver_split_ok 2 sample_driver"
  by (auto simp: driver_split_ok_def sample_driver_def upt_rec)

theorem edca_frames_reach_their_endpoint_witness:
  "\<exists>vifs runners res. init 2 1 (list_channel 1) sample_driver
       (FoAResources_new 2 4 1 (list_channel 3) :: (u8, nat set, nat list, nat list, unit, unit, unit) foa_resources) =
       Inr (vifs, runners, res) \<and> (\<forall>r\<in>set runners. runner_queue r = 1 \<longrightarrow> runner_slot r = 2)"
proof -
  obtain vifs runners res where i: "init 2 1 (list_channel 1) sample_driver
      (FoAResources_new 2 4 1 (list_channel 3) :: (u8, nat set, nat list, nat list, unit, unit, unit) foa_resources) =
      Inr (vifs, runners, res)"
    using init_result [OF sample_driver_ok FoAResources_new_queues] by blast
  let ?qs = "replicate 4 (TxQueueState_new 1 :: (nat, unit, unit) tx_queue_state)"
  have room: "\<exists>c q eff. enqueue_frame 1 f (TxQueueState_new 1 :: (nat, unit, unit) tx_queue_state) = Inr (c, q, eff)" for f
    by (simp add: enqueue_frame_def TxQueueState_new_def Let_def increase_queue_counter_def)
  obtain c q eff where "enqueue_frame 1 \<lparr>frame = 0, frame_length = 0, plcp_parameters = \<lparr>rate = ()\<rparr>,
      mac_parameters = \<lparr>key_slot_index = None, wait_for_ack = False, override_seq_num = False\<rparr>,
      interface = of_nat (vif_tx_interface (vifs ! 0)), retry_behaviour = Drop\<rparr> (TxQueueState_new 1 :: (nat, unit, unit) tx_queue_state) = Inr (c, q, eff)"
    using room by blast
  then have "transmit_edca 1 (vif_tx_interface (vifs ! 0)) 2 0 0 \<lparr>rate = ()\<rparr>
      \<lparr>key_slot_index = None, wait_for_ack = False, override_seq_num = False\<rparr> Drop ?qs = Inr (c, ?qs[1 := q], eff)"
    by (simp add: transmit_edca_def)
  from edca_frames_reach_their_endpoint [OF sample_driver_ok i _ _ this] show ?thesis using i by auto
qed

text \<open>
  Resetting a virtual interface leaves nothing of an earlier user of it. Its receive queue is
  empty, it holds no channel lock and both its filters are cleared, while the locks, the channel
  of the radio and the queues of the other interfaces stay as they were.
\<close>

theorem interface_reset_clean:
  assumes "fifo_channel cap view ch" "channel_driver valid current ro" "filter_laws fview fo"
    and "locks_ok I (locks (if_channel s))" "vif_interface v < I" "vif_rx_queue v < length (if_queues s)"
    and "s' = VirtualInterface_reset I ch ro fo v s"
  shows "view (fst (if_queues s' ! vif_rx_queue v)) = [] \<and> \<not> holds_lock (vif_interface v) (if_channel s') \<and>
         fview (if_filters s') = (fview (if_filters s))(BssidBank := None, ReceiverAddress := None) \<and>
         locks_ok I (locks (if_channel s')) \<and>
         (\<forall>j<I. j \<noteq> vif_interface v \<longrightarrow> holds_lock j (if_channel s') = holds_lock j (if_channel s)) \<and>
         current (channel_controller (if_channel s')) = current (channel_controller (if_channel s)) \<and>
         (\<forall>q. q \<noteq> vif_rx_queue v \<longrightarrow> if_queues s' ! q = if_queues s ! q)"
proof -
  let ?cs = "if_channel s" and ?i = "vif_interface v"
  have cs: "locks (if_channel s') = locks (unlock_channel I ?i ?cs)"
    "channel_controller (if_channel s') = set_mode ro ?i (mode_disabled ro) (channel_controller ?cs)"
    by (auto simp: assms(7) VirtualInterface_reset_def Let_def unlock_channel_def unlock_channel_internal_def
        ChannelState_unlock_channel_def split: option.splits if_splits)
  have "locks_ok I (locks (unlock_channel I ?i ?cs)) \<and> \<not> holds_lock ?i (unlock_channel I ?i ?cs) \<and>
      (\<forall>j<I. j \<noteq> ?i \<longrightarrow> holds_lock j (unlock_channel I ?i ?cs) = holds_lock j ?cs)"
    using unlock_channel_locks(1) [OF assms(4,5)] unlock_channel_locks(2) [OF assms(4,5)] assms(5)
    unfolding unlock_channel_def unlock_channel_internal_def by simp
  then show ?thesis
    using assms(2,6) cs fifo_clear [OF assms(1)] filter_lawsD [OF assms(3)]
    by (auto simp: assms(7) VirtualInterface_reset_def Let_def holds_lock_def channel_driver_def)
qed

text \<open>An interface that held the channel, a queued frame and a filter.\<close>

definition sample_interface_state :: "(u8, nat list, filter_bank \<Rightarrow> mac_address option) interface_state" where
  "sample_interface_state =
     \<lparr>if_queues = [([7], True), ([8], True)],
      if_channel = \<lparr>locks = Some ([True, False], 6), off_channel_operation_interface = None, channel_controller = 6\<rparr>,
      if_filters = (\<lambda>b. Some (replicate 6 1))\<rparr>"

theorem interface_reset_clean_witness:
  "let v = \<lparr>vif_interface = 0, vif_rx_queue = 0, vif_tx_interface = 0\<rparr>;
       s' = VirtualInterface_reset 2 (list_channel 3 :: (nat list, nat) channel_ops) plain_radio map_filters v sample_interface_state
   in holds_lock 0 (if_channel sample_interface_state) \<and> \<not> holds_lock 0 (if_channel s') \<and>
      fst (if_queues s' ! 0) = [] \<and> if_queues s' ! 1 = ([8], True) \<and> if_filters s' BssidBank = None"
  using interface_reset_clean [OF list_channel_fifo plain_radio_ok map_filters_laws, of 2 sample_interface_state
      "\<lparr>vif_interface = 0, vif_rx_queue = 0, vif_tx_interface = 0\<rparr>" _ 3]
  by (simp add: sample_interface_state_def locks_ok_def holds_lock_def)

end
