(* ===== verification/Awdl_Link.thy ===== *)
theory Awdl_Link
  imports Awdl_State Foa_Stack Net_Driver
begin

text \<open>
  The three runners of an AWDL session: reception (\<open>foa_awdl/src/runner/rx.rs\<close>), transmission
  (\<open>runner/tx.rs\<close>) and management (\<open>runner/management.rs\<close>). An asynchronous loop is modelled by
  what it does when it is polled; a wait in the middle of a frame is a state of the runner, so
  that the others run meanwhile. The frame codecs are third-party code and parameters: the
  Ethernet header with \<open>ethernet_laws\<close>, the 802.11, LLC and AWDL headers with \<open>data_codec_laws\<close>
  and \<open>action_codec_ok\<close>. What is sent over the air is appended to a log.
\<close>

section \<open>Parameters\<close>

definition AWDL_BSSID :: mac_address where
  "AWDL_BSSID = [0x00, 0x25, 0x00, 0xff, 0x94, 0x73]"

definition APPLE_OUI :: bytes where
  "APPLE_OUI = [0x00, 0x17, 0xf2]"

definition AWDL_MTU :: nat where
  "AWDL_MTU = 1484"

text \<open>An Ethernet frame in a buffer. An Ethernet protocol is its number.\<close>

record ethernet_ops =
  eth_header_len :: nat
  eth_check_len :: "bytes \<Rightarrow> bool"
  eth_src :: "bytes \<Rightarrow> mac_address"
  eth_dst :: "bytes \<Rightarrow> mac_address"
  eth_type :: "bytes \<Rightarrow> u16"
  eth_set_src :: "mac_address \<Rightarrow> bytes \<Rightarrow> bytes"
  eth_set_dst :: "mac_address \<Rightarrow> bytes \<Rightarrow> bytes"
  eth_set_type :: "u16 \<Rightarrow> bytes \<Rightarrow> bytes"

definition eth_payload :: "ethernet_ops \<Rightarrow> bytes \<Rightarrow> bytes" where
  "eth_payload eo b = drop (eth_header_len eo) b"

abbreviation (input) ETH_IPV6 :: u16 where
  "ETH_IPV6 \<equiv> 0x86dd"

text \<open>The frames of a session as the codecs see them.\<close>

datatype ip_protocol = Icmpv6 | OtherProtocol u8

datatype icmpv6_message = NeighborSolicit | OtherMessage u8

datatype action_subtype = PSF | MIF

datatype awdl_frame_payload = SinglePayload bytes | AmsduPayload | CryptoWrappedPayload

record awdl_data_frame =
  df_destination :: "mac_address option"
  df_source :: "mac_address option"
  df_payload :: "awdl_frame_payload option"

datatype awdl_mpdu =
    VendorAction bytes bytes mac_address
  | DataMpdu awdl_data_frame

record awdl_data_mpdu =
  mpdu_bssid :: mac_address
  mpdu_source :: mac_address
  mpdu_destination :: mac_address
  llc_oui :: bytes
  llc_ether_type :: u16
  awdl_ether_type :: u16
  awdl_payload :: bytes
  awdl_sequence_number :: u16

record awdl_action_mpdu =
  action_receiver :: mac_address
  action_transmitter :: mac_address
  action_bssid :: mac_address
  action_oui :: bytes
  target_tx_time :: nat
  phy_tx_time :: nat
  af_subtype :: action_subtype
  tagged_data :: awdl_action_frame

record ipv6_advert =
  adv_version :: u8
  adv_next_header :: ip_protocol
  adv_src :: "u16 list"
  adv_dst :: "u16 list"
  adv_hop_limit :: u8
  adv_solicited :: bool
  adv_target :: "u16 list"
  adv_lladdr :: "bytes option"

text \<open>
  Writing goes to a buffer of the given size and may fail. An IPv6 packet is read as its next
  header with its payload, an ICMPv6 packet as its message type with the target address. The
  default transmission parameters are the driver's.
\<close>

record awdl_codec =
  ac_write_data :: "nat \<Rightarrow> awdl_data_mpdu \<Rightarrow> bytes option"
  ac_write_action :: "nat \<Rightarrow> awdl_action_mpdu \<Rightarrow> bytes option"
  ac_match :: "bytes \<Rightarrow> awdl_mpdu option"
  ac_action :: "bytes \<Rightarrow> awdl_action_frame option"
  ac_llc :: "bytes \<Rightarrow> (bytes \<times> bytes) option"
  ac_data :: "bytes \<Rightarrow> (u16 \<times> bytes) option"
  ac_ipv6 :: "bytes \<Rightarrow> (ip_protocol \<times> bytes) option"
  ac_icmpv6 :: "bytes \<Rightarrow> (icmpv6_message \<times> u16 list) option"
  ac_advert_len :: "ipv6_advert \<Rightarrow> nat"
  ac_write_advert :: "ipv6_advert \<Rightarrow> bytes \<Rightarrow> bytes"

record ('ng, 'q, 'c, 'n) awdl_env =
  we_tu :: nat
  we_eth :: ethernet_ops
  we_codec :: awdl_codec
  we_net :: "'n net_ops"
  we_ndp :: "('ng, mac_address) value_signal_ops"
  we_events :: "('q, awdl_event) channel_ops"
  we_cache :: "('c, 'q) peer_cache_ops"
  we_mac_default :: tx_mac_parameters

section \<open>The state of a session\<close>

datatype awdl_rate = Mbits12

datatype awdl_transmission =
    EdcaTransmission bytes "awdl_rate tx_plcp_parameters" tx_mac_parameters "awdl_rate retry_behaviour"
  | BeaconTransmission nat bytes "awdl_rate tx_plcp_parameters" tx_mac_parameters

text \<open>The transmission runner waits for an MSDU, for a TX buffer, or for the slot of a frame.\<close>

datatype tx_progress = TxIdle | TxWaiting bytes | TxScheduled bytes nat

record ('sg, 'ng, 'q, 'c, 'n) awdl_session =
  as_common :: "('sg, 'ng, 'q, 'c) common_resources"
  as_net :: 'n
  as_sent :: "awdl_transmission list"
  as_tx :: tx_progress
  as_sequence :: u16
  as_request :: off_channel_request_state
  as_stale_deadline :: nat
  as_psf_deadline :: nat
  as_mif_deadline :: nat

section \<open>Reception\<close>

text \<open>The buffer with the frame, and how many of its bytes are the frame.\<close>

definition serialize_ethernet_frame ::
  "ethernet_ops \<Rightarrow> bytes \<Rightarrow> mac_address \<Rightarrow> mac_address \<Rightarrow> u16 \<Rightarrow> bytes \<Rightarrow> (nat \<times> bytes) option" where
  "serialize_ethernet_frame eo buf src dst ethernet_protocol payload =
     (let b = eth_set_type eo ethernet_protocol (eth_set_dst eo dst (eth_set_src eo src buf));
          h = eth_header_len eo
      in if length payload \<le> length b - h
         then Some (h + length payload, take h b @ payload @ drop (h + length payload) b)
         else None)"

text \<open>\<open>slot\<close> is the buffer the network stack gives within the time limit, if it gives one.\<close>

definition process_data_frame ::
  "('ng, 'q, 'c, 'n) awdl_env \<Rightarrow> awdl_data_frame \<Rightarrow> bytes option \<Rightarrow> 'n \<Rightarrow> 'n" where
  "process_data_frame e f slot n =
     (case df_destination f of
        None \<Rightarrow> n
      | Some destination_address \<Rightarrow>
     (case df_source f of
        None \<Rightarrow> n
      | Some source_address \<Rightarrow>
     (case df_payload f of
        Some (SinglePayload payload) \<Rightarrow>
          (case ac_llc (we_codec e) payload of
             None \<Rightarrow> n
           | Some (oui, llc_payload) \<Rightarrow>
               if oui \<noteq> APPLE_OUI then n
               else case ac_data (we_codec e) llc_payload of
                      None \<Rightarrow> n
                    | Some (ether_type, body) \<Rightarrow>
                        (case slot of
                           None \<Rightarrow> n
                         | Some rx_buffer \<Rightarrow>
                             (case serialize_ethernet_frame (we_eth e) rx_buffer source_address destination_address
                                     ether_type body of
                                None \<Rightarrow> n
                              | Some (written, b) \<Rightarrow> net_rx_done (we_net e) (take written b) n)))
      | _ \<Rightarrow> n)))"

definition process_frame ::
  "('ng, 'q, 'c, 'n) awdl_env \<Rightarrow> nat \<Rightarrow> mac_address \<Rightarrow> bytes \<Rightarrow> nat \<Rightarrow> bytes option \<Rightarrow>
     ('sg, 'ng, 'q, 'c) common_resources \<times> 'n \<Rightarrow> panic + ('sg, 'ng, 'q, 'c) common_resources \<times> 'n" where
  "process_frame e now our_address mpdu_buffer corrected_timestamp slot s =
     (let (cr, n) = s
      in case ac_match (we_codec e) mpdu_buffer of
           None \<Rightarrow> Inr s
         | Some (VendorAction oui payload transmitter_address) \<Rightarrow>
             if oui \<noteq> APPLE_OUI then Inr s
             else (case ac_action (we_codec e) payload of
                     None \<Rightarrow> Inr s
                   | Some awdl_action_body \<Rightarrow>
                       (case process_action_frame (we_cache e) (we_events e) (we_tu e) now our_address
                               transmitter_address awdl_action_body corrected_timestamp cr of
                          Inl p \<Rightarrow> Inl p
                        | Inr cr' \<Rightarrow> Inr (cr', n)))
         | Some (DataMpdu data_frame) \<Rightarrow> Inr (cr, process_data_frame e data_frame slot n))"

definition neighbor_advert :: "mac_address \<Rightarrow> mac_address \<Rightarrow> ipv6_advert" where
  "neighbor_advert own_address peer_address =
     \<lparr>adv_version = 6, adv_next_header = Icmpv6, adv_src = hw_address_to_ipv6 peer_address,
      adv_dst = hw_address_to_ipv6 own_address, adv_hop_limit = 255, adv_solicited = True,
      adv_target = hw_address_to_ipv6 peer_address, adv_lladdr = Some peer_address\<rparr>"

definition inject_neighbor ::
  "('ng, 'q, 'c, 'n) awdl_env \<Rightarrow> mac_address \<Rightarrow> mac_address \<Rightarrow> bytes option \<Rightarrow>
     ('sg, 'ng, 'q, 'c) common_resources \<times> 'n \<Rightarrow> 'n" where
  "inject_neighbor e own_address peer_address slot s =
     (let (cr, n) = s
      in if \<not> is_peer_cached (we_cache e) peer_address cr then n
         else case slot of
                None \<Rightarrow> n
              | Some rx_buf \<Rightarrow>
                  (let eo = we_eth e;
                       b = eth_set_type eo ETH_IPV6 (eth_set_src eo peer_address (eth_set_dst eo own_address rx_buf));
                       advert = neighbor_advert own_address peer_address;
                       ipv6 = ac_write_advert (we_codec e) advert (eth_payload eo b);
                       written = eth_header_len eo + ac_advert_len (we_codec e) advert
                   in net_rx_done (we_net e) (take written (take (eth_header_len eo) b @ ipv6)) n))"

text \<open>A received frame goes first; otherwise a requested injection is made.\<close>

definition AwdlMpduRxRunner_run_session ::
  "('ng, 'q, 'c, 'n) awdl_env \<Rightarrow> nat \<Rightarrow> mac_address \<Rightarrow> (bytes \<times> nat) option \<Rightarrow> bytes option \<Rightarrow>
     ('sg, 'ng, 'q, 'c, 'n) awdl_session \<Rightarrow> panic + ('sg, 'ng, 'q, 'c, 'n) awdl_session poll" where
  "AwdlMpduRxRunner_run_session e now our_address received slot s =
     (case received of
        Some (mpdu_buffer, corrected_timestamp) \<Rightarrow>
          (case process_frame e now our_address mpdu_buffer corrected_timestamp slot (as_common s, as_net s) of
             Inl p \<Rightarrow> Inl p
           | Inr (cr, n) \<Rightarrow> Inr (Ready (s\<lparr>as_common := cr, as_net := n\<rparr>)))
      | None \<Rightarrow>
          (case vs_wait (we_ndp e) (ndp_inject_signal (as_common s)) of
             Pending \<Rightarrow> Inr Pending
           | Ready (peer_address, sig) \<Rightarrow>
               (let cr = (as_common s)\<lparr>ndp_inject_signal := sig\<rparr>
                in Inr (Ready (s\<lparr>as_common := cr,
                     as_net := inject_neighbor e our_address peer_address slot (cr, as_net s)\<rparr>)))))"

section \<open>Transmission\<close>

definition find_ndp_solicit :: "awdl_codec \<Rightarrow> bytes \<Rightarrow> mac_address option" where
  "find_ndp_solicit ac ipv6_payload =
     (case ac_ipv6 ac ipv6_payload of
        None \<Rightarrow> None
      | Some (next_header, payload) \<Rightarrow>
          if next_header \<noteq> Icmpv6 then None
          else case ac_icmpv6 ac payload of
                 None \<Rightarrow> None
               | Some (msg_type, target_addr) \<Rightarrow>
                   if msg_type \<noteq> NeighborSolicit then None else Some (ipv6_to_hw_address target_addr))"

definition solicited_by :: "('ng, 'q, 'c, 'n) awdl_env \<Rightarrow> bytes \<Rightarrow> mac_address option" where
  "solicited_by e msdu =
     (if eth_type (we_eth e) msdu = ETH_IPV6 then find_ndp_solicit (we_codec e) (eth_payload (we_eth e) msdu) else None)"

text \<open>Up to the wait for a TX buffer: whether the frame is still to be sent.\<close>

definition transmit_frame_begin ::
  "('ng, 'q, 'c, 'n) awdl_env \<Rightarrow> bytes \<Rightarrow> ('sg, 'ng, 'q, 'c) common_resources \<Rightarrow>
     bool \<times> ('sg, 'ng, 'q, 'c) common_resources" where
  "transmit_frame_begin e msdu cr =
     (if \<not> eth_check_len (we_eth e) msdu then (False, cr)
      else case transmit_frame_check (we_cache e) (solicited_by e msdu) (eth_dst (we_eth e) msdu) cr of
             Some (InjectNeighbor peer_address) \<Rightarrow>
               (False, cr\<lparr>ndp_inject_signal := vs_signal (we_ndp e) (ndp_inject_signal cr) peer_address\<rparr>)
           | Some _ \<Rightarrow> (False, cr)
           | None \<Rightarrow> (True, cr))"

definition awdl_data_mpdu_of :: "ethernet_ops \<Rightarrow> bytes \<Rightarrow> u16 \<Rightarrow> awdl_data_mpdu" where
  "awdl_data_mpdu_of eo msdu sequence_number =
     \<lparr>mpdu_bssid = AWDL_BSSID, mpdu_source = eth_src eo msdu, mpdu_destination = eth_dst eo msdu,
      llc_oui = APPLE_OUI, llc_ether_type = 0x0800, awdl_ether_type = eth_type eo msdu,
      awdl_payload = eth_payload eo msdu, awdl_sequence_number = sequence_number\<rparr>"

definition transmit_frame_write ::
  "('ng, 'q, 'c, 'n) awdl_env \<Rightarrow> bytes \<Rightarrow> u16 \<Rightarrow> awdl_transmission list" where
  "transmit_frame_write e msdu sequence_number =
     (case ac_write_data (we_codec e) TX_BUFFER_SIZE (awdl_data_mpdu_of (we_eth e) msdu sequence_number) of
        None \<Rightarrow> []
      | Some b \<Rightarrow>
          [EdcaTransmission b \<lparr>rate = Mbits12\<rparr> (we_mac_default e) (RetryUntil 7)])"

text \<open>The end of a turn of the loop: the MSDU is done and the next one gets the next number.\<close>

definition msdu_done ::
  "('ng, 'q, 'c, 'n) awdl_env \<Rightarrow> awdl_transmission list \<Rightarrow> ('sg, 'ng, 'q, 'c, 'n) awdl_session \<Rightarrow>
     panic + ('sg, 'ng, 'q, 'c, 'n) awdl_session poll" where
  "msdu_done e sent s =
     (case next_sequence_number (as_sequence s) of
        Inl p \<Rightarrow> Inl p
      | Inr k \<Rightarrow>
          Inr (Ready (s\<lparr>as_sent := as_sent s @ sent, as_net := net_tx_done (we_net e) (as_net s), as_tx := TxIdle,
                        as_sequence := k\<rparr>)))"

definition AwdlMsduTxRunner_run_session ::
  "('ng, 'q, 'c, 'n) awdl_env \<Rightarrow> nat \<Rightarrow> bool \<Rightarrow> ('sg, 'ng, 'q, 'c, 'n) awdl_session \<Rightarrow>
     panic + ('sg, 'ng, 'q, 'c, 'n) awdl_session poll" where
  "AwdlMsduTxRunner_run_session e now tx_buffer_free s =
     (case as_tx s of
        TxIdle \<Rightarrow>
          (case net_tx_buf (we_net e) (as_net s) of
             None \<Rightarrow> Inr Pending
           | Some msdu \<Rightarrow>
               (let (continue, cr) = transmit_frame_begin e msdu (as_common s); s1 = s\<lparr>as_common := cr\<rparr>
                in if continue then Inr (Ready (s1\<lparr>as_tx := TxWaiting msdu\<rparr>)) else msdu_done e [] s1))
      | TxWaiting msdu \<Rightarrow>
          if \<not> tx_buffer_free then Inr Pending
          else (case transmit_frame_slot (we_tu e) now now now (we_cache e) (eth_dst (we_eth e) msdu) (as_common s) of
                  SendNow \<Rightarrow> msdu_done e (transmit_frame_write e msdu (as_sequence s)) s
                | SendAt t \<Rightarrow> Inr (Ready (s\<lparr>as_tx := TxScheduled msdu t\<rparr>))
                | _ \<Rightarrow> msdu_done e [] s)
      | TxScheduled msdu t \<Rightarrow>
          if now < t then Inr Pending else msdu_done e (transmit_frame_write e msdu (as_sequence s)) s)"

section \<open>Management\<close>

definition to_le_bytes_u32 :: "nat \<Rightarrow> bytes" where
  "to_le_bytes_u32 t = map (\<lambda>i. word_of_nat (t div 256 ^ i mod 256)) [0, 1, 2, 3]"

text \<open>The hook overwrites the PHY transmit time.\<close>

definition phy_time_hook :: "nat \<Rightarrow> bytes \<Rightarrow> bytes" where
  "phy_time_hook mac_time b = take 32 b @ to_le_bytes_u32 mac_time @ drop 36 b"

definition action_mpdu_of :: "mac_address \<Rightarrow> action_subtype \<Rightarrow> nat \<Rightarrow> awdl_action_frame \<Rightarrow> awdl_action_mpdu" where
  "action_mpdu_of address af_type mac_time tagged =
     \<lparr>action_receiver = replicate 6 255, action_transmitter = address, action_bssid = AWDL_BSSID,
      action_oui = APPLE_OUI, target_tx_time = mac_time, phy_tx_time = 0, af_subtype = af_type, tagged_data = tagged\<rparr>"

text \<open>The transmission itself is the oneshot of the beacon queue; here it is appended to the log.\<close>

definition log_oneshot ::
  "nat \<Rightarrow> awdl_rate tx_plcp_parameters \<Rightarrow> tx_mac_parameters \<Rightarrow> bytes \<Rightarrow> awdl_transmission list \<Rightarrow>
     (unit + unit) \<times> awdl_transmission list" where
  "log_oneshot iface plcp mac b sent = (Inr (), sent @ [BeaconTransmission iface b plcp mac])"

definition serialize_and_send_action_frame ::
  "('ng, 'q, 'c, 'n) awdl_env \<Rightarrow> nat \<Rightarrow> nat \<Rightarrow> nat \<Rightarrow> nat \<Rightarrow> mac_address \<Rightarrow> action_subtype \<Rightarrow>
     ('sg, 'ng, 'q, 'c) common_resources \<Rightarrow> awdl_transmission list \<Rightarrow> panic + awdl_transmission list" where
  "serialize_and_send_action_frame e iface now mac_time1 mac_time2 address af_type cr sent =
     (case our_action_frame (we_tu e) now 0 address cr of
        Inl p \<Rightarrow> Inl p
      | Inr tagged \<Rightarrow>
          (case ac_write_action (we_codec e) TX_BUFFER_SIZE (action_mpdu_of address af_type mac_time1 tagged) of
             None \<Rightarrow> Inl (Panic ''called `Result::unwrap()` on an `Err` value'')
           | Some b \<Rightarrow>
               if length b < 36 then Inl (Panic ''range end index 36 out of range for slice'')
               else (case transmit_beacon_with_hook log_oneshot False iface b \<lparr>rate = Mbits12\<rparr>
                            ((we_mac_default e)\<lparr>wait_for_ack := False, override_seq_num := True\<rparr>)
                            (phy_time_hook mac_time2) sent of
                       Pending \<Rightarrow> Inr sent
                     | Ready (_, sent') \<Rightarrow> Inr sent')))"

text \<open>Every turn of the loop sets the timer of the next MIF; the two tickers keep their deadlines.\<close>

definition arm_mif ::
  "('ng, 'q, 'c, 'n) awdl_env \<Rightarrow> nat \<Rightarrow> ('sg, 'ng, 'q, 'c, 'n) awdl_session \<Rightarrow> ('sg, 'ng, 'q, 'c, 'n) awdl_session" where
  "arm_mif e now s = s\<lparr>as_mif_deadline := mif_target_tx_time (we_tu e) now now (as_common s)\<rparr>"

definition AwdlManagementRunner_start ::
  "('ng, 'q, 'c, 'n) awdl_env \<Rightarrow> nat \<Rightarrow> ('sg, 'ng, 'q, 'c, 'n) awdl_session \<Rightarrow> ('sg, 'ng, 'q, 'c, 'n) awdl_session" where
  "AwdlManagementRunner_start e now s =
     arm_mif e now (s\<lparr>as_stale_deadline := now + 1000000, as_psf_deadline := now + 110 * we_tu e\<rparr>)"

definition AwdlManagementRunner_run_session ::
  "('ng, 'q, 'c, 'n) awdl_env \<Rightarrow> nat \<Rightarrow> nat \<Rightarrow> nat \<Rightarrow> nat \<Rightarrow> mac_address \<Rightarrow>
     ('sg, 'ng, 'q, 'c, 'n) awdl_session \<Rightarrow> panic + ('sg, 'ng, 'q, 'c, 'n) awdl_session poll" where
  "AwdlManagementRunner_run_session e iface now mac_time1 mac_time2 our_address s =
     (case wait_for_request (as_request s) of
        Ready _ \<Rightarrow> Inr (Ready (arm_mif e now (s\<lparr>as_request := reject (as_request s)\<rparr>)))
      | Pending \<Rightarrow>
      if as_stale_deadline s \<le> now
      then (case stale_peer_tick (we_cache e) (we_events e) now our_address (as_common s) of
              Inl p \<Rightarrow> Inl p
            | Inr cr \<Rightarrow>
                Inr (Ready (arm_mif e now (s\<lparr>as_common := cr,
                  as_stale_deadline := now + stale_peer_timeout (as_common s)\<rparr>))))
      else if as_psf_deadline s \<le> now
      then (case serialize_and_send_action_frame e iface now mac_time1 mac_time2 our_address PSF (as_common s) (as_sent s) of
              Inl p \<Rightarrow> Inl p
            | Inr sent \<Rightarrow>
                Inr (Ready (arm_mif e now (s\<lparr>as_sent := sent, as_psf_deadline := as_psf_deadline s + 110 * we_tu e\<rparr>))))
      else if as_mif_deadline s \<le> now
      then (case serialize_and_send_action_frame e iface now mac_time1 mac_time2 our_address MIF (as_common s) (as_sent s) of
              Inl p \<Rightarrow> Inl p
            | Inr sent \<Rightarrow> Inr (Ready (arm_mif e now (s\<lparr>as_sent := sent\<rparr>))))
      else Inr Pending)"

section \<open>What the codecs promise\<close>

text \<open>Writing a field of the Ethernet header changes this field only, and the three fields are
  the whole header.\<close>

definition header_written :: "ethernet_ops \<Rightarrow> bytes \<Rightarrow> bytes \<Rightarrow> mac_address \<Rightarrow> mac_address \<Rightarrow> u16 \<Rightarrow> bool" where
  "header_written eo b b' src dst ty \<longleftrightarrow>
     length b' = length b \<and> eth_payload eo b' = eth_payload eo b \<and>
     eth_src eo b' = src \<and> eth_dst eo b' = dst \<and> eth_type eo b' = ty"

definition ethernet_laws :: "ethernet_ops \<Rightarrow> bool" where
  "ethernet_laws eo \<longleftrightarrow>
     (\<forall>b. eth_check_len eo b \<longleftrightarrow> eth_header_len eo \<le> length b) \<and>
     (\<forall>b. eth_header_len eo \<le> length b \<longrightarrow> length (eth_src eo b) = 6 \<and> length (eth_dst eo b) = 6) \<and>
     (\<forall>a b. length a = 6 \<and> eth_header_len eo \<le> length b \<longrightarrow>
        header_written eo b (eth_set_src eo a b) a (eth_dst eo b) (eth_type eo b) \<and>
        header_written eo b (eth_set_dst eo a b) (eth_src eo b) a (eth_type eo b)) \<and>
     (\<forall>t b. eth_header_len eo \<le> length b \<longrightarrow>
        header_written eo b (eth_set_type eo t b) (eth_src eo b) (eth_dst eo b) t) \<and>
     (\<forall>b b'. eth_header_len eo \<le> length b \<and> eth_header_len eo \<le> length b' \<longrightarrow>
        (take (eth_header_len eo) b = take (eth_header_len eo) b' \<longleftrightarrow>
           eth_src eo b = eth_src eo b' \<and> eth_dst eo b = eth_dst eo b' \<and> eth_type eo b = eth_type eo b'))"

lemma ethernet_lawsD:
  assumes "ethernet_laws eo"
  shows "eth_check_len eo b \<longleftrightarrow> eth_header_len eo \<le> length b"
    and "eth_header_len eo \<le> length b \<Longrightarrow> length (eth_src eo b) = 6"
    and "eth_header_len eo \<le> length b \<Longrightarrow> length (eth_dst eo b) = 6"
    and "length a = 6 \<Longrightarrow> eth_header_len eo \<le> length b \<Longrightarrow>
      header_written eo b (eth_set_src eo a b) a (eth_dst eo b) (eth_type eo b)"
    and "length a = 6 \<Longrightarrow> eth_header_len eo \<le> length b \<Longrightarrow>
      header_written eo b (eth_set_dst eo a b) (eth_src eo b) a (eth_type eo b)"
    and "eth_header_len eo \<le> length b \<Longrightarrow>
      header_written eo b (eth_set_type eo t b) (eth_src eo b) (eth_dst eo b) t"
    and "eth_header_len eo \<le> length b \<Longrightarrow> eth_header_len eo \<le> length b' \<Longrightarrow>
      (take (eth_header_len eo) b = take (eth_header_len eo) b' \<longleftrightarrow>
         eth_src eo b = eth_src eo b' \<and> eth_dst eo b = eth_dst eo b' \<and> eth_type eo b = eth_type eo b')"
  using assms unfolding ethernet_laws_def by blast+

text \<open>A data frame that fits is written, and read back layer by layer.\<close>

definition data_codec_laws :: "awdl_codec \<Rightarrow> nat \<Rightarrow> bool" where
  "data_codec_laws ac overhead \<longleftrightarrow>
     (\<forall>n m. overhead + length (awdl_payload m) \<le> n \<longrightarrow> ac_write_data ac n m \<noteq> None) \<and>
     (\<forall>n m b. length (mpdu_source m) = 6 \<and> length (mpdu_destination m) = 6 \<and> length (mpdu_bssid m) = 6 \<and>
        length (llc_oui m) = 3 \<and> ac_write_data ac n m = Some b \<longrightarrow>
        (\<exists>f p q. ac_match ac b = Some (DataMpdu f) \<and> df_destination f = Some (mpdu_destination m) \<and>
           df_source f = Some (mpdu_source m) \<and> df_payload f = Some (SinglePayload p) \<and>
           ac_llc ac p = Some (llc_oui m, q) \<and> ac_data ac q = Some (awdl_ether_type m, awdl_payload m)))"

text \<open>The action frame \<open>m\<close> is written and read back, whatever PHY time is put into it; \<open>delta\<close>
  is what a reader takes as the transmit delay from the two times.\<close>

definition action_codec_ok :: "awdl_codec \<Rightarrow> (nat \<Rightarrow> nat \<Rightarrow> nat) \<Rightarrow> awdl_action_mpdu \<Rightarrow> bool" where
  "action_codec_ok ac delta m \<longleftrightarrow>
     (\<exists>b. ac_write_action ac TX_BUFFER_SIZE m = Some b \<and> 36 \<le> length b \<and>
        (\<forall>t. \<exists>p. ac_match ac (phy_time_hook t b) = Some (VendorAction (action_oui m) p (action_transmitter m)) \<and>
           ac_action ac p = Some (tagged_data m\<lparr>tx_delta := delta (target_tx_time m) (t mod 2 ^ 32)\<rparr>)))"

lemma action_codec_okD:
  assumes "action_codec_ok ac delta m"
  obtains b p where "ac_write_action ac TX_BUFFER_SIZE m = Some b" "36 \<le> length b"
    "ac_match ac (phy_time_hook t b) = Some (VendorAction (action_oui m) p (action_transmitter m))"
    "ac_action ac p = Some (tagged_data m\<lparr>tx_delta := delta (target_tx_time m) (t mod 2 ^ 32)\<rparr>)"
  using assms unfolding action_codec_ok_def by blast

lemma signal_wait:
  assumes "value_signal_laws pending sg" "pending s = Some v"
  obtains s' where "vs_wait sg s = Ready (v, s')" "pending s' = None"
proof -
  have "case pending s of None \<Rightarrow> vs_wait sg s = Pending | Some v \<Rightarrow> \<exists>s'. vs_wait sg s = Ready (v, s') \<and> pending s' = None"
    using assms(1) unfolding value_signal_laws_def by blast
  then show thesis using that assms(2) by auto
qed

section \<open>Ethernet frames\<close>

lemma serialize_ethernet_frame_same:
  assumes "ethernet_laws eo" "eth_header_len eo \<le> length msdu" "length msdu \<le> length buf"
  obtains b where "serialize_ethernet_frame eo buf (eth_src eo msdu) (eth_dst eo msdu) (eth_type eo msdu) (eth_payload eo msdu) =
      Some (length msdu, b)" "take (length msdu) b = msdu"
proof -
  note law = ethernet_lawsD [OF assms(1)]
  let ?h = "eth_header_len eo"
  define b1 where "b1 = eth_set_src eo (eth_src eo msdu) buf"
  define b2 where "b2 = eth_set_dst eo (eth_dst eo msdu) b1"
  define b3 where "b3 = eth_set_type eo (eth_type eo msdu) b2"
  have b1: "header_written eo buf b1 (eth_src eo msdu) (eth_dst eo buf) (eth_type eo buf)"
    unfolding b1_def using law(2,4) assms(2,3) by simp
  then have b2: "header_written eo b1 b2 (eth_src eo msdu) (eth_dst eo msdu) (eth_type eo buf)"
    unfolding b2_def using law(3,5) assms(2,3) by (simp add: header_written_def)
  then have b3: "header_written eo b2 b3 (eth_src eo msdu) (eth_dst eo msdu) (eth_type eo msdu)"
    unfolding b3_def using law(6) assms(2,3) b1 by (simp add: header_written_def)
  have len: "length b3 = length buf" using b1 b2 b3 by (simp add: header_written_def)
  then have head: "take ?h b3 = take ?h msdu" using law(7) [of b3 msdu] b3 assms(2,3) by (simp add: header_written_def)
  have "serialize_ethernet_frame eo buf (eth_src eo msdu) (eth_dst eo msdu) (eth_type eo msdu) (eth_payload eo msdu) =
      Some (length msdu, take ?h msdu @ drop ?h msdu @ drop (length msdu) b3)"
    using assms(2,3) len head
    by (simp add: serialize_ethernet_frame_def eth_payload_def Let_def flip: b1_def b2_def b3_def)
  moreover have "take (length msdu) (take ?h msdu @ drop ?h msdu @ drop (length msdu) b3) = msdu"
    using assms(2) by (simp flip: append_assoc)
  ultimately show thesis by (rule that)
qed

text \<open>What a data frame of a session delivers.\<close>

lemma process_frame_data:
  assumes "ethernet_laws (we_eth e)" "data_codec_laws (we_codec e) overhead"
    and "eth_header_len (we_eth e) \<le> length msdu" "length msdu \<le> length buf"
    and "ac_write_data (we_codec e) TX_BUFFER_SIZE (awdl_data_mpdu_of (we_eth e) msdu k) = Some b"
  shows "process_frame e now our b ts (Some buf) (cr, n) = Inr (cr, net_rx_done (we_net e) msdu n)"
proof -
  let ?m = "awdl_data_mpdu_of (we_eth e) msdu k"
  note law = ethernet_lawsD [OF assms(1)]
  have "length (mpdu_source ?m) = 6" "length (mpdu_destination ?m) = 6" "length (mpdu_bssid ?m) = 6" "length (llc_oui ?m) = 3"
    using law(2,3) [OF assms(3)] by (simp_all add: awdl_data_mpdu_of_def AWDL_BSSID_def APPLE_OUI_def)
  then obtain f p q where f: "ac_match (we_codec e) b = Some (DataMpdu f)" "df_destination f = Some (mpdu_destination ?m)"
      "df_source f = Some (mpdu_source ?m)" "df_payload f = Some (SinglePayload p)"
      "ac_llc (we_codec e) p = Some (llc_oui ?m, q)" "ac_data (we_codec e) q = Some (awdl_ether_type ?m, awdl_payload ?m)"
    using assms(2,5) unfolding data_codec_laws_def by meson
  obtain w where "serialize_ethernet_frame (we_eth e) buf (eth_src (we_eth e) msdu) (eth_dst (we_eth e) msdu)
      (eth_type (we_eth e) msdu) (eth_payload (we_eth e) msdu) = Some (length msdu, w)" "take (length msdu) w = msdu"
    by (rule serialize_ethernet_frame_same [OF assms(1,3,4)])
  then show ?thesis using f by (simp add: process_frame_def process_data_frame_def awdl_data_mpdu_of_def)
qed

section \<open>Codecs for the witnesses\<close>

definition list_ethernet :: ethernet_ops where
  "list_ethernet =
     \<lparr>eth_header_len = 14, eth_check_len = (\<lambda>b. 14 \<le> length b), eth_src = (\<lambda>b. take 6 (drop 6 b)), eth_dst = take 6,
      eth_type = (\<lambda>b. from_be16 (b ! 12) (b ! 13)), eth_set_src = (\<lambda>a b. take 6 b @ a @ drop 12 b),
      eth_set_dst = (\<lambda>a b. a @ drop 6 b), eth_set_type = (\<lambda>t b. take 12 b @ octets [t] @ drop 14 b)\<rparr>"

lemma from_be16_inject [simp]: "from_be16 h l = from_be16 h' l' \<longleftrightarrow> h = h' \<and> l = l'"
proof
  assume "from_be16 h l = from_be16 h' l'"
  then have "be16 h l = be16 h' l'" by (metis unat_from_be16)
  then have "unat h = unat h'" "unat l = unat l'" by (metis be16_split)+
  then show "h = h' \<and> l = l'" by (simp add: word_unat_eq_iff)
qed simp

lemma octets_one: "octets [from_be16 h l] = [h, l]"
  by (simp add: octets_def unat_from_be16)

lemma from_be16_surj: obtains h l where "t = from_be16 h l"
proof -
  have "unat t < 65536" using unsigned_less [of t] by simp
  then have "t = from_be16 (word_of_nat (unat t div 256)) (word_of_nat (unat t mod 256))"
    by (simp add: word_unat_eq_iff unat_from_be16 be16_def unat_of_nat)
  then show thesis by (rule that)
qed

lemma six_bytes: "length a = 6 \<longleftrightarrow> (\<exists>x0 x1 x2 x3 x4 x5. a = [x0, x1, x2, x3, x4, x5])"
  by (auto simp: numeral_eq_Suc length_Suc_conv)

lemma header_bytes: "14 \<le> length b \<longleftrightarrow>
    (\<exists>x0 x1 x2 x3 x4 x5 x6 x7 x8 x9 x10 x11 x12 x13 r. b = x0 # x1 # x2 # x3 # x4 # x5 # x6 # x7 # x8 # x9 # x10 # x11 # x12 # x13 # r)"
  by (auto simp: numeral_eq_Suc Suc_le_length_iff)

lemma list_ethernet_laws: "ethernet_laws list_ethernet"
proof -
  have set: "header_written list_ethernet b (eth_set_src list_ethernet a b) a (eth_dst list_ethernet b) (eth_type list_ethernet b)"
    "header_written list_ethernet b (eth_set_dst list_ethernet a b) (eth_src list_ethernet b) a (eth_type list_ethernet b)"
    if "length a = 6" "14 \<le> length b" for a b
    using that unfolding six_bytes header_bytes by (auto simp: header_written_def list_ethernet_def eth_payload_def)
  have ty: "header_written list_ethernet b (eth_set_type list_ethernet t b) (eth_src list_ethernet b) (eth_dst list_ethernet b) t"
    if "14 \<le> length b" for t b
    using that unfolding header_bytes
    by (rule_tac t = t in from_be16_surj) (auto simp: header_written_def list_ethernet_def eth_payload_def octets_one)
  have fields: "take 14 b = take 14 b' \<longleftrightarrow> eth_src list_ethernet b = eth_src list_ethernet b' \<and>
      eth_dst list_ethernet b = eth_dst list_ethernet b' \<and> eth_type list_ethernet b = eth_type list_ethernet b'"
    if "14 \<le> length b" "14 \<le> length b'" for b b'
    using that unfolding header_bytes by (auto simp: list_ethernet_def)
  have "eth_header_len list_ethernet = 14" "eth_check_len list_ethernet b \<longleftrightarrow> 14 \<le> length b"
    "14 \<le> length b \<Longrightarrow> length (eth_src list_ethernet b) = 6 \<and> length (eth_dst list_ethernet b) = 6" for b
    by (simp_all add: list_ethernet_def)
  then show ?thesis using set ty fields unfolding ethernet_laws_def by simp
qed

text \<open>A plain layout; every action frame is read as \<open>af\<close>.\<close>

definition plain_codec :: "awdl_action_frame \<Rightarrow> awdl_codec" where
  "plain_codec af =
     \<lparr>ac_write_data = (\<lambda>n m. if 26 + length (awdl_payload m) \<le> n
        then Some ([8] @ mpdu_destination m @ mpdu_source m @ mpdu_bssid m @ llc_oui m @ octets [llc_ether_type m] @
                   octets [awdl_ether_type m] @ awdl_payload m) else None),
      ac_write_action = (\<lambda>n m. Some ([0xd0] @ action_transmitter m @ replicate 30 0)),
      ac_match = (\<lambda>b. if b = [] then None
        else if hd b = 8 then Some (DataMpdu \<lparr>df_destination = Some (take 6 (drop 1 b)), df_source = Some (take 6 (drop 7 b)),
               df_payload = Some (SinglePayload (drop 19 b))\<rparr>)
        else if hd b = 0xd0 then Some (VendorAction APPLE_OUI [] (take 6 (drop 1 b))) else None),
      ac_action = (\<lambda>_. Some af), ac_llc = (\<lambda>p. Some (take 3 p, drop 5 p)),
      ac_data = (\<lambda>q. Some (from_be16 (q ! 0) (q ! 1), drop 2 q)),
      ac_ipv6 = (\<lambda>p. if p = [] then None else Some (if hd p = 58 then Icmpv6 else OtherProtocol (hd p), drop 1 p)),
      ac_icmpv6 = (\<lambda>p. if p = [] then None else
        Some (if hd p = 135 then NeighborSolicit else OtherMessage (hd p),
              map (\<lambda>i. from_be16 (p ! (2 * i + 1)) (p ! (2 * i + 2))) [0..<8])),
      ac_advert_len = (\<lambda>_. 72), ac_write_advert = (\<lambda>adv b. octets (adv_target adv) @ drop 16 b)\<rparr>"

lemma plain_codec_laws: "data_codec_laws (plain_codec af) 26"
proof -
  have "\<exists>f p q. ac_match (plain_codec af) b = Some (DataMpdu f) \<and> df_destination f = Some (mpdu_destination m) \<and>
      df_source f = Some (mpdu_source m) \<and> df_payload f = Some (SinglePayload p) \<and>
      ac_llc (plain_codec af) p = Some (llc_oui m, q) \<and> ac_data (plain_codec af) q = Some (awdl_ether_type m, awdl_payload m)"
    if len: "length (mpdu_source m) = 6" "length (mpdu_destination m) = 6" "length (mpdu_bssid m) = 6" "length (llc_oui m) = 3"
      and b: "ac_write_data (plain_codec af) n m = Some b" for n m b
  proof -
    obtain h l h' l' where t: "llc_ether_type m = from_be16 h l" "awdl_ether_type m = from_be16 h' l'"
      using from_be16_surj by metis
    then have "b = [8] @ mpdu_destination m @ mpdu_source m @ mpdu_bssid m @ llc_oui m @ [h, l] @ [h', l'] @ awdl_payload m"
      using b by (simp add: plain_codec_def octets_one split: if_splits)
    then show ?thesis using len by (simp add: plain_codec_def t)
  qed
  moreover have "26 + length (awdl_payload m) \<le> n \<longrightarrow> ac_write_data (plain_codec af) n m \<noteq> None" for n m
    by (simp add: plain_codec_def)
  ultimately show ?thesis unfolding data_codec_laws_def by blast
qed

definition sample_env ::
  "awdl_action_frame \<Rightarrow> (mac_address option, awdl_event list, peer_entry list, bytes list \<times> bytes list) awdl_env" where
  "sample_env af =
     \<lparr>we_tu = 1024, we_eth = list_ethernet, we_codec = plain_codec af, we_net = list_net, we_ndp = option_signal,
      we_events = list_channel 4, we_cache = DynamicAwdlPeerCache,
      we_mac_default = \<lparr>key_slot_index = None, wait_for_ack = True, override_seq_num = False\<rparr>\<rparr>"

lemma sample_env_simps [simp]:
  "we_tu (sample_env af) = 1024" "we_eth (sample_env af) = list_ethernet" "we_codec (sample_env af) = plain_codec af"
  "we_net (sample_env af) = list_net" "we_ndp (sample_env af) = option_signal" "we_events (sample_env af) = list_channel 4"
  "we_cache (sample_env af) = DynamicAwdlPeerCache"
  by (simp_all add: sample_env_def)

text \<open>The frame a neighbour injection delivers.\<close>

lemma inject_neighbor_frame:
  assumes "ethernet_laws (we_eth e)" "length a = 6" "length our = 6" "length buf = AWDL_MTU"
    and "eth_header_len (we_eth e) \<le> AWDL_MTU" and "is_peer_cached (we_cache e) a cr"
  obtains d x where "inject_neighbor e our a (Some buf) (cr, n) = net_rx_done (we_net e) d n"
    "eth_dst (we_eth e) d = our" "eth_src (we_eth e) d = a" "eth_type (we_eth e) d = 0x86dd"
    "length x = AWDL_MTU - eth_header_len (we_eth e)"
    "eth_payload (we_eth e) d = take (ac_advert_len (we_codec e) (neighbor_advert our a))
       (ac_write_advert (we_codec e) (neighbor_advert our a) x)"
proof -
  let ?eo = "we_eth e" and ?adv = "neighbor_advert our a"
  let ?h = "eth_header_len ?eo"
  note law = ethernet_lawsD [OF assms(1)]
  define b1 where "b1 = eth_set_dst ?eo our buf"
  define b2 where "b2 = eth_set_src ?eo a b1"
  define b3 where "b3 = eth_set_type ?eo 0x86dd b2"
  have b1: "header_written ?eo buf b1 (eth_src ?eo buf) our (eth_type ?eo buf)"
    unfolding b1_def using law(5) assms(3-5) by simp
  then have b2: "header_written ?eo b1 b2 a our (eth_type ?eo buf)"
    unfolding b2_def using law(4) [of a b1] assms(2,4,5) by (simp add: header_written_def)
  then have b3: "header_written ?eo b2 b3 a our 0x86dd"
    unfolding b3_def using law(6) [of b2] b1 assms(4,5) by (simp add: header_written_def)
  have len: "length b3 = AWDL_MTU" using b1 b2 b3 assms(4) by (simp add: header_written_def)
  define x where "x = eth_payload ?eo b3"
  define d where "d = take ?h b3 @ take (ac_advert_len (we_codec e) ?adv) (ac_write_advert (we_codec e) ?adv x)"
  have h: "?h \<le> length d" "take ?h d = take ?h b3" using len assms(5) by (simp_all add: d_def)
  have "eth_src ?eo d = eth_src ?eo b3 \<and> eth_dst ?eo d = eth_dst ?eo b3 \<and> eth_type ?eo d = eth_type ?eo b3"
    using law(7) [of d b3] h len assms(5) by simp
  moreover have "inject_neighbor e our a (Some buf) (cr, n) = net_rx_done (we_net e) d n"
    using assms(5,6) len by (simp add: inject_neighbor_def Let_def d_def x_def flip: b1_def b2_def b3_def)
  moreover have "length x = AWDL_MTU - ?h" using len by (simp add: x_def eth_payload_def)
  moreover have "eth_payload ?eo d = take (ac_advert_len (we_codec e) ?adv) (ac_write_advert (we_codec e) ?adv x)"
    using len assms(5) by (simp add: d_def eth_payload_def)
  ultimately show thesis using that b3 by (simp add: header_written_def)
qed

section \<open>Properties\<close>

lemma msdu_done_ok:
  "as_sequence s \<noteq> - 1 \<Longrightarrow> msdu_done e sent s =
     Inr (Ready (s\<lparr>as_sent := as_sent s @ sent, as_net := net_tx_done (we_net e) (as_net s), as_tx := TxIdle,
                   as_sequence := as_sequence s + 1\<rparr>))"
  by (simp add: msdu_done_def next_sequence_number_def checked_inc_def)

lemma transmit_frame_write_ok:
  assumes "data_codec_laws (we_codec e) overhead" "overhead \<le> 116" "length msdu \<le> AWDL_MTU"
  obtains b where "ac_write_data (we_codec e) TX_BUFFER_SIZE (awdl_data_mpdu_of (we_eth e) msdu k) = Some b"
    "transmit_frame_write e msdu k = [EdcaTransmission b \<lparr>rate = Mbits12\<rparr> (we_mac_default e) (RetryUntil 7)]"
proof -
  let ?m = "awdl_data_mpdu_of (we_eth e) msdu k"
  have "overhead + length (awdl_payload ?m) \<le> TX_BUFFER_SIZE"
    using assms(2,3) by (simp add: awdl_data_mpdu_of_def eth_payload_def AWDL_MTU_def TX_BUFFER_SIZE_def)
  then have "ac_write_data (we_codec e) TX_BUFFER_SIZE ?m \<noteq> None"
    using assms(1) unfolding data_codec_laws_def by blast
  then show thesis using that by (auto simp: transmit_frame_write_def)
qed

text \<open>
  C23: an MSDU survives the air. When the slot of a frame has come, the transmission runner sends
  one data frame and is free for the next MSDU; whoever receives that frame and has a buffer
  hands exactly the bytes of the sender's Ethernet frame to its network stack, for every frame
  up to the MTU.
\<close>

theorem awdl_msdu_roundtrip:
  assumes "ethernet_laws (we_eth e)" "data_codec_laws (we_codec e) overhead" "overhead \<le> 116"
    and "we_eth e' = we_eth e" "we_codec e' = we_codec e"
    and "eth_header_len (we_eth e) \<le> length msdu" "length msdu \<le> AWDL_MTU" "length buf = AWDL_MTU"
    and "(as_tx s = TxWaiting msdu \<and> free \<and>
            transmit_frame_slot (we_tu e) now now now (we_cache e) (eth_dst (we_eth e) msdu) (as_common s) = SendNow) \<or>
         (\<exists>t\<le>now. as_tx s = TxScheduled msdu t)"
    and "as_sequence s \<noteq> - 1"
  shows "\<exists>b s'. AwdlMsduTxRunner_run_session e now free s = Inr (Ready s') \<and> as_tx s' = TxIdle \<and>
           as_net s' = net_tx_done (we_net e) (as_net s) \<and>
           as_sent s' = as_sent s @ [EdcaTransmission b \<lparr>rate = Mbits12\<rparr> (we_mac_default e) (RetryUntil 7)] \<and>
           process_frame e' now' our b ts (Some buf) (cr, n) = Inr (cr, net_rx_done (we_net e') msdu n)"
proof -
  obtain b where b: "ac_write_data (we_codec e) TX_BUFFER_SIZE (awdl_data_mpdu_of (we_eth e) msdu (as_sequence s)) = Some b"
      "transmit_frame_write e msdu (as_sequence s) = [EdcaTransmission b \<lparr>rate = Mbits12\<rparr> (we_mac_default e) (RetryUntil 7)]"
    by (rule transmit_frame_write_ok [OF assms(2,3,7)])
  have "AwdlMsduTxRunner_run_session e now free s = msdu_done e (transmit_frame_write e msdu (as_sequence s)) s"
    using assms(9) by (auto simp: AwdlMsduTxRunner_run_session_def)
  moreover have "process_frame e' now' our b ts (Some buf) (cr, n) = Inr (cr, net_rx_done (we_net e') msdu n)"
    using assms b(1) by (intro process_frame_data) auto
  ultimately show ?thesis using assms(10) b(2) by (simp add: msdu_done_ok)
qed

definition idle_session ::
  "(awdl_state option, mac_address option, awdl_event list, peer_entry list, bytes list \<times> bytes list) awdl_session" where
  "idle_session =
     \<lparr>as_common = sample_resources, as_net = ([], []), as_sent = [], as_tx = TxIdle, as_sequence = 0,
      as_request = NotRequested, as_stale_deadline = 0, as_psf_deadline = 0, as_mif_deadline = 0\<rparr>"

definition no_action_frame :: awdl_action_frame where
  "no_action_frame =
     \<lparr>tx_delta = 0, af_channel_sequence = None, af_sync_params = None, af_election_v2 = None, af_election_v1 = None,
      af_services = [], af_data_path = None, af_raw_tlvs = [], af_version = None\<rparr>"

abbreviation plain_env :: "(mac_address option, awdl_event list, peer_entry list, bytes list \<times> bytes list) awdl_env" where
  "plain_env \<equiv> sample_env no_action_frame"

abbreviation (input) sample_msdu :: bytes where
  "sample_msdu \<equiv> replicate 20 3"

theorem awdl_msdu_roundtrip_witness:
  "\<exists>b s'. AwdlMsduTxRunner_run_session plain_env 7 False (idle_session\<lparr>as_tx := TxScheduled sample_msdu 7\<rparr>) = Inr (Ready s') \<and>
     as_sent s' = [EdcaTransmission b \<lparr>rate = Mbits12\<rparr> (we_mac_default plain_env) (RetryUntil 7)] \<and>
     process_frame plain_env 9 [2, 0, 0, 0, 0, 1] b 8 (Some (replicate AWDL_MTU 0)) (sample_resources, ([], [])) =
       Inr (sample_resources, ([], [sample_msdu]))"
proof -
  let ?s = "idle_session\<lparr>as_tx := TxScheduled sample_msdu 7\<rparr>"
  have s: "as_sequence ?s \<noteq> - 1" "\<exists>t\<le>7. as_tx ?s = TxScheduled sample_msdu t" "as_sent ?s = []"
    by (auto simp: idle_session_def)
  have h: "eth_header_len (we_eth plain_env) \<le> length sample_msdu" "length sample_msdu \<le> AWDL_MTU"
    by (simp_all add: list_ethernet_def AWDL_MTU_def)
  have n: "net_rx_done list_net sample_msdu ([], []) = ([], [sample_msdu])" by (simp add: list_net_def)
  show ?thesis
    using awdl_msdu_roundtrip [of plain_env 26 plain_env sample_msdu "replicate AWDL_MTU 0" ?s False 7 9
        "[2, 0, 0, 0, 0, 1]" 8 sample_resources "([], [])"]
      list_ethernet_laws plain_codec_laws [of no_action_frame] s h n by auto
qed


definition solicitation :: bytes where
  "solicitation = replicate 12 0 @ [0x86, 0xdd, 58, 135] @ octets (hw_address_to_ipv6 [2, 0, 0, 0, 0, 7])"


section \<open>Peers\<close>

lemma our_action_frame_delta:
  "our_action_frame TU now 0 address cr = Inr t \<Longrightarrow> our_action_frame TU now d address cr = Inr (t\<lparr>tx_delta := d\<rparr>)"
  by (auto simp: our_action_frame_def split: option.splits)

text \<open>An election on a cache whose peers are complete and not at the maximal distance.\<close>

definition peers_ok :: "('c, 'q) peer_cache_ops \<Rightarrow> 'c \<Rightarrow> bool" where
  "peers_ok pc c \<longleftrightarrow> (\<forall>a p. pc_get pc c a = Some p \<longrightarrow>
     has_counter (election_state p) \<and> distance_to_master (election_state p) \<noteq> - 1)"

lemma elect_master_total:
  assumes "peer_cache_contract pc valid" "valid (peer_cache cr)" "own_ok (cr_election_state cr)" "peers_ok pc (peer_cache cr)"
  shows "\<exists>cr'. elect_master pc our cr = Inr cr' \<and> peer_cache cr' = peer_cache cr"
proof -
  let ?e = "cr_election_state cr" and ?c = "peer_cache cr"
  have e: "has_counter ?e" using assms(3) by (simp add: own_ok_def has_counter_def)
  have ps: "\<forall>a p. pc_get pc ?c a = Some p \<longrightarrow> has_counter (election_state p)" using assms(4) by (simp add: peers_ok_def)
  obtain r where r: "find_master pc ?e our ?c = Inr r"
    using peer_cache_contract.find_master_total [OF assms(1,2)] by blast
  show ?thesis
  proof (cases r)
    case None
    then show ?thesis using r by (simp add: elect_master_def)
  next
    case (Some m)
    obtain a me ms where m: "m = (a, me, ms)" by (cases m)
    obtain p where "pc_get pc ?c a = Some p" "me = election_state p"
      using peer_cache_contract.find_master_Some [OF assms(1,2) e ps, of our a me ms] r Some m by blast
    then have "distance_to_master me \<noteq> - 1" using assms(4) by (simp add: peers_ok_def)
    then show ?thesis using r Some m by (simp add: elect_master_def elect_adopt_master_def checked_inc_def)
  qed
qed

lemma process_action_frame_adds:
  assumes "peer_cache_contract pc valid" "valid (peer_cache cr)" "session_ok cr" "peers_ok pc (peer_cache cr)"
    and "pc_get pc (peer_cache cr) a = None" "\<not> pc_is_full pc (peer_cache cr)"
    and "new_with_action_frame TU now af rx = Some p" "has_counter (election_state p)" "distance_to_master (election_state p) \<noteq> - 1"
  shows "\<exists>cr'. process_action_frame pc ch TU now our a af rx cr = Inr cr' \<and> pc_get pc (peer_cache cr') a = Some p"
proof -
  let ?c = "pc_insert pc (peer_cache cr) a p"
  let ?cr = "(raise_user_event ch (PeerDiscovered a) cr)\<lparr>peer_cache := ?c\<rparr>"
  have ins: "valid ?c" "pc_get pc ?c = (pc_get pc (peer_cache cr))(a \<mapsto> p)"
    using peer_cache_contract.insert [OF assms(1,2,6,5)] by simp_all
  have "own_ok (cr_election_state ?cr)" using assms(3) by (simp add: session_ok_def raise_user_event_def)
  moreover have "peers_ok pc ?c" using assms(4,8,9) ins(2) by (simp add: peers_ok_def)
  ultimately obtain cr' where "elect_master pc our ?cr = Inr cr'" "peer_cache cr' = ?c"
    using elect_master_total [OF assms(1), of ?cr our] ins(1) by auto
  moreover have "process_action_frame pc ch TU now our a af rx cr = elect_master pc our ?cr"
    using peer_cache_contract.get_mut_None [OF assms(1,2,5)] assms(6,7)
    by (simp add: process_action_frame_def modify_or_add_peer_def add_new_peer_def)
  ultimately show ?thesis using ins(2) by simp
qed


definition sample_tagged :: awdl_action_frame where
  "sample_tagged =
     (case our_action_frame 1024 70000 0 [2, 0, 0, 0, 0, 1] sample_resources of Inr t \<Rightarrow> t | Inl _ \<Rightarrow> no_action_frame)"

lemma sample_tagged_eq: "our_action_frame 1024 70000 0 [2, 0, 0, 0, 0, 1] sample_resources = Inr sample_tagged"
  using our_frame_heard [of sample_resources 1024 70000 0 "[2, 0, 0, 0, 0, 1]" 0 0]
  by (auto simp: sample_tagged_def CommonResources_new_def own_ok_def ElectionState_UNINIT_def ElectionState_new_def)


end
