(* ===== verification/Awdl_Interface.thy ===== *)
theory Awdl_Interface
  imports Awdl_Link
begin

text \<open>
  The AWDL interface as a whole: its control (\<open>foa_awdl/src/control.rs\<close>), its construction from a
  virtual interface (\<open>lib.rs\<close>) and the runner (\<open>runner/mod.rs\<close>) that lets the three session
  runners of \<open>Awdl_Link\<close> take turns. The runs of the interface refine the runs of the shared
  state in \<open>Awdl_State\<close>.
\<close>

section \<open>The interface and its control\<close>

datatype awdl_error = FailedToAcquireChannelLock

record awdl_control =
  ctl_interface :: nat
  ctl_channel :: u8
  ctl_mac_address :: mac_address

record ('c, 'fl, 'sg, 'ng, 'q, 'pc, 'n) awdl_interface =
  ai_channel :: "'c channel_state"
  ai_filters :: 'fl
  ai_control :: awdl_control
  ai_runner :: awdl_runner
  ai_session :: "('sg, 'ng, 'q, 'pc, 'n) awdl_session"

text \<open>What the control uses of the lower MAC: the number of interfaces, the radio and the filters;
  and the signal to the runner.\<close>

record ('c, 'm, 'fl, 'sg) control_env =
  ce_interfaces :: nat
  ce_radio :: "('c, 'm) radio_ops"
  ce_filters :: "'fl filter_ops"
  ce_signal :: "('sg, awdl_state) value_signal_ops"

definition map_common ::
  "(('sg, 'ng, 'q, 'pc) common_resources \<Rightarrow> ('sg, 'ng, 'q, 'pc) common_resources) \<Rightarrow>
     ('c, 'fl, 'sg, 'ng, 'q, 'pc, 'n) awdl_interface \<Rightarrow> ('c, 'fl, 'sg, 'ng, 'q, 'pc, 'n) awdl_interface" where
  "map_common f s = s\<lparr>ai_session := (ai_session s)\<lparr>as_common := f (as_common (ai_session s))\<rparr>\<rparr>"

definition enable_filters :: "'fl filter_ops \<Rightarrow> awdl_control \<Rightarrow> 'fl \<Rightarrow> 'fl" where
  "enable_filters fo ctl fl =
     driver_set_filter fo ReceiverAddress (ctl_mac_address ctl) (driver_set_filter fo BssidBank AWDL_BSSID fl)"

definition disable_filters :: "'fl filter_ops \<Rightarrow> 'fl \<Rightarrow> 'fl" where
  "disable_filters fo fl = driver_clear_filter fo ReceiverAddress (driver_clear_filter fo BssidBank fl)"

definition signal_awdl_state ::
  "('sg, awdl_state) value_signal_ops \<Rightarrow> awdl_state \<Rightarrow> ('sg, 'ng, 'q, 'pc) common_resources \<Rightarrow>
     ('sg, 'ng, 'q, 'pc) common_resources" where
  "signal_awdl_state sg v cr = cr\<lparr>state_signal := vs_signal sg (state_signal cr) v\<rparr>"

text \<open>The part of \<open>start\<close> after the wait: from there on it cannot be cancelled any more.\<close>

definition AwdlControl_start_finish ::
  "('c, 'm, 'fl, 'sg) control_env \<Rightarrow> ('c, 'fl, 'sg, 'ng, 'q, 'pc, 'n) awdl_interface \<Rightarrow>
     ('c, 'fl, 'sg, 'ng, 'q, 'pc, 'n) awdl_interface" where
  "AwdlControl_start_finish ce s =
     (let ctl = ai_control s;
          s1 = s\<lparr>ai_filters := enable_filters (ce_filters ce) ctl (ai_filters s)\<rparr>;
          s2 = map_common (signal_awdl_state (ce_signal ce) (Active (ctl_mac_address ctl) (ctl_channel ctl))) s1
      in s2\<lparr>ai_channel := InterfaceBringupOperation_complete (ctl_interface ctl) (ai_channel s2)\<rparr>)"

text \<open>\<open>watch\<close> is what the completion watch answers, if it is asked.\<close>

definition AwdlControl_start ::
  "('c, 'm, 'fl, 'sg) control_env \<Rightarrow> unit poll \<Rightarrow> ('c, 'fl, 'sg, 'ng, 'q, 'pc, 'n) awdl_interface \<Rightarrow>
     (awdl_error + unit) poll \<times> ('c, 'fl, 'sg, 'ng, 'q, 'pc, 'n) awdl_interface" where
  "AwdlControl_start ce watch s =
     (let ctl = ai_control s
      in case begin_interface_bringup_operation (ce_interfaces ce) (ce_radio ce) (ctl_interface ctl) (ctl_channel ctl)
                (ai_channel s) of
           (Inl _, cs) \<Rightarrow> (Ready (Inl FailedToAcquireChannelLock), s\<lparr>ai_channel := cs\<rparr>)
         | (Inr _, cs) \<Rightarrow>
             (case wait_for_off_channel_completion (\<lambda>_. watch) cs () of
                Pending \<Rightarrow> (Pending, s\<lparr>ai_channel := cs\<rparr>)
              | Ready _ \<Rightarrow> (Ready (Inr ()), AwdlControl_start_finish ce (s\<lparr>ai_channel := cs\<rparr>))))"

text \<open>Dropping the future of a waiting \<open>start\<close> drops its bringup operation.\<close>

definition AwdlControl_start_cancelled ::
  "('c, 'm, 'fl, 'sg) control_env \<Rightarrow> ('c, 'fl, 'sg, 'ng, 'q, 'pc, 'n) awdl_interface \<Rightarrow>
     ('c, 'fl, 'sg, 'ng, 'q, 'pc, 'n) awdl_interface" where
  "AwdlControl_start_cancelled ce s =
     s\<lparr>ai_channel := InterfaceBringupOperation_drop (ce_interfaces ce) (ctl_interface (ai_control s)) (ai_channel s)\<rparr>"

definition AwdlControl_stop ::
  "('c, 'm, 'fl, 'sg) control_env \<Rightarrow> ('c, 'fl, 'sg, 'ng, 'q, 'pc, 'n) awdl_interface \<Rightarrow>
     ('c, 'fl, 'sg, 'ng, 'q, 'pc, 'n) awdl_interface" where
  "AwdlControl_stop ce s =
     (let s1 = s\<lparr>ai_channel := unlock_channel (ce_interfaces ce) (ctl_interface (ai_control s)) (ai_channel s)\<rparr>;
          s2 = s1\<lparr>ai_filters := disable_filters (ce_filters ce) (ai_filters s1)\<rparr>
      in map_common (signal_awdl_state (ce_signal ce) Inactive) s2)"

definition set_peer_stale_timeout ::
  "nat \<Rightarrow> ('c, 'fl, 'sg, 'ng, 'q, 'pc, 'n) awdl_interface \<Rightarrow> ('c, 'fl, 'sg, 'ng, 'q, 'pc, 'n) awdl_interface" where
  "set_peer_stale_timeout timeout s = map_common (\<lambda>cr. cr\<lparr>stale_peer_timeout := timeout\<rparr>) s"

definition AwdlControl_set_mac_address :: "mac_address \<Rightarrow> awdl_control \<Rightarrow> awdl_control" where
  "AwdlControl_set_mac_address a ctl = ctl\<lparr>ctl_mac_address := a\<rparr>"

definition AwdlControl_randomize_mac_address :: "bytes \<Rightarrow> awdl_control \<Rightarrow> mac_address \<times> awdl_control" where
  "AwdlControl_randomize_mac_address rng ctl =
     (let a = random_mac_address rng in (a, AwdlControl_set_mac_address a ctl))"

definition own_ipv6_addr :: "awdl_control \<Rightarrow> u16 list" where
  "own_ipv6_addr ctl = hw_address_to_ipv6 (ctl_mac_address ctl)"

text \<open>The closure is called for every peer in turn, and may change the state it captures.\<close>

definition AwdlControl_inspect_peers ::
  "('pc, 'q) peer_cache_ops \<Rightarrow> (peer_entry \<Rightarrow> 'z \<Rightarrow> 'z) \<Rightarrow> ('sg, 'ng, 'q, 'pc) common_resources \<Rightarrow> 'z \<Rightarrow> 'z" where
  "AwdlControl_inspect_peers pc f cr z = fold f (pc_iter pc (peer_cache cr)) z"

section \<open>The runner\<close>

definition AwdlRunner_new :: "('sg, 'ng, 'q, 'pc) common_resources \<Rightarrow> 'n \<Rightarrow> off_channel_request_state \<Rightarrow> ('sg, 'ng, 'q, 'pc, 'n) awdl_session" where
  "AwdlRunner_new cr net requested =
     \<lparr>as_common = cr, as_net = net, as_sent = [], as_tx = TxIdle, as_sequence = 0, as_request = requested,
      as_stale_deadline = 0, as_psf_deadline = 0, as_mif_deadline = 0\<rparr>"

text \<open>Outside a session: take up a state, or begin the session of an active one. The three session
  runners start over.\<close>

definition AwdlRunner_begin ::
  "('ng, 'q, 'pc, 'n) awdl_env \<Rightarrow> ('sg, awdl_state) value_signal_ops \<Rightarrow> nat \<Rightarrow>
     ('c, 'fl, 'sg, 'ng, 'q, 'pc, 'n) awdl_interface \<Rightarrow> ('c, 'fl, 'sg, 'ng, 'q, 'pc, 'n) awdl_interface poll" where
  "AwdlRunner_begin e sg now s =
     (let ses = ai_session s
      in case runner_idle sg (we_ndp e) (we_events e) now (ai_runner s, as_common ses) of
           Pending \<Rightarrow> Pending
         | Ready (r, cr) \<Rightarrow>
             Ready (s\<lparr>ai_runner := r,
               ai_session :=
                 (case (in_session r, hardware_address r) of
                    (True, Some our_address) \<Rightarrow>
                      AwdlManagementRunner_start e now (ses\<lparr>as_common := cr,
                        as_net := net_set_link (we_net e) True (net_set_address (we_net e) our_address (as_net ses)),
                        as_tx := TxIdle, as_sequence := 0\<rparr>)
                  | _ \<Rightarrow> ses\<lparr>as_common := cr\<rparr>)\<rparr>))"

definition AwdlRunner_end ::
  "('ng, 'q, 'pc, 'n) awdl_env \<Rightarrow> ('sg, awdl_state) value_signal_ops \<Rightarrow>
     ('c, 'fl, 'sg, 'ng, 'q, 'pc, 'n) awdl_interface \<Rightarrow> ('c, 'fl, 'sg, 'ng, 'q, 'pc, 'n) awdl_interface poll" where
  "AwdlRunner_end e sg s =
     (let ses = ai_session s
      in case runner_session_end sg (we_cache e) (ai_runner s, as_common ses) of
           Pending \<Rightarrow> Pending
         | Ready (r, cr) \<Rightarrow>
             Ready (s\<lparr>ai_runner := r,
               ai_session := ses\<lparr>as_common := cr, as_net := net_set_link (we_net e) False (as_net ses)\<rparr>\<rparr>))"

section \<open>Construction\<close>

definition new_awdl_interface ::
  "('c, 'm, 'fl, 'sg) control_env \<Rightarrow> ('rq, 'a) channel_ops \<Rightarrow> mac_address \<Rightarrow> ('sg, 'ng, 'q, 'pc) common_resources \<Rightarrow>
     (mac_address \<Rightarrow> 'n) \<Rightarrow> off_channel_request_state \<Rightarrow> virtual_interface \<Rightarrow> ('c, 'rq, 'fl) interface_state \<Rightarrow>
     panic + ('c, 'fl, 'sg, 'ng, 'q, 'pc, 'n) awdl_interface \<times> 'rq rx_queues" where
  "new_awdl_interface ce rch base cr new_net requested v s =
     (let s1 = VirtualInterface_reset (ce_interfaces ce) rch (ce_radio ce) (ce_filters ce) v s;
          ((iface, _, _), queues) = VirtualInterface_split v (if_queues s1)
      in case get_factory_mac_for_interface base iface of
           Inl p \<Rightarrow> Inl p
         | Inr mac \<Rightarrow>
             Inr (\<lparr>ai_channel = if_channel s1, ai_filters = driver_set_filter (ce_filters ce) BssidBank AWDL_BSSID (if_filters s1),
                   ai_control = \<lparr>ctl_interface = iface, ctl_channel = 6, ctl_mac_address = mac\<rparr>,
                   ai_runner = runner_init, ai_session = AwdlRunner_new cr (new_net mac) requested\<rparr>, queues))"

section \<open>Starting and stopping\<close>

text \<open>A bringup is refused when another interface holds a different channel, and otherwise holds
  the requested one.\<close>

lemma bringup_cases:
  assumes "channel_driver valid current ro" "locks_ok I (locks cs)" "i < I" "ch \<in> valid"
    and "begin_interface_bringup_operation I ro i ch cs = (g, cs')"
  obtains (refused) err j where "g = Inl err" "cs' = cs" "j < I" "j \<noteq> i" "holds_lock j cs" "home_channel cs \<noteq> Some ch"
    | (locked) "g = Inr i" "holds_lock i cs'" "home_channel cs' = Some ch" "locks_ok I (locks cs')"
        "off_channel_operation_interface cs' = off_channel_operation_interface cs"
proof -
  obtain r where r: "lock_channel I ro i ch cs = (r, cs')" "g = (case r of Inl x \<Rightarrow> Inl x | Inr _ \<Rightarrow> Inr i)"
    using assms(5) by (auto simp: begin_interface_bringup_operation_def lock_channel_def split: prod.splits sum.splits)
  from assms(1) r(1) show thesis
  proof (cases rule: lock_channel_cases)
    case (refused e)
    obtain ls c j where "locks cs = Some (ls, c)" "c \<noteq> ch" "j < I" "j \<noteq> i" "ls ! j"
      using lock_decision_error [OF assms(2,3) refused(1)] by blast
    then show ?thesis using refused r(2) that(1) [of e j] by (simp add: holds_lock_def home_channel_def)
  next
    case (same lk)
    then show ?thesis using lock_decision_ok [OF assms(2,3) same(1)] r(2) that(2)
      by (cases lk) (simp add: holds_lock_def home_channel_def)
  next
    case (tuned lk c)
    then show ?thesis using lock_decision_ok [OF assms(2,3) tuned(1)] r(2) that(2)
      by (cases lk) (simp add: holds_lock_def home_channel_def)
  qed (use assms(4) in simp)
qed

definition pending_state ::
  "('sg \<Rightarrow> awdl_state option) \<Rightarrow> ('c, 'fl, 'sg, 'ng, 'q, 'pc, 'n) awdl_interface \<Rightarrow> awdl_state option" where
  "pending_state pending s = pending (state_signal (as_common (ai_session s)))"


text \<open>
  Stopping the interface releases everything: the channel lock is given back without touching
  the lock of another interface, both filters are cleared, and the runner is told to end the
  session, whatever state the interface was in.
\<close>

theorem awdl_stop_releases:
  assumes "filter_laws view (ce_filters ce)" "value_signal_laws pending (ce_signal ce)"
    and "locks_ok (ce_interfaces ce) (locks (ai_channel s))" "ctl_interface (ai_control s) < ce_interfaces ce" "j < ce_interfaces ce"
  shows "(holds_lock j (ai_channel (AwdlControl_stop ce s)) \<longleftrightarrow> j \<noteq> ctl_interface (ai_control s) \<and> holds_lock j (ai_channel s)) \<and>
         view (ai_filters (AwdlControl_stop ce s)) = (view (ai_filters s))(BssidBank := None, ReceiverAddress := None) \<and>
         pending_state pending (AwdlControl_stop ce s) = Some Inactive"
  using assms(2) unlock_channel_locks(2) [OF assms(3-5)] filter_lawsD [OF assms(1)]
  by (simp add: AwdlControl_stop_def map_common_def disable_filters_def signal_awdl_state_def pending_state_def
      value_signal_laws_def unlock_channel_def unlock_channel_internal_def Let_def)

definition sample_control :: "(u8, unit, filter_bank \<Rightarrow> mac_address option, awdl_state option) control_env" where
  "sample_control = \<lparr>ce_interfaces = 2, ce_radio = plain_radio, ce_filters = map_filters, ce_signal = option_signal\<rparr>"

definition sample_awdl ::
  "(u8, filter_bank \<Rightarrow> mac_address option, awdl_state option, mac_address option, awdl_event list, peer_entry list,
    bytes list \<times> bytes list) awdl_interface" where
  "sample_awdl =
     \<lparr>ai_channel = ChannelState_new 1, ai_filters = (\<lambda>_. None),
      ai_control = \<lparr>ctl_interface = 1, ctl_channel = 6, ctl_mac_address = [2, 0, 0, 0, 0, 1]\<rparr>,
      ai_runner = runner_init, ai_session = idle_session\<rparr>"

lemma sample_control_simps [simp]:
  "ce_interfaces sample_control = 2" "ce_radio sample_control = plain_radio" "ce_filters sample_control = map_filters"
  "ce_signal sample_control = option_signal"
  by (simp_all add: sample_control_def)

lemma sample_awdl_simps [simp]:
  "ai_channel sample_awdl = ChannelState_new 1" "ctl_interface (ai_control sample_awdl) = 1"
  "ctl_channel (ai_control sample_awdl) = 6" "ctl_mac_address (ai_control sample_awdl) = [2, 0, 0, 0, 0, 1]"
  by (simp_all add: sample_awdl_def)


theorem awdl_stop_releases_witness:
  "let s' = AwdlControl_stop sample_control
         (sample_awdl\<lparr>ai_channel := \<lparr>locks = Some ([True, True], 6), off_channel_operation_interface = None, channel_controller = 6\<rparr>\<rparr>)
   in \<not> holds_lock 1 (ai_channel s') \<and> holds_lock 0 (ai_channel s') \<and> ai_filters s' BssidBank = None"
proof -
  let ?s = "sample_awdl\<lparr>ai_channel := \<lparr>locks = Some ([True, True], 6), off_channel_operation_interface = None, channel_controller = 6\<rparr>\<rparr>"
  have "filter_laws (\<lambda>s. s) (ce_filters sample_control)" "value_signal_laws (\<lambda>s. s) (ce_signal sample_control)"
    using map_filters_laws option_signal_laws by simp_all
  moreover have "locks_ok (ce_interfaces sample_control) (locks (ai_channel ?s))" "ctl_interface (ai_control ?s) < ce_interfaces sample_control"
    by (simp_all add: locks_ok_def)
  ultimately have l: "holds_lock j (ai_channel (AwdlControl_stop sample_control ?s)) \<longleftrightarrow> j \<noteq> 1 \<and> holds_lock j (ai_channel ?s)"
    and f: "ai_filters (AwdlControl_stop sample_control ?s) BssidBank = None" if "j < 2" for j
    using awdl_stop_releases [of "\<lambda>s. s" sample_control "\<lambda>s. s" ?s j] that by simp_all
  show ?thesis using l [of 0] l [of 1] f [of 0] by (simp add: holds_lock_def)
qed

section \<open>Runs of the interface\<close>

text \<open>
  The control and the user act at any time, the lower MAC and the network stack change under the
  interface, and in a session the three runners take turns.
\<close>

inductive awdl_system ::
  "('ng, 'q, 'pc, 'n) awdl_env \<Rightarrow> ('c, 'm, 'fl, 'sg) control_env \<Rightarrow> ('rq, 'a) channel_ops \<Rightarrow>
     ('c, 'fl, 'sg, 'ng, 'q, 'pc, 'n) awdl_interface \<Rightarrow> bool"
  for e ce rch where
  sys_new: "new_awdl_interface ce rch base (CommonResources_new (ce_signal ce) (we_ndp e) (we_events e) (we_cache e))
      new_net requested v s0 = Inr (s, queues) \<Longrightarrow> awdl_system e ce rch s"
| sys_start: "awdl_system e ce rch s \<Longrightarrow> AwdlControl_start ce watch s = (r, s') \<Longrightarrow> awdl_system e ce rch s'"
| sys_resumed: "awdl_system e ce rch s \<Longrightarrow> awdl_system e ce rch (AwdlControl_start_finish ce s)"
| sys_cancelled: "awdl_system e ce rch s \<Longrightarrow> awdl_system e ce rch (AwdlControl_start_cancelled ce s)"
| sys_stop: "awdl_system e ce rch s \<Longrightarrow> awdl_system e ce rch (AwdlControl_stop ce s)"
| sys_timeout: "awdl_system e ce rch s \<Longrightarrow> awdl_system e ce rch (set_peer_stale_timeout t s)"
| sys_address: "awdl_system e ce rch s \<Longrightarrow> awdl_system e ce rch (s\<lparr>ai_control := AwdlControl_set_mac_address a (ai_control s)\<rparr>)"
| sys_event: "awdl_system e ce rch s \<Longrightarrow> ch_try_receive (we_events e) (event_queue (as_common (ai_session s))) = Some (ev, q) \<Longrightarrow>
    awdl_system e ce rch (map_common (\<lambda>cr. cr\<lparr>event_queue := q\<rparr>) s)"
| sys_outside: "awdl_system e ce rch s \<Longrightarrow>
    awdl_system e ce rch (s\<lparr>ai_channel := cs, ai_session := (ai_session s)\<lparr>as_net := n, as_request := requested\<rparr>\<rparr>)"
| sys_begin: "awdl_system e ce rch s \<Longrightarrow> \<not> in_session (ai_runner s) \<Longrightarrow> AwdlRunner_begin e (ce_signal ce) now s = Ready s' \<Longrightarrow>
    awdl_system e ce rch s'"
| sys_end: "awdl_system e ce rch s \<Longrightarrow> in_session (ai_runner s) \<Longrightarrow> AwdlRunner_end e (ce_signal ce) s = Ready s' \<Longrightarrow>
    awdl_system e ce rch s'"
| sys_rx: "awdl_system e ce rch s \<Longrightarrow> in_session (ai_runner s) \<Longrightarrow> runner_state (ai_runner s) = Active our channel \<Longrightarrow>
    AwdlMpduRxRunner_run_session e now our received slot (ai_session s) = Inr (Ready ses) \<Longrightarrow>
    awdl_system e ce rch (s\<lparr>ai_session := ses\<rparr>)"
| sys_tx: "awdl_system e ce rch s \<Longrightarrow> in_session (ai_runner s) \<Longrightarrow>
    AwdlMsduTxRunner_run_session e now free (ai_session s) = Inr (Ready ses) \<Longrightarrow> awdl_system e ce rch (s\<lparr>ai_session := ses\<rparr>)"
| sys_management: "awdl_system e ce rch s \<Longrightarrow> in_session (ai_runner s) \<Longrightarrow> runner_state (ai_runner s) = Active our channel \<Longrightarrow>
    AwdlManagementRunner_run_session e (ctl_interface (ai_control s)) now t1 t2 our (ai_session s) = Inr (Ready ses) \<Longrightarrow>
    awdl_system e ce rch (s\<lparr>ai_session := ses\<rparr>)"

text \<open>What a turn of a session runner does to the shared state.\<close>

lemma ndp_same: "\<exists>ns. cr = cr\<lparr>ndp_inject_signal := ns\<rparr>"
  by (rule exI [of _ "ndp_inject_signal cr"]) simp

lemma tx_session_common:
  assumes "AwdlMsduTxRunner_run_session e now free s = Inr (Ready s')"
  shows "\<exists>ns. as_common s' = (as_common s)\<lparr>ndp_inject_signal := ns\<rparr>"
proof -
  have "\<exists>ns. snd (transmit_frame_begin e msdu cr) = cr\<lparr>ndp_inject_signal := ns\<rparr>" for msdu cr
    by (auto simp: transmit_frame_begin_def ndp_same split: option.splits msdu_outcome.splits)
  moreover have "msdu_done e sent t = Inr (Ready s') \<Longrightarrow> as_common s' = as_common t" for sent t
    by (auto simp: msdu_done_def split: sum.splits)
  ultimately show ?thesis
    using assms
    by (auto simp: AwdlMsduTxRunner_run_session_def case_prod_beta Let_def ndp_same
        split: tx_progress.splits option.splits if_splits msdu_outcome.splits)
qed

lemma rx_session_common:
  assumes "AwdlMpduRxRunner_run_session e now our received slot s = Inr (Ready s')"
  shows "(\<exists>ns. as_common s' = (as_common s)\<lparr>ndp_inject_signal := ns\<rparr>) \<or>
    (\<exists>a af rx. process_action_frame (we_cache e) (we_events e) (we_tu e) now our a af rx (as_common s) = Inr (as_common s'))"
  using assms
  by (auto simp: AwdlMpduRxRunner_run_session_def process_frame_def Let_def ndp_same
      split: option.splits sum.splits poll.splits awdl_mpdu.splits if_splits)

lemma management_session_common:
  assumes "AwdlManagementRunner_run_session e iface now t1 t2 our s = Inr (Ready s')"
  shows "as_common s' = as_common s \<or>
    stale_peer_tick (we_cache e) (we_events e) now our (as_common s) = Inr (as_common s')"
  using assms
  by (auto simp: AwdlManagementRunner_run_session_def arm_mif_def split: sum.splits poll.splits if_splits)

lemma awdl_system_run:
  assumes "awdl_system e ce rch s"
  shows "awdl_run (ce_signal ce) (we_ndp e) (we_events e) (we_cache e) (we_tu e) (ai_runner s) (as_common (ai_session s))"
  using assms
proof (induction rule: awdl_system.induct)
  case (sys_new base new_net requested v s0 s queues)
  then have "ai_runner s = runner_init"
    "as_common (ai_session s) = CommonResources_new (ce_signal ce) (we_ndp e) (we_events e) (we_cache e)"
    by (auto simp: new_awdl_interface_def AwdlRunner_new_def Let_def VirtualInterface_split_def split: sum.splits)
  then show ?case by (simp add: awdl_start)
next
  case (sys_start s watch r s')
  have signal: "as_common (ai_session s') = as_common (ai_session s) \<or>
      (\<exists>v. as_common (ai_session s') = (as_common (ai_session s))
         \<lparr>state_signal := vs_signal (ce_signal ce) (state_signal (as_common (ai_session s))) v\<rparr>)" "ai_runner s' = ai_runner s"
    using sys_start(2) by (auto simp: AwdlControl_start_def AwdlControl_start_finish_def map_common_def signal_awdl_state_def Let_def
        split: prod.splits sum.splits poll.splits)
  then show ?case using sys_start(3) awdl_signal by fastforce
next
  case (sys_begin s now s')
  have "runner_idle (ce_signal ce) (we_ndp e) (we_events e) now (ai_runner s, as_common (ai_session s)) =
      Ready (ai_runner s', as_common (ai_session s'))"
    using sys_begin(3) by (auto simp: AwdlRunner_begin_def AwdlManagementRunner_start_def arm_mif_def Let_def
        split: poll.splits option.splits bool.splits)
  then show ?case using sys_begin(2,4) by (blast intro: awdl_idle)
next
  case (sys_end s s')
  have "runner_session_end (ce_signal ce) (we_cache e) (ai_runner s, as_common (ai_session s)) =
      Ready (ai_runner s', as_common (ai_session s'))"
    using sys_end(3) by (auto simp: AwdlRunner_end_def Let_def split: poll.splits)
  then show ?case using sys_end(2,4) by (blast intro: awdl_end)
next
  case (sys_rx s our channel now received slot ses)
  then show ?case using rx_session_common [OF sys_rx(4)] by (auto intro: awdl_ndp awdl_frame)
next
  case (sys_tx s now free ses)
  then show ?case using tx_session_common [OF sys_tx(3)] by (auto intro: awdl_ndp)
next
  case (sys_management s our channel now t1 t2 ses)
  then show ?case using management_session_common [OF sys_management(4)] by (auto intro: awdl_tick)
next
  case (sys_event s ev q)
  then show ?case by (auto simp: map_common_def intro: awdl_event)
qed (simp_all add: AwdlControl_start_finish_def AwdlControl_start_cancelled_def AwdlControl_stop_def set_peer_stale_timeout_def
    map_common_def signal_awdl_state_def awdl_signal awdl_timeout Let_def)

text \<open>
  C28: the interface refines the shared state. Whatever the user, the radio and the network stack
  do, and in whatever order the runners take their turns, the state the runners share and the
  runner itself only take steps of the runs of the shared state; so no peer is cached outside a
  session, the network stack sees the link exactly during one, and the action frames of the
  session can always be built.
\<close>

theorem awdl_interface_refines:
  assumes "peer_cache_contract (we_cache e) valid" "awdl_system e ce rch s"
  shows "awdl_run (ce_signal ce) (we_ndp e) (we_events e) (we_cache e) (we_tu e) (ai_runner s) (as_common (ai_session s)) \<and>
         (\<not> in_session (ai_runner s) \<longrightarrow> (\<forall>a. pc_get (we_cache e) (peer_cache (as_common (ai_session s))) a = None)) \<and>
         (link_up (ai_runner s) \<longleftrightarrow> in_session (ai_runner s)) \<and>
         (\<forall>now delta address. \<exists>af. our_action_frame (we_tu e) now delta address (as_common (ai_session s)) = Inr af)"
proof -
  let ?cr = "as_common (ai_session s)"
  have run: "awdl_run (ce_signal ce) (we_ndp e) (we_events e) (we_cache e) (we_tu e) (ai_runner s) ?cr"
    by (rule awdl_system_run [OF assms(2)])
  have inv: "run_inv (we_cache e) valid (ai_runner s) ?cr" by (rule run_inv_run [OF assms(1) run])
  then obtain v2 where "generate_tlv_v2 (cr_election_state ?cr) = Some v2"
    using own_ok_tlv by (auto simp: run_inv_def session_ok_def)
  then show ?thesis
    using run inv peer_cache_contract.get [OF assms(1)] by (auto simp: run_inv_def our_action_frame_def)
qed

definition sample_new_awdl ::
  "(u8, filter_bank \<Rightarrow> mac_address option, awdl_state option, mac_address option, awdl_event list, peer_entry list,
    bytes list \<times> bytes list) awdl_interface" where
  "sample_new_awdl =
     (case new_awdl_interface sample_control (list_channel 3 :: (nat list, nat) channel_ops) [2, 0, 0, 0, 0, 0] sample_resources
         (\<lambda>_. ([], [])) NotRequested \<lparr>vif_interface = 1, vif_rx_queue = 1, vif_tx_interface = 1\<rparr> sample_interface_state of
        Inr (s, _) \<Rightarrow> s | Inl _ \<Rightarrow> sample_awdl)"

lemma sample_new_awdl_system:
  "awdl_system plain_env sample_control (list_channel 3 :: (nat list, nat) channel_ops) sample_new_awdl"
proof -
  let ?v = "\<lparr>vif_interface = 1, vif_rx_queue = 1, vif_tx_interface = 1\<rparr>"
  obtain s :: "(u8, filter_bank \<Rightarrow> mac_address option, awdl_state option, mac_address option, awdl_event list, peer_entry list,
    bytes list \<times> bytes list) awdl_interface" and queues where n: "new_awdl_interface sample_control (list_channel 3 :: (nat list, nat) channel_ops) [2, 0, 0, 0, 0, 0]
      sample_resources (\<lambda>_. ([], [])) NotRequested ?v sample_interface_state = Inr (s, queues)"
    by (auto simp: new_awdl_interface_def VirtualInterface_split_def get_factory_mac_for_interface_def Let_def)
  then have "awdl_system plain_env sample_control (list_channel 3 :: (nat list, nat) channel_ops) s"
    by (intro sys_new) simp
  then show ?thesis using n by (simp add: sample_new_awdl_def)
qed

theorem awdl_interface_refines_witness:
  "awdl_run option_signal option_signal (list_channel 4) (we_cache plain_env) 1024
     (ai_runner sample_new_awdl) (as_common (ai_session sample_new_awdl))"
proof -
  have pc: "peer_cache_contract (we_cache plain_env) btree_valid" by (simp add: btree.peer_cache_contract_axioms)
  show ?thesis using awdl_interface_refines [OF pc sample_new_awdl_system] by simp
qed

section \<open>A timeout of zero\<close>

text \<open>The turns of the management runner at the given times.\<close>

fun management_turns ::
  "('ng, 'q, 'pc, 'n) awdl_env \<Rightarrow> nat \<Rightarrow> mac_address \<Rightarrow> nat list \<Rightarrow> ('sg, 'ng, 'q, 'pc, 'n) awdl_session \<Rightarrow>
     panic + ('sg, 'ng, 'q, 'pc, 'n) awdl_session poll" where
  "management_turns e iface our [] s = Inr (Ready s)"
| "management_turns e iface our (now # ts) s =
     (case AwdlManagementRunner_run_session e iface now now now our s of
        Inr (Ready s') \<Rightarrow> management_turns e iface our ts s'
      | r \<Rightarrow> r)"

text \<open>
  With a stale timeout of zero, which \<open>set_peer_stale_timeout\<close> accepts, every turn of the
  management runner is a purge: it never waits again, and no action frame is sent any more.
\<close>

lemma zero_timeout_tick:
  assumes "peer_cache_contract pc valid" "valid (peer_cache cr)" "stale_peer_timeout cr = 0"
  shows "\<exists>cr'. stale_peer_tick pc ch now our cr = Inr cr' \<and> valid (peer_cache cr') \<and> stale_peer_timeout cr' = 0"
proof -
  let ?cb = "\<lambda>address peer. raise_event ch (PeerWentStale address (airdrop_port peer) (airplay_port peer))"
  obtain c q where p: "purge_stale_peers pc now ?cb 0 (peer_cache cr) (event_queue cr) = (c, q)" by fastforce
  note purged = peer_cache_contract.purge_get [OF assms(1,2), of now ?cb 0 "event_queue cr", unfolded p fst_conv]
  have c: "valid c" using purged by blast
  have no: "pc_get pc c a = None" for a using purged [of a] by (cases "pc_get pc c a") auto
  obtain r where "find_master pc (cr_election_state cr) our c = Inr r"
    using peer_cache_contract.find_master_total [OF assms(1) c] by blast
  moreover from this have "r = None" using no by (auto simp: find_master_def Let_def split: if_splits)
  ultimately show ?thesis using assms(3) p c by (auto simp: stale_peer_tick_def elect_master_def)
qed

lemma zero_timeout_starves:
  assumes "peer_cache_contract (we_cache e) valid" "valid (peer_cache (as_common s))" "stale_peer_timeout (as_common s) = 0"
    and "as_request s \<noteq> Requested" "sorted ts" "\<forall>t\<in>set ts. as_stale_deadline s \<le> t"
  shows "\<exists>s'. management_turns e iface our ts s = Inr (Ready s') \<and> as_sent s' = as_sent s"
  using assms(2-)
proof (induction ts arbitrary: s)
  case (Cons now ts)
  obtain cr where cr: "stale_peer_tick (we_cache e) (we_events e) now our (as_common s) = Inr cr" "valid (peer_cache cr)"
      "stale_peer_timeout cr = 0"
    using zero_timeout_tick [OF assms(1) Cons.prems(1,2)] by blast
  let ?s = "arm_mif e now (s\<lparr>as_common := cr, as_stale_deadline := now\<rparr>)"
  have "AwdlManagementRunner_run_session e iface now now now our s = Inr (Ready ?s)"
    using Cons.prems(2,3,5) cr(1) by (simp add: AwdlManagementRunner_run_session_def wait_for_request_def)
  then show ?case using Cons.IH [of ?s] Cons.prems(3,4) cr(2,3) by (auto simp: arm_mif_def)
qed simp

end
