(* ===== verification/Tx_Probe.thy ===== *)
theory Tx_Probe
  imports Foa_Prelude
begin

unbundle bit_operations_syntax

text \<open>
  The TX latency probe, \<open>foa/src/tx_probe.rs\<close>: a fixed store of submissions, each with the time
  it was accepted, queued, picked up and finished, and the classifier that decides which
  packets are recorded. The error of a transmission is the type parameter \<open>'x\<close>; a call of the
  clock is an argument. The store is one state behind a critical section: every operation is
  one step of it, but \<open>accept_msdu\<close>, which enters the section twice.

  The lemmas show that the store only grows: no record is overwritten, and a record passes its
  phases in order. The classifier is equivalent to a grammar of packets.
\<close>

section \<open>Records\<close>

record probe_tag =
  ordinal :: u32
  tag_slot :: nat

datatype phase = Accepted | Queued | Picked | Finished

record 'x entry =
  entry_tag :: probe_tag
  cycle :: u32
  sequence :: u16
  entry_phase :: phase
  completion :: "('x + u8) option"
  accepted_us :: u64
  queued_us :: "u64 option"
  picked_us :: "u64 option"
  finished_us :: "u64 option"

definition EMPTY :: "'x entry" where
  "EMPTY = \<lparr>entry_tag = \<lparr>ordinal = 0, tag_slot = 0\<rparr>, cycle = 0, sequence = 0, entry_phase = Accepted,
     completion = None, accepted_us = 0, queued_us = None, picked_us = None, finished_us = None\<rparr>"

record probe_counters =
  capacity_rejections :: u32
  tag_exhaustion :: u32
  invalid_events :: u32
  scope_changes :: u32

text \<open>The size of the store is the length of \<open>entries\<close>.\<close>

record 'x recorder =
  entries :: "'x entry list"
  used :: nat
  last_tag :: u32
  rec_counters :: probe_counters

definition Recorder_new :: "nat \<Rightarrow> 'x recorder" where
  "Recorder_new N = \<lparr>entries = replicate N EMPTY, used = 0, last_tag = 0,
     rec_counters = \<lparr>capacity_rejections = 0, tag_exhaustion = 0, invalid_events = 0, scope_changes = 0\<rparr>\<rparr>"

definition invalid :: "'x recorder \<Rightarrow> 'x recorder" where
  "invalid r = r\<lparr>rec_counters := (rec_counters r)\<lparr>invalid_events := saturating_inc (invalid_events (rec_counters r))\<rparr>\<rparr>"

definition accept :: "u32 \<Rightarrow> u16 \<Rightarrow> u64 \<Rightarrow> 'x recorder \<Rightarrow> probe_tag option \<times> 'x recorder" where
  "accept c sq time r =
     (if c = 0 \<or> \<not> (1 \<le> sq \<and> sq \<le> 20) then (None, invalid r)
      else if used r = length (entries r)
      then (None, r\<lparr>rec_counters := (rec_counters r)\<lparr>capacity_rejections :=
              saturating_inc (capacity_rejections (rec_counters r))\<rparr>\<rparr>)
      else case checked_inc (last_tag r) of
             None \<Rightarrow> (None, r\<lparr>rec_counters := (rec_counters r)\<lparr>tag_exhaustion :=
                       saturating_inc (tag_exhaustion (rec_counters r))\<rparr>\<rparr>)
           | Some nxt \<Rightarrow>
               (let t = \<lparr>ordinal = nxt, tag_slot = used r\<rparr>
                in (Some t, r\<lparr>entries := (entries r)[used r :=
                              EMPTY\<lparr>entry_tag := t, cycle := c, sequence := sq, accepted_us := time\<rparr>],
                            used := used r + 1, last_tag := nxt\<rparr>)))"

text \<open>The time of the last boundary an entry passed.\<close>

definition last_us :: "'x entry \<Rightarrow> u64" where
  "last_us e = (case picked_us e of Some t \<Rightarrow> t
     | None \<Rightarrow> (case queued_us e of Some t \<Rightarrow> t | None \<Rightarrow> accepted_us e))"

definition index :: "probe_tag \<Rightarrow> phase \<Rightarrow> u64 \<Rightarrow> 'x recorder \<Rightarrow> nat option \<times> 'x recorder" where
  "index t ph time r =
     (case get_at (tag_slot t) (take (used r) (entries r)) of
        Some e \<Rightarrow>
          if entry_tag e = t \<and> entry_phase e = ph \<and> last_us e \<le> time then (Some (tag_slot t), r) else (None, invalid r)
      | None \<Rightarrow> (None, invalid r))"

definition queued :: "probe_tag \<Rightarrow> u64 \<Rightarrow> 'x recorder \<Rightarrow> 'x recorder" where
  "queued t time r =
     (case index t Accepted time r of
        (None, r') \<Rightarrow> r'
      | (Some i, r') \<Rightarrow>
          r'\<lparr>entries := (entries r')[i := (entries r' ! i)\<lparr>queued_us := Some time, entry_phase := Queued\<rparr>]\<rparr>)"

definition picked :: "probe_tag \<Rightarrow> u64 \<Rightarrow> 'x recorder \<Rightarrow> 'x recorder" where
  "picked t time r =
     (case index t Queued time r of
        (None, r') \<Rightarrow> r'
      | (Some i, r') \<Rightarrow>
          r'\<lparr>entries := (entries r')[i := (entries r' ! i)\<lparr>picked_us := Some time, entry_phase := Picked\<rparr>]\<rparr>)"

definition finished :: "probe_tag \<Rightarrow> u64 \<Rightarrow> 'x + u8 \<Rightarrow> 'x recorder \<Rightarrow> 'x recorder" where
  "finished t time result r =
     (case index t Picked time r of
        (None, r') \<Rightarrow> r'
      | (Some i, r') \<Rightarrow>
          r'\<lparr>entries := (entries r')[i := (entries r' ! i)\<lparr>finished_us := Some time, completion := Some result,
                                              entry_phase := Finished\<rparr>]\<rparr>)"

section \<open>The classifier\<close>

text \<open>The checks on the ICMP message.\<close>

definition echo_message :: "bytes \<Rightarrow> u16 option" where
  "echo_message icmp =
     (if get_to 2 icmp \<noteq> Some [8, 0] \<or> get_range 4 6 icmp \<noteq> Some [0x53, 0x53] then None
      else case get_range 6 8 icmp of
        None \<Rightarrow> None
      | Some sq \<Rightarrow>
     (let s = be16 (sq ! 0) (sq ! 1)
      in if 1 \<le> s \<and> s \<le> 20 \<and> list_all (\<lambda>b. b = 0x5a) (drop 8 icmp) then Some (of_nat s) else None))"

text \<open>The sequence number of an echo request of 512 bytes 0x5a to the gateway.\<close>

definition gateway_echo_sequence :: "bytes \<Rightarrow> bytes \<Rightarrow> u16 option" where
  "gateway_echo_sequence ethernet gw =
     (if get_range 12 14 ethernet \<noteq> Some [0x08, 0x00] then None
      else case get_from 14 ethernet of
        None \<Rightarrow> None
      | Some ip \<Rightarrow>
     (case get_at 0 ip of
        None \<Rightarrow> None
      | Some version_ihl \<Rightarrow>
     (let header = unat (version_ihl AND 15) * 4
      in if drop_bit 4 version_ihl \<noteq> 4 \<or> header < 20 then None
      else case get_range 2 4 ip of
        None \<Rightarrow> None
      | Some ln \<Rightarrow>
     (let total = be16 (ln ! 0) (ln ! 1)
      in if total \<noteq> header + 520 \<or> total > length ip then None
      else if get_at 9 ip \<noteq> Some 1 \<or> get_range 16 20 ip \<noteq> Some gw then None
      else case get_range 6 8 ip of
        None \<Rightarrow> None
      | Some fr \<Rightarrow>
      if be16 (fr ! 0) (fr ! 1) AND 0x3fff \<noteq> 0 then None
      else case get_range header total ip of
        None \<Rightarrow> None
      | Some icmp \<Rightarrow> echo_message icmp))))"

section \<open>The probe\<close>

record scope =
  scope_cycle :: u32
  gateway :: bytes
  scope_generation :: u64

record 'x probe =
  recorder :: "'x recorder"
  probe_scope :: "scope option"
  generation :: u64

definition CAPACITY :: nat where
  "CAPACITY = 64"

definition STATE :: "'x probe" where
  "STATE = \<lparr>recorder = Recorder_new CAPACITY, probe_scope = None, generation = 0\<rparr>"

definition arm :: "u32 \<Rightarrow> bytes \<Rightarrow> 'x probe \<Rightarrow> bool \<times> 'x probe" where
  "arm c gw s =
     (case checked_inc (generation s) of
        None \<Rightarrow> (False, s\<lparr>recorder := invalid (recorder s), probe_scope := None\<rparr>)
      | Some nxt \<Rightarrow>
          if c = 0 then (False, s\<lparr>recorder := invalid (recorder s), probe_scope := None\<rparr>)
          else (True, s\<lparr>generation := nxt,
                        probe_scope := Some \<lparr>scope_cycle = c, gateway = gw, scope_generation = nxt\<rparr>\<rparr>))"

definition disarm :: "'x probe \<Rightarrow> 'x probe" where
  "disarm s = s\<lparr>probe_scope := None\<rparr>"

text \<open>
  The packet is classified outside the critical section: \<open>between\<close> is what happens to the
  probe meanwhile, \<open>now\<close> the clock in the second section.
\<close>

definition accept_msdu :: "bytes \<Rightarrow> ('x probe \<Rightarrow> 'x probe) \<Rightarrow> u64 \<Rightarrow> 'x probe \<Rightarrow> probe_tag option \<times> 'x probe" where
  "accept_msdu ethernet between now s =
     (case probe_scope s of
        None \<Rightarrow> (None, s)
      | Some sc \<Rightarrow>
          (case gateway_echo_sequence ethernet (gateway sc) of
             None \<Rightarrow> (None, s)
           | Some sq \<Rightarrow>
               (let s1 = between s
                in if probe_scope s1 \<noteq> Some sc
                   then (None, s1\<lparr>recorder := (recorder s1)\<lparr>rec_counters := (rec_counters (recorder s1))\<lparr>scope_changes :=
                                     saturating_inc (scope_changes (rec_counters (recorder s1)))\<rparr>\<rparr>\<rparr>)
                   else (let (t, r) = accept (scope_cycle sc) sq now (recorder s1) in (t, s1\<lparr>recorder := r\<rparr>)))))"

definition probe_queued :: "probe_tag \<Rightarrow> u64 \<Rightarrow> 'x probe \<Rightarrow> 'x probe" where
  "probe_queued t now s = s\<lparr>recorder := queued t now (recorder s)\<rparr>"

definition probe_picked :: "probe_tag \<Rightarrow> u64 \<Rightarrow> 'x probe \<Rightarrow> 'x probe" where
  "probe_picked t now s = s\<lparr>recorder := picked t now (recorder s)\<rparr>"

definition probe_finished :: "probe_tag \<Rightarrow> 'x + u8 \<Rightarrow> u64 \<Rightarrow> 'x probe \<Rightarrow> 'x probe" where
  "probe_finished t result now s = s\<lparr>recorder := finished t now result (recorder s)\<rparr>"

definition probe_len :: "'x probe \<Rightarrow> nat" where
  "probe_len s = used (recorder s)"

definition probe_entry :: "nat \<Rightarrow> 'x probe \<Rightarrow> 'x entry option" where
  "probe_entry i s = get_at i (take (used (recorder s)) (entries (recorder s)))"

definition counters :: "'x probe \<Rightarrow> probe_counters" where
  "counters s = rec_counters (recorder s)"

section \<open>Well-formed records\<close>

text \<open>The phase of a record says which of its times are set; the times do not decrease, and a
  result is there exactly when the transmission finished.\<close>

definition entry_ok :: "'x entry \<Rightarrow> bool" where
  "entry_ok e \<longleftrightarrow>
     (queued_us e = None \<longleftrightarrow> entry_phase e = Accepted) \<and>
     (picked_us e = None \<longleftrightarrow> entry_phase e \<in> {Accepted, Queued}) \<and>
     (finished_us e = None \<longleftrightarrow> entry_phase e \<noteq> Finished) \<and> (completion e = None \<longleftrightarrow> entry_phase e \<noteq> Finished) \<and>
     (\<forall>q. queued_us e = Some q \<longrightarrow> accepted_us e \<le> q \<and>
        (\<forall>p. picked_us e = Some p \<longrightarrow> q \<le> p \<and> (\<forall>f. finished_us e = Some f \<longrightarrow> p \<le> f)))"

text \<open>The slot of a record and its ordinal agree, so a tag identifies one submission.\<close>

definition recorder_ok :: "'x recorder \<Rightarrow> bool" where
  "recorder_ok r \<longleftrightarrow>
     used r \<le> length (entries r) \<and> length (entries r) < 2 ^ 32 - 1 \<and> last_tag r = of_nat (used r) \<and>
     tag_exhaustion (rec_counters r) = 0 \<and>
     (\<forall>i<used r. entry_tag (entries r ! i) = \<lparr>ordinal = of_nat (i + 1), tag_slot = i\<rparr> \<and> entry_ok (entries r ! i) \<and>
        cycle (entries r ! i) \<noteq> 0 \<and> 1 \<le> sequence (entries r ! i) \<and> sequence (entries r ! i) \<le> 20)"

text \<open>A later record of the same submission: nothing it says is changed.\<close>

definition kept :: "'a option \<Rightarrow> 'a option \<Rightarrow> bool" where
  "kept x y \<longleftrightarrow> x = None \<or> y = x"

definition extends :: "'x entry \<Rightarrow> 'x entry \<Rightarrow> bool" where
  "extends e e' \<longleftrightarrow>
     entry_tag e' = entry_tag e \<and> cycle e' = cycle e \<and> sequence e' = sequence e \<and> accepted_us e' = accepted_us e \<and>
     kept (queued_us e) (queued_us e') \<and> kept (picked_us e) (picked_us e') \<and> kept (finished_us e) (finished_us e') \<and>
     kept (completion e) (completion e')"

definition grows :: "'x recorder \<Rightarrow> 'x recorder \<Rightarrow> bool" where
  "grows r r' \<longleftrightarrow>
     length (entries r') = length (entries r) \<and> used r \<le> used r' \<and>
     (\<forall>i<used r. extends (entries r ! i) (entries r' ! i))"

lemma kept_refl [simp]: "kept x x"
  by (simp add: kept_def)

lemma extends_refl [simp]: "extends e e"
  by (simp add: extends_def kept_def)

lemma kept_trans: "kept x y \<Longrightarrow> kept y z \<Longrightarrow> kept x z"
  by (auto simp: kept_def)

lemma extends_trans: "extends a b \<Longrightarrow> extends b c \<Longrightarrow> extends a c"
  unfolding extends_def by (intro conjI; elim conjE; (simp; fail | rule kept_trans))

lemma grows_refl [simp]: "grows r r"
  by (simp add: grows_def)

lemma grows_trans:
  assumes "grows a b" "grows b c"
  shows "grows a c"
proof -
  have "extends (entries a ! i) (entries c ! i)" if "i < used a" for i
    using assms that extends_trans [of "entries a ! i" "entries b ! i"] by (simp add: grows_def)
  then show ?thesis using assms by (simp add: grows_def)
qed

text \<open>What an operation has to do: keep the recorder well-formed and only grow it.\<close>

definition sound :: "'x recorder \<Rightarrow> 'x recorder \<Rightarrow> bool" where
  "sound r r' \<longleftrightarrow> (recorder_ok r \<longrightarrow> recorder_ok r' \<and> grows r r')"

lemma sound_refl [simp]: "sound r r"
  by (simp add: sound_def)

lemma sound_trans: "sound a b \<Longrightarrow> sound b c \<Longrightarrow> sound a c"
  by (auto simp: sound_def intro: grows_trans)

text \<open>Changes of the other counters do not matter.\<close>

lemma sound_counters: "tag_exhaustion c = tag_exhaustion (rec_counters r) \<Longrightarrow> sound r (r\<lparr>rec_counters := c\<rparr>)"
  by (simp add: sound_def recorder_ok_def grows_def)

lemma sound_invalid: "sound r (invalid r)"
  by (simp add: invalid_def sound_counters)

lemma accept_sound:
  assumes "accept c sq time r = (t, r')"
  shows "sound r r'"
proof (cases "c = 0 \<or> \<not> (1 \<le> sq \<and> sq \<le> 20) \<or> used r = length (entries r)")
  case True
  then show ?thesis using assms
    by (auto simp: accept_def sound_invalid intro: sound_counters split: if_splits)
next
  case False
  show ?thesis unfolding sound_def
  proof
    assume ok: "recorder_ok r"
    then have lt: "used r < length (entries r)" "used r < 2 ^ 32 - 1" and tag: "last_tag r = of_nat (used r)"
      using False by (auto simp: recorder_ok_def)
    have "unat (last_tag r) = used r" using lt(2) by (simp add: tag unat_of_nat)
    then have "last_tag r \<noteq> - 1" using lt(2) word_max_unat [where ?'n = 32] by auto
    then have r': "r' = r\<lparr>entries := (entries r)[used r :=
        EMPTY\<lparr>entry_tag := \<lparr>ordinal = last_tag r + 1, tag_slot = used r\<rparr>, cycle := c, sequence := sq, accepted_us := time\<rparr>],
        used := used r + 1, last_tag := last_tag r + 1\<rparr>"
      using assms False by (auto simp: accept_def checked_inc_def Let_def)
    show "recorder_ok r' \<and> grows r r'"
    proof
      show "grows r r'" using lt(1) by (auto simp: r' grows_def)
      show "recorder_ok r'"
        using ok lt False by (auto simp: r' recorder_ok_def tag nth_list_update EMPTY_def entry_ok_def less_Suc_eq)
    qed
  qed
qed

lemma index_cases:
  assumes "index t ph time r = (i, r')"
  obtains "i = None" "r' = invalid r"
  | "i = Some (tag_slot t)" "r' = r" "tag_slot t < used r" "tag_slot t < length (entries r)"
    "entry_tag (entries r ! tag_slot t) = t" "entry_phase (entries r ! tag_slot t) = ph"
    "last_us (entries r ! tag_slot t) \<le> time"
  using assms by (auto simp: index_def get_at_def split: if_splits)

lemma recorder_ok_entry: "recorder_ok r \<Longrightarrow> i < used r \<Longrightarrow> entry_ok (entries r ! i)"
  by (simp add: recorder_ok_def)

text \<open>An event that is not rejected replaces one record, in the phase it expects, by an extension
  of it.\<close>

lemma advance_sound:
  assumes ix: "index t ph time r = (i, r')"
    and f: "\<And>e. entry_ok e \<Longrightarrow> entry_phase e = ph \<Longrightarrow> last_us e \<le> time \<Longrightarrow> extends e (f e) \<and> entry_ok (f e)"
  shows "sound r (case i of None \<Rightarrow> r' | Some j \<Rightarrow> r'\<lparr>entries := (entries r')[j := f (entries r' ! j)]\<rparr>)"
  using ix
proof (cases rule: index_cases)
  case 1
  then show ?thesis by (simp add: sound_invalid)
next
  case 2
  then show ?thesis using f [of "entries r ! tag_slot t"] recorder_ok_entry [of r "tag_slot t"]
    by (auto simp: sound_def recorder_ok_def grows_def extends_def nth_list_update)
qed

lemmas lifecycle_defs = entry_ok_def last_us_def extends_def kept_def

lemma queued_sound: "sound r (queued t time r)"
proof -
  obtain i r' where ix: "index t Accepted time r = (i, r')" by fastforce
  have "queued t time r = (case i of None \<Rightarrow> r' | Some j \<Rightarrow>
      r'\<lparr>entries := (entries r')[j := (\<lambda>e. e\<lparr>queued_us := Some time, entry_phase := Queued\<rparr>) (entries r' ! j)]\<rparr>)"
    by (simp add: queued_def ix split: option.splits)
  also have "sound r \<dots>" by (rule advance_sound [OF ix]) (auto simp: lifecycle_defs split: option.splits)
  finally show ?thesis .
qed

lemma picked_sound: "sound r (picked t time r)"
proof -
  obtain i r' where ix: "index t Queued time r = (i, r')" by fastforce
  have "picked t time r = (case i of None \<Rightarrow> r' | Some j \<Rightarrow>
      r'\<lparr>entries := (entries r')[j := (\<lambda>e. e\<lparr>picked_us := Some time, entry_phase := Picked\<rparr>) (entries r' ! j)]\<rparr>)"
    by (simp add: picked_def ix split: option.splits)
  also have "sound r \<dots>" by (rule advance_sound [OF ix]) (auto simp: lifecycle_defs split: option.splits)
  finally show ?thesis .
qed

lemma finished_sound: "sound r (finished t time result r)"
proof -
  let ?f = "\<lambda>e. e\<lparr>finished_us := Some time, completion := Some result, entry_phase := Finished\<rparr>"
  obtain i r' where ix: "index t Picked time r = (i, r')" by fastforce
  have "finished t time result r = (case i of None \<Rightarrow> r' | Some j \<Rightarrow>
      r'\<lparr>entries := (entries r')[j := ?f (entries r' ! j)]\<rparr>)"
    by (simp add: finished_def ix split: option.splits)
  also have "sound r \<dots>" by (rule advance_sound [OF ix]) (auto simp: lifecycle_defs split: option.splits)
  finally show ?thesis .
qed

lemma arm_sound: "sound (recorder s) (recorder (snd (arm c gw s)))"
  by (auto simp: arm_def sound_invalid split: option.splits)

section \<open>Runs\<close>

text \<open>
  What can happen to the probe from a state on: any calls with any arguments and clock readings.
  While a packet is classified, anything else may happen in between.
\<close>

inductive probe_run :: "'x probe \<Rightarrow> 'x probe \<Rightarrow> bool" where
  probe_refl: "probe_run s s"
| probe_arm: "probe_run s s1 \<Longrightarrow> arm c gw s1 = (ok, s2) \<Longrightarrow> probe_run s s2"
| probe_disarm: "probe_run s s1 \<Longrightarrow> probe_run s (disarm s1)"
| probe_accept: "probe_run s s1 \<Longrightarrow> probe_run s1 (between s1) \<Longrightarrow>
    accept_msdu ethernet between now s1 = (t, s2) \<Longrightarrow> probe_run s s2"
| probe_event_queued: "probe_run s s1 \<Longrightarrow> probe_run s (probe_queued t now s1)"
| probe_event_picked: "probe_run s s1 \<Longrightarrow> probe_run s (probe_picked t now s1)"
| probe_event_finished: "probe_run s s1 \<Longrightarrow> probe_run s (probe_finished t result now s1)"

lemma accept_msdu_sound:
  assumes "sound (recorder s) (recorder (between s))" "accept_msdu ethernet between now s = (t, s')"
  shows "sound (recorder s) (recorder s')"
proof -
  consider "s' = s" | c where "recorder s' = (recorder (between s))\<lparr>rec_counters := c\<rparr>"
      "tag_exhaustion c = tag_exhaustion (rec_counters (recorder (between s)))"
    | c sq where "accept c sq now (recorder (between s)) = (t, recorder s')"
    using assms(2) by (auto simp: accept_msdu_def Let_def split: option.splits if_splits prod.splits)
  then show ?thesis
  proof cases
    case 1
    then show ?thesis by (simp add: sound_def)
  next
    case 2
    then show ?thesis using sound_trans [OF assms(1) sound_counters [OF 2(2)]] by simp
  next
    case 3
    then show ?thesis by (rule sound_trans [OF assms(1) accept_sound])
  qed
qed

lemma probe_run_sound: "probe_run s s' \<Longrightarrow> sound (recorder s) (recorder s')"
proof (induction rule: probe_run.induct)
  case (probe_arm s s1 c gw ok s2)
  then show ?case using sound_trans [OF _ arm_sound [of s1 c gw]] by simp
next
  case (probe_accept s s1 between ethernet now t s2)
  then show ?case using sound_trans [OF _ accept_msdu_sound] by blast
qed (auto simp: disarm_def probe_queued_def probe_picked_def probe_finished_def
    intro: sound_trans queued_sound picked_sound finished_sound)

lemma STATE_len: "length (entries (recorder STATE)) = CAPACITY"
  by (simp add: STATE_def Recorder_new_def)

lemma STATE_ok: "recorder_ok (recorder STATE)"
  by (simp add: STATE_def Recorder_new_def CAPACITY_def recorder_ok_def)

text \<open>
  The probe never loses or rewrites evidence. Whatever calls and clock readings follow, also
  between the two critical sections of \<open>accept_msdu\<close>, a record that was once there stays with
  all it said, a record passes its phases in order with times that do not decrease, and tags are
  unique: the check for exhausted identities never fires.
\<close>

theorem probe_evidence_kept:
  assumes "probe_run STATE s" "probe_run s s'" "probe_entry i s = Some e"
  shows "\<exists>e'. probe_entry i s' = Some e' \<and> extends e e' \<and> entry_ok e' \<and> ordinal (entry_tag e') = of_nat (i + 1) \<and>
           probe_len s \<le> probe_len s' \<and> probe_len s' \<le> CAPACITY \<and> tag_exhaustion (counters s') = 0"
proof -
  have ok: "recorder_ok (recorder s)" and len: "length (entries (recorder s)) = CAPACITY"
    using probe_run_sound [OF assms(1), unfolded sound_def, THEN mp, OF STATE_ok]
    by (simp_all add: grows_def STATE_len)
  have ok': "recorder_ok (recorder s')" and g: "grows (recorder s) (recorder s')"
    using probe_run_sound [OF assms(2)] ok by (simp_all add: sound_def)
  have "i < used (recorder s)" "e = entries (recorder s) ! i"
    using assms(3) by (auto simp: probe_entry_def get_at_def split: if_splits)
  then show ?thesis using ok ok' g len
    by (auto simp: probe_entry_def get_at_def probe_len_def counters_def grows_def recorder_ok_def)
qed

section \<open>The grammar of the classifier\<close>

definition be_bytes :: "nat \<Rightarrow> bytes" where
  "be_bytes n = [of_nat (n div 256), of_nat (n mod 256)]"

text \<open>An Ethernet frame with an echo request of 512 bytes 0x5a, by the fields that are free.\<close>

definition echo_packet ::
  "bytes \<Rightarrow> u8 \<Rightarrow> bytes \<Rightarrow> u8 \<Rightarrow> u8 \<Rightarrow> bytes \<Rightarrow> bytes \<Rightarrow> bytes \<Rightarrow> bytes \<Rightarrow> bytes \<Rightarrow> u16 \<Rightarrow> bytes \<Rightarrow> bytes" where
  "echo_packet addresses tos ident flags ttl header_sum source gw options icmp_sum sq padding =
     addresses @ [0x08, 0x00] @
     [0x45 + of_nat (length options div 4), tos] @ be_bytes (540 + length options) @ ident @ [flags, 0, ttl, 1] @
     header_sum @ source @ gw @ options @
     [8, 0] @ icmp_sum @ [0x53, 0x53] @ be_bytes (unat sq) @ replicate 512 0x5a @ padding"

lemma be16_bytes:
  assumes "n < 65536"
  shows "be16 hi lo = n \<longleftrightarrow> [hi, lo] = be_bytes n"
proof -
  have "[hi, lo] = be_bytes n \<longleftrightarrow> unat hi = n div 256 \<and> unat lo = n mod 256"
    using assms by (simp add: be_bytes_def word_unat_eq_iff unat_of_nat)
  moreover have "n = 256 * (n div 256) + n mod 256" by simp
  ultimately show ?thesis using unat_u8_less [of lo] unfolding be16_def by auto
qed

lemma unat_low_bits: "m = mask n \<Longrightarrow> unat (b AND m) = unat b mod 2 ^ n" for b :: u8
proof -
  assume "m = mask n"
  then have "unat (b AND m) = take_bit n (unat b)" by (simp only: unsigned_take_bit_eq flip: take_bit_eq_mask)
  also have "\<dots> = unat b mod 2 ^ n" by (rule take_bit_eq_mod)
  finally show ?thesis .
qed

lemma unat_nibble: "unat (b AND 15 :: u8) = unat b mod 16" "unat (drop_bit 4 b :: u8) = unat b div 16"
proof -
  show "unat (b AND 15 :: u8) = unat b mod 16"
    using unat_low_bits [of 15 4 b] by (simp add: mask_eq_exp_minus_1)
  show "unat (drop_bit 4 b :: u8) = unat b div 16" by (simp add: drop_bit_eq_div unat_div)
qed

text \<open>The first octet of the header: version 4, and at least five words.\<close>

lemma version_octet:
  "drop_bit 4 b = 4 \<and> unat (b AND 15 :: u8) * 4 = 20 + 4 * k \<longleftrightarrow> k \<le> 10 \<and> b = 0x45 + of_nat k"
proof -
  have "drop_bit 4 b = 4 \<longleftrightarrow> unat b div 16 = 4" by (simp add: word_unat_eq_iff unat_nibble)
  moreover have "b = 0x45 + of_nat k \<longleftrightarrow> unat b = 69 + k" if "k \<le> 10"
    using that by (simp add: word_unat_eq_iff unat_word_ariths unat_of_nat)
  moreover have "n div 16 = 4 \<and> n mod 16 * 4 = 20 + 4 * k \<longleftrightarrow> k \<le> 10 \<and> n = 69 + k" for n
  proof
    assume "n div 16 = 4 \<and> n mod 16 * 4 = 20 + 4 * k"
    moreover have "n = 16 * (n div 16) + n mod 16" "n mod 16 < 16" by simp_all
    ultimately show "k \<le> 10 \<and> n = 69 + k" by linarith
  next
    assume "k \<le> 10 \<and> n = 69 + k"
    then have "n div 16 = 4" "n mod 16 = 5 + k" by (auto intro!: div_nat_eqI mod_nat_eqI)
    then show "n div 16 = 4 \<and> n mod 16 * 4 = 20 + 4 * k" by simp
  qed
  ultimately show ?thesis unfolding unat_nibble by blast
qed

text \<open>A fragment field without offset and without the flag for more fragments.\<close>

lemma fragment_field: "be16 hi lo AND 0x3fff = 0 \<longleftrightarrow> lo = 0 \<and> hi AND 0x3f = 0"
proof -
  have "be16 hi lo AND 0x3fff = take_bit 14 (be16 hi lo)" by (simp add: take_bit_eq_mask mask_eq_exp_minus_1)
  then have "be16 hi lo AND 0x3fff = be16 hi lo mod 16384" by (simp add: take_bit_eq_mod)
  moreover have "unat (hi AND 0x3f) = unat hi mod 64"
    using unat_low_bits [of "0x3f" 6 hi] by (simp add: mask_eq_exp_minus_1)
  moreover have "(256 * unat hi + unat lo) mod 16384 = 0 \<longleftrightarrow> unat lo = 0 \<and> unat hi mod 64 = 0"
  proof -
    have "256 * unat hi + unat lo = 256 * (unat hi mod 64) + unat lo + 16384 * (unat hi div 64)"
      using div_mult_mod_eq [of "unat hi" 64] by linarith
    moreover have "256 * (unat hi mod 64) + unat lo < 16384"
      using unat_u8_less [of lo] mod_less_divisor [of 64 "unat hi"] by linarith
    ultimately have "(256 * unat hi + unat lo) mod 16384 = 256 * (unat hi mod 64) + unat lo"
      by (metis mod_less mod_mult_self2)
    then show ?thesis by auto
  qed
  ultimately show ?thesis by (simp add: be16_def word_unat_eq_iff mult.commute)
qed

lemma split_8: "8 \<le> length xs \<Longrightarrow> \<exists>a b c d e f g h ys. xs = [a, b, c, d, e, f, g, h] @ ys"
  by (auto simp: numeral_eq_Suc Suc_le_length_iff)

text \<open>The body of the echo request.\<close>

definition echo_body :: "bytes \<Rightarrow> u16 \<Rightarrow> bytes" where
  "echo_body icmp_sum sq = [8, 0] @ icmp_sum @ [0x53, 0x53] @ be_bytes (unat sq) @ replicate 512 0x5a"

lemma length_echo_body [simp]: "length icmp_sum = 2 \<Longrightarrow> length (echo_body icmp_sum sq) = 520"
  by (simp add: echo_body_def be_bytes_def)

lemma echo_message_iff:
  assumes "length icmp = 520"
  shows "echo_message icmp = Some s \<longleftrightarrow> 1 \<le> s \<and> s \<le> 20 \<and> (\<exists>icmp_sum. length icmp_sum = 2 \<and> icmp = echo_body icmp_sum s)"
proof -
  obtain a b c d e f g h ys where icmp: "icmp = [a, b, c, d, e, f, g, h] @ ys" using split_8 [of icmp] assms by auto
  have body: "list_all (\<lambda>x. x = 0x5a) ys \<longleftrightarrow> ys = replicate 512 0x5a"
    using assms icmp by (auto simp: list_all_iff replicate_eqI)
  have "be16 g h = unat s \<longleftrightarrow> [g, h] = be_bytes (unat s)" by (rule be16_bytes) (use unsigned_less [of s] in simp)
  moreover have "of_nat (be16 g h) = s \<longleftrightarrow> be16 g h = unat s"
    using be16_less [of g h] by (auto simp: word_unat_eq_iff unat_of_nat)
  moreover have "1 \<le> s \<and> s \<le> 20 \<longleftrightarrow> 1 \<le> unat s \<and> unat s \<le> 20" by (simp add: word_le_nat_alt)
  ultimately have "echo_message icmp = Some s \<longleftrightarrow>
      a = 8 \<and> b = 0 \<and> e = 0x53 \<and> f = 0x53 \<and> 1 \<le> s \<and> s \<le> 20 \<and> [g, h] = be_bytes (unat s) \<and> ys = replicate 512 0x5a"
    using body by (auto simp: icmp slice_defs echo_message_def Let_def)
  also have "\<dots> \<longleftrightarrow> 1 \<le> s \<and> s \<le> 20 \<and> (\<exists>icmp_sum. length icmp_sum = 2 \<and> icmp = echo_body icmp_sum s)"
    by (auto simp: icmp echo_body_def be_bytes_def length_Suc_conv numeral_2_eq_2)
  finally show ?thesis .
qed

lemma classifier_fields:
  assumes "length eth = 12"
  shows "gateway_echo_sequence
      (eth @ [8, 0] @ [b0, b1, t1, t0, i1, i0, f1, f0] @ [ttl, proto, c1, c0, s3, s2, s1, s0] @ [g3, g2, g1, g0] @ rest) gw =
    (let header = unat (b0 AND 15) * 4
     in if drop_bit 4 b0 = 4 \<and> 20 \<le> header \<and> be16 t1 t0 = header + 520 \<and> header + 500 \<le> length rest \<and> proto = 1 \<and>
          gw = [g3, g2, g1, g0] \<and> be16 f1 f0 AND 0x3fff = 0
        then echo_message (take 520 (drop (header - 20) rest)) else None)"
proof -
  define ip where "ip = [b0, b1, t1, t0, i1, i0, f1, f0, ttl, proto, c1, c0, s3, s2, s1, s0, g3, g2, g1, g0] @ rest"
  define header where "header = unat (b0 AND 15) * 4"
  have ip: "get_at 0 ip = Some b0" "get_range 2 4 ip = Some [t1, t0]" "get_at 9 ip = Some proto"
    "get_range 16 20 ip = Some [g3, g2, g1, g0]" "get_range 6 8 ip = Some [f1, f0]" "length ip = 20 + length rest"
    by (simp_all add: ip_def slice_defs)
  have "drop header ip = drop (header - 20) rest" if "20 \<le> header"
    unfolding ip_def by (subst drop_append) (use that in \<open>simp add: eval_nat_numeral\<close>)
  then have icmp: "get_range header (header + 520) ip = Some (take 520 (drop (header - 20) rest))"
    if "20 \<le> header" "header + 500 \<le> length rest" using that ip(6) by (simp add: get_range_def)
  have p: "get_range 12 14 (eth @ [8, 0] @ ip) = Some [8, 0]" "get_from 14 (eth @ [8, 0] @ ip) = Some ip"
    using assms by (simp_all add: slice_defs)
  define total where "total = be16 t1 t0"
  define version where "version = drop_bit 4 b0"
  define fragment where "fragment = be16 f1 f0 AND 0x3fff"
  have "gateway_echo_sequence (eth @ [8, 0] @ ip) gw =
    (if version = 4 \<and> 20 \<le> header \<and> total = header + 520 \<and> header + 500 \<le> length rest \<and> proto = 1 \<and>
        gw = [g3, g2, g1, g0] \<and> fragment = 0
     then echo_message (take 520 (drop (header - 20) rest)) else None)"
    unfolding gateway_echo_sequence_def p
    by (auto simp: ip icmp Let_def simp flip: header_def total_def version_def fragment_def)
  then show ?thesis
    by (simp only: ip_def header_def total_def version_def fragment_def Let_def append.simps)
qed

text \<open>A packet of the grammar for the gateway with the given sequence number.\<close>

definition gateway_echo :: "bytes \<Rightarrow> u16 \<Rightarrow> bytes \<Rightarrow> bool" where
  "gateway_echo gw s p \<longleftrightarrow> 1 \<le> s \<and> s \<le> 20 \<and> length gw = 4 \<and>
     (\<exists>addresses tos ident flags ttl header_sum source options icmp_sum padding.
        length addresses = 12 \<and> length ident = 2 \<and> flags AND 0x3f = 0 \<and> length header_sum = 2 \<and> length source = 4 \<and>
        length options \<le> 40 \<and> 4 dvd length options \<and> length icmp_sum = 2 \<and>
        p = echo_packet addresses tos ident flags ttl header_sum source gw options icmp_sum s padding)"

lemma gateway_echoI:
  "1 \<le> s \<Longrightarrow> s \<le> 20 \<Longrightarrow> length gw = 4 \<Longrightarrow> length addresses = 12 \<Longrightarrow> length ident = 2 \<Longrightarrow> flags AND 0x3f = 0 \<Longrightarrow>
   length header_sum = 2 \<Longrightarrow> length source = 4 \<Longrightarrow> length options \<le> 40 \<Longrightarrow> 4 dvd length options \<Longrightarrow> length icmp_sum = 2 \<Longrightarrow>
   p = echo_packet addresses tos ident flags ttl header_sum source gw options icmp_sum s padding \<Longrightarrow> gateway_echo gw s p"
  unfolding gateway_echo_def by blast

lemma header_fields:
  "(let header = unat (b0 AND 15 :: u8) * 4
    in drop_bit 4 b0 = 4 \<and> 20 \<le> header \<and> be16 t1 t0 = header + 520 \<and> P header) \<longleftrightarrow>
   (\<exists>k\<le>10. b0 = 0x45 + of_nat k \<and> [t1, t0] = be_bytes (540 + 4 * k) \<and> P (20 + 4 * k))"
  (is "?l \<longleftrightarrow> ?r")
proof
  assume l: ?l
  define k where "k = unat (b0 AND 15) - 5"
  have "5 \<le> unat (b0 AND 15)" using l by (simp add: Let_def)
  then have h: "unat (b0 AND 15) * 4 = 20 + 4 * k" unfolding k_def by linarith
  then have "k \<le> 10" "b0 = 0x45 + of_nat k" using version_octet [of b0 k] l by (simp_all add: Let_def)
  moreover from this have "[t1, t0] = be_bytes (540 + 4 * k)"
    using be16_bytes [of "540 + 4 * k" t1 t0] l h by (simp add: Let_def)
  ultimately show ?r using l h by (auto simp: Let_def)
next
  assume ?r
  then obtain k where k: "k \<le> 10" "b0 = 0x45 + of_nat k" "[t1, t0] = be_bytes (540 + 4 * k)" "P (20 + 4 * k)"
    by blast
  then show ?l using version_octet [of b0 k] be16_bytes [of "540 + 4 * k" t1 t0] by (simp add: Let_def)
qed

lemma gateway_echo_accepted:
  assumes "gateway_echo gw s p"
  shows "gateway_echo_sequence p gw = Some s"
proof -
  obtain eth tos ident flags ttl hsum source options isum padding where
    len: "length eth = 12" "length ident = 2" "length hsum = 2" "length source = 4" "length isum = 2"
      "length options \<le> 40" "4 dvd length options" "length gw = 4" and flags: "flags AND 0x3f = 0" and s: "1 \<le> s" "s \<le> 20"
    and p: "p = echo_packet eth tos ident flags ttl hsum source gw options isum s padding"
    using assms by (auto simp: gateway_echo_def)
  obtain k where k: "length options = 4 * k" using len(7) by (auto elim: dvdE)
  obtain i1 i0 c1 c0 s3 s2 s1 s0 g3 g2 g1 g0 where
    x: "ident = [i1, i0]" "hsum = [c1, c0]" "source = [s3, s2, s1, s0]" "gw = [g3, g2, g1, g0]"
    using len by (auto simp: numeral_eq_Suc length_Suc_conv)
  obtain t1 t0 where tt: "be_bytes (540 + 4 * k) = [t1, t0]" by (simp add: be_bytes_def)
  define rest where "rest = options @ echo_body isum s @ padding"
  have p: "p = eth @ [8, 0] @ [0x45 + of_nat k, tos, t1, t0, i1, i0, flags, 0] @ [ttl, 1, c1, c0, s3, s2, s1, s0] @
      [g3, g2, g1, g0] @ rest"
    using tt k by (simp add: p echo_packet_def x rest_def echo_body_def)
  have "k \<le> 10" using len(6) k by simp
  then have h: "drop_bit 4 (0x45 + of_nat k :: u8) = 4" "unat (0x45 + of_nat k AND 15 :: u8) * 4 = 20 + 4 * k"
    "be16 t1 t0 = 540 + 4 * k"
    using version_octet [of "0x45 + of_nat k" k] be16_bytes [of "540 + 4 * k" t1 t0] tt by simp_all
  have m: "take 520 (drop (4 * k) rest) = echo_body isum s" using k len(5) by (simp add: rest_def)
  have "echo_message (echo_body isum s) = Some s" using echo_message_iff [of "echo_body isum s" s] len(5) s by auto
  moreover have "be16 flags 0 AND 0x3fff = 0" using flags fragment_field by simp
  moreover have "4 * k + 520 \<le> length rest" using k len(5) by (simp add: rest_def)
  ultimately show ?thesis unfolding p classifier_fields [OF len(1)] Let_def h by (simp add: x m)
qed

lemma gateway_echo_length:
  assumes "gateway_echo_sequence p gw = Some s"
  shows "34 \<le> length p" "take 2 (drop 12 p) = [8, 0]"
  using assms by (auto simp: gateway_echo_sequence_def slice_defs Let_def split: if_splits)

lemma gateway_echo_rejected:
  assumes "gateway_echo_sequence p gw = Some s"
  shows "gateway_echo gw s p"
proof -
  note len = gateway_echo_length [OF assms]
  have n8: "8 \<le> length (drop 14 p)" using len(1) by simp
  define eth where "eth = take 12 p"
  have eth: "length eth = 12" using len(1) by (simp add: eth_def)
  obtain b0 b1 t1 t0 i1 i0 f1 f0 q1 where 1: "drop 14 p = [b0, b1, t1, t0, i1, i0, f1, f0] @ q1"
    using split_8 [OF n8] by blast
  have "length p - 14 = 8 + length q1" using arg_cong [OF 1, of length] by simp
  then have "20 \<le> 8 + length q1" using len(1) by linarith
  then obtain ttl proto c1 c0 s3 s2 s1 s0 q2 where 2: "q1 = [ttl, proto, c1, c0, s3, s2, s1, s0] @ q2" "4 \<le> length q2"
    using split_8 [of q1] len(1) by auto
  then obtain g3 g2 g1 g0 rest where 3: "q2 = [g3, g2, g1, g0] @ rest"
    by (auto simp: numeral_eq_Suc Suc_le_length_iff)
  have "p = eth @ [8, 0] @ drop 14 p"
    using len(2) append_take_drop_id [of 12 p] append_take_drop_id [of 2 "drop 12 p"] by (simp add: eth_def)
  then have p: "p = eth @ [8, 0] @ [b0, b1, t1, t0, i1, i0, f1, f0] @ [ttl, proto, c1, c0, s3, s2, s1, s0] @ [g3, g2, g1, g0] @ rest"
    using 1 2(1) 3 by simp
  have "\<exists>k\<le>10. b0 = 0x45 + of_nat k \<and> [t1, t0] = be_bytes (540 + 4 * k) \<and>
      4 * k + 520 \<le> length rest \<and> proto = 1 \<and> gw = [g3, g2, g1, g0] \<and> be16 f1 f0 AND 0x3fff = 0 \<and>
      echo_message (take 520 (drop (4 * k) rest)) = Some s"
    using assms header_fields [of b0 t1 t0 "\<lambda>header. header + 500 \<le> length rest \<and> proto = 1 \<and>
          gw = [g3, g2, g1, g0] \<and> be16 f1 f0 AND 0x3fff = 0 \<and>
          echo_message (take 520 (drop (header - 20) rest)) = Some s"]
    unfolding p classifier_fields [OF eth] by (auto simp: Let_def split: if_splits)
  then obtain k where k: "k \<le> 10" "b0 = 0x45 + of_nat k" "[t1, t0] = be_bytes (540 + 4 * k)" "4 * k + 520 \<le> length rest"
    "proto = 1" "gw = [g3, g2, g1, g0]" "f0 = 0" "f1 AND 0x3f = 0" "echo_message (take 520 (drop (4 * k) rest)) = Some s"
    using fragment_field by blast
  obtain isum where m: "1 \<le> s" "s \<le> 20" "length isum = 2" "take 520 (drop (4 * k) rest) = echo_body isum s"
    using echo_message_iff [of "take 520 (drop (4 * k) rest)" s] k(4,9) by auto
  have "rest = take (4 * k) rest @ echo_body isum s @ drop (4 * k + 520) rest"
    using m(4) append_take_drop_id [of "4 * k" rest] append_take_drop_id [of 520 "drop (4 * k) rest"]
    by (simp add: add.commute)
  moreover have "length (take (4 * k) rest) = 4 * k" using k(4) by simp
  ultimately have P: "p = echo_packet eth b1 [i1, i0] f1 ttl [c1, c0] [s3, s2, s1, s0] gw (take (4 * k) rest) isum s (drop (4 * k + 520) rest)"
    using k by (simp add: p echo_packet_def echo_body_def)
  show ?thesis by (rule gateway_echoI [OF m(1,2) _ eth _ k(8) _ _ _ _ m(3) P]) (use k in simp_all)
qed

text \<open>
  C39: the hand-written classifier is equivalent to a grammar. It returns a sequence number exactly
  for the Ethernet frames that carry an unfragmented IPv4 echo request of that number, between 1
  and 20, with any options of the header, to the gateway and with 512 bytes 0x5a; any padding may
  follow.
\<close>

theorem gateway_echo_sequence_grammar:
  "gateway_echo_sequence p gw = Some s \<longleftrightarrow> gateway_echo gw s p"
  using gateway_echo_accepted gateway_echo_rejected by blast

section \<open>A recorded packet\<close>

definition sample_echo :: bytes where
  "sample_echo = echo_packet (replicate 12 0) 0 [0, 0] 0 64 [0, 0] [10, 0, 0, 2] [10, 0, 0, 1] [] [0, 0] 8 []"

lemma sample_echo_classified: "gateway_echo_sequence sample_echo [10, 0, 0, 1] = Some 8"
  by (rule gateway_echo_accepted, rule gateway_echoI [where options = "[]"]) (auto simp: sample_echo_def)

lemma sample_recorded:
  obtains s e where "probe_run (STATE :: nat probe) s" "probe_entry 0 s = Some e"
    "entry_tag e = \<lparr>ordinal = 1, tag_slot = 0\<rparr>" "sequence e = 8"
proof -
  let ?s = "snd (arm 1 [10, 0, 0, 1] (STATE :: nat probe))"
  obtain t s where s: "accept_msdu sample_echo (\<lambda>s. s) 5 ?s = (t, s)" by fastforce
  have "probe_run STATE ?s" by (rule probe_arm [OF probe_refl]) (rule prod.collapse [symmetric])
  then have "probe_run STATE s" using s by (rule probe_accept [OF _ probe_refl])
  moreover have "probe_entry 0 s = Some (EMPTY\<lparr>entry_tag := \<lparr>ordinal = 1, tag_slot = 0\<rparr>, cycle := 1, sequence := 8, accepted_us := 5\<rparr>)"
    using s sample_echo_classified
    by (auto simp: accept_msdu_def arm_def STATE_def checked_inc_def accept_def Recorder_new_def CAPACITY_def probe_entry_def get_at_def Let_def)
  ultimately show ?thesis by (rule that) simp_all
qed

theorem probe_evidence_kept_witness:
  "\<exists>s e'. probe_run (STATE :: nat probe) s \<and> probe_entry 0 (probe_queued \<lparr>ordinal = 1, tag_slot = 0\<rparr> 9 s) = Some e' \<and>
     sequence e' = 8 \<and> entry_ok e'"
proof (rule sample_recorded)
  fix s :: "nat probe" and e
  assume r: "probe_run STATE s" and e: "probe_entry 0 s = Some e" "sequence e = 8"
  have "probe_run s (probe_queued \<lparr>ordinal = 1, tag_slot = 0\<rparr> 9 s)" by (rule probe_event_queued [OF probe_refl])
  from probe_evidence_kept [OF r this e(1)] show ?thesis using r e(2) by (auto simp: extends_def)
qed

end
