(* ===== verification/Tx_Tagged.thy ===== *)
theory Tx_Tagged
  imports Tx_Queue_Runs Tx_Probe
begin

text \<open>
  The transmit queue in the builds with the TX latency probe: \<open>foa/src/tx_queue.rs\<close> with the
  feature \<open>tx-probe\<close>. A frame may carry a tag of the probe, which travels with its buffer here, and
  the queue reports to the probe when the frame is queued, picked up and finished. The lemmas show
  that in every run none of these reports is rejected, so the record of a tagged frame is complete
  and true: its times are the ones of the queue and its result is the one of the radio.
\<close>

section \<open>The operations\<close>

type_synonym 'b tagged = "'b \<times> probe_tag option"

abbreviation tag_of :: "('b tagged, 'r) pending_frame \<Rightarrow> probe_tag option" where
  "tag_of f \<equiv> snd (frame f)"

definition report :: "(probe_tag \<Rightarrow> 'e probe \<Rightarrow> 'e probe) \<Rightarrow> probe_tag option \<Rightarrow> 'e probe \<Rightarrow> 'e probe" where
  "report ev t p = (case t of None \<Rightarrow> p | Some x \<Rightarrow> ev x p)"

definition enqueue_frame_tagged ::
  "nat \<Rightarrow> u64 \<Rightarrow> ('b tagged, 'r) pending_frame \<Rightarrow> ('b tagged, 'r, 'e) tx_queue_state \<Rightarrow> 'e probe \<Rightarrow>
     panic + (nat \<times> ('b tagged, 'r, 'e) tx_queue_state \<times> 'b tagged tx_effect list \<times> 'e probe)" where
  "enqueue_frame_tagged N now f s p =
     (case enqueue_frame N f s of
        Inl x \<Rightarrow> Inl x
      | Inr (c, q, eff) \<Rightarrow> Inr (c, q, eff, report (\<lambda>t. probe_queued t now) (tag_of f) p))"

definition try_receive_tagged ::
  "nat \<Rightarrow> u64 \<Rightarrow> ('b tagged, 'r, 'e) tx_queue_state \<Rightarrow> 'e probe \<Rightarrow>
     panic + ((nat \<times> ('b tagged, 'r) pending_frame \<times> ('b tagged, 'r, 'e) tx_queue_state) option \<times> 'e probe)" where
  "try_receive_tagged N now s p =
     (case try_receive N s of
        Inl x \<Rightarrow> Inl x
      | Inr None \<Rightarrow> Inr (None, p)
      | Inr (Some (i, f, q)) \<Rightarrow> Inr (Some (i, f, q), report (\<lambda>t. probe_picked t now) (tag_of f) p))"

definition transmit_tagged ::
  "nat \<Rightarrow> ('b tagged, 'r) pending_frame \<Rightarrow> 'e + u8 \<Rightarrow> u64 \<Rightarrow> ('b tagged, 'r, 'e) tx_queue_state \<Rightarrow> 'e probe \<Rightarrow>
     ('b tagged, 'r, 'e) tx_queue_state \<times> 'b tagged tx_effect list \<times> 'e probe" where
  "transmit_tagged i f res now s p =
     (let p' = report (\<lambda>t. probe_finished t res now) (tag_of f) p; (q, eff) = transmit i f res s in (q, eff, p'))"

definition transmit_edca_tagged ::
  "nat \<Rightarrow> nat \<Rightarrow> nat \<Rightarrow> 'b \<Rightarrow> nat \<Rightarrow> 'r tx_plcp_parameters \<Rightarrow> tx_mac_parameters \<Rightarrow> 'r retry_behaviour \<Rightarrow> probe_tag option \<Rightarrow> u64 \<Rightarrow>
     ('b tagged, 'r, 'e) tx_queue_state list \<Rightarrow> 'e probe \<Rightarrow>
     panic + (nat \<times> ('b tagged, 'r, 'e) tx_queue_state list \<times> 'b tagged tx_effect list \<times> 'e probe)" where
  "transmit_edca_tagged N iface hardware_slot buf len plcp mac retry tag now queues p =
     (let i = hardware_slot - 1
      in case enqueue_frame_tagged N now
                \<lparr>frame = (buf, tag), frame_length = len, plcp_parameters = plcp, mac_parameters = mac,
                 interface = of_nat iface, retry_behaviour = retry\<rparr> (queues ! i) p of
           Inl x \<Rightarrow> Inl x
         | Inr (c, q, eff, p') \<Rightarrow> Inr (c, queues[i := q], eff, p'))"

text \<open>The untagged call is the one of the other builds: it does not reach the probe.\<close>

lemma transmit_edca_untagged:
  "transmit_edca_tagged N iface sl buf len plcp mac retry None now queues p =
     (case transmit_edca N iface sl (buf, None) len plcp mac retry queues of
        Inl x \<Rightarrow> Inl x | Inr (c, qs, eff) \<Rightarrow> Inr (c, qs, eff, p))"
  by (simp add: transmit_edca_tagged_def transmit_edca_def enqueue_frame_tagged_def report_def Let_def split: sum.split prod.split)

section \<open>The record of a tag\<close>

definition known :: "'e recorder \<Rightarrow> probe_tag \<Rightarrow> bool" where
  "known r t \<longleftrightarrow> tag_slot t < used r \<and> entry_tag (entries r ! tag_slot t) = t"

definition recorded_as :: "'e recorder \<Rightarrow> probe_tag \<Rightarrow> phase \<Rightarrow> u64 \<Rightarrow> bool" where
  "recorded_as r t ph now \<longleftrightarrow>
     known r t \<and> entry_phase (entries r ! tag_slot t) = ph \<and> last_us (entries r ! tag_slot t) \<le> now"

lemma recorded_later: "recorded_as r t ph now \<Longrightarrow> now \<le> now' \<Longrightarrow> recorded_as r t ph now'"
  by (auto simp: recorded_as_def)

text \<open>What a report about a tag can do: it changes the record of that tag only.\<close>

definition touches :: "probe_tag \<Rightarrow> 'e recorder \<Rightarrow> 'e recorder \<Rightarrow> bool" where
  "touches t r r' \<longleftrightarrow>
     sound r r' \<and> used r' = used r \<and> (\<forall>i. i \<noteq> tag_slot t \<longrightarrow> entries r' ! i = entries r ! i) \<and>
     entry_tag (entries r' ! tag_slot t) = entry_tag (entries r ! tag_slot t)"

lemma index_result:
  "index t ph now r =
     (if tag_slot t < used r \<and> tag_slot t < length (entries r) \<and> entry_tag (entries r ! tag_slot t) = t \<and>
         entry_phase (entries r ! tag_slot t) = ph \<and> last_us (entries r ! tag_slot t) \<le> now
      then (Some (tag_slot t), r) else (None, invalid r))"
  by (auto simp: index_def get_at_def)

lemma touches_queued: "touches t r (queued t now r)"
  using queued_sound [of r t now] by (auto simp: touches_def queued_def index_result invalid_def)

lemma touches_picked: "touches t r (picked t now r)"
  using picked_sound [of r t now] by (auto simp: touches_def picked_def index_result invalid_def)

lemma touches_finished: "touches t r (finished t now res r)"
  using finished_sound [of r t now res] by (auto simp: touches_def finished_def index_result invalid_def)

lemmas touches_events = touches_queued touches_picked touches_finished

lemma known_slots: "known r t \<Longrightarrow> known r t' \<Longrightarrow> tag_slot t' = tag_slot t \<Longrightarrow> t' = t"
  by (auto simp: known_def)

lemma touches_known: "touches t r r' \<Longrightarrow> known r t' \<Longrightarrow> known r' t'"
  by (cases "tag_slot t' = tag_slot t") (auto simp: touches_def known_def)

lemma touches_recorded:
  assumes "touches t r r'" "known r t" "t' \<noteq> t" "recorded_as r t' ph now"
  shows "recorded_as r' t' ph now"
proof -
  have k: "known r t'" using assms(4) by (simp add: recorded_as_def)
  then have "tag_slot t' \<noteq> tag_slot t" using known_slots [OF assms(2)] assms(3) by blast
  then show ?thesis using assms(1,4) touches_known [OF assms(1) k] by (simp add: recorded_as_def touches_def)
qed

lemma touches_ok: "touches t r r' \<Longrightarrow> recorder_ok r \<Longrightarrow> recorder_ok r'"
  by (simp add: touches_def sound_def)

text \<open>A report in the right phase is taken.\<close>

lemma index_recorded:
  assumes "recorder_ok r" "recorded_as r t ph now"
  shows "index t ph now r = (Some (tag_slot t), r)" "tag_slot t < length (entries r)"
  using assms by (auto simp: index_result recorded_as_def known_def recorder_ok_def)

lemma queued_recorded:
  assumes "recorder_ok r" "recorded_as r t Accepted now"
  shows "recorded_as (queued t now r) t Queued now" "rec_counters (queued t now r) = rec_counters r"
    "queued_us (entries (queued t now r) ! tag_slot t) = Some now"
  using assms index_recorded [OF assms] recorder_ok_entry [OF assms(1), of "tag_slot t"]
  by (auto simp: queued_def recorded_as_def known_def last_us_def entry_ok_def split: option.splits)

lemma picked_recorded:
  assumes "recorder_ok r" "recorded_as r t Queued now"
  shows "recorded_as (picked t now r) t Picked now" "rec_counters (picked t now r) = rec_counters r"
    "picked_us (entries (picked t now r) ! tag_slot t) = Some now"
  using assms index_recorded [OF assms] by (auto simp: picked_def recorded_as_def known_def last_us_def)

lemma finished_recorded:
  assumes "recorder_ok r" "recorded_as r t Picked now"
  shows "entry_phase (entries (finished t now res r) ! tag_slot t) = Finished" "rec_counters (finished t now res r) = rec_counters r"
    "finished_us (entries (finished t now res r) ! tag_slot t) = Some now"
    "completion (entries (finished t now res r) ! tag_slot t) = Some res"
  using assms index_recorded [OF assms] by (auto simp: finished_def)

text \<open>Accepting a packet adds a record in a new slot, or changes counters only.\<close>

definition new_record :: "probe_tag \<Rightarrow> u64 \<Rightarrow> 'e recorder \<Rightarrow> 'e recorder \<Rightarrow> bool" where
  "new_record t now r r' \<longleftrightarrow>
     tag_slot t = used r \<and> used r < length (entries r) \<and> used r' = used r + 1 \<and>
     (\<exists>c sq. entries r' = (entries r)[used r := EMPTY\<lparr>entry_tag := t, cycle := c, sequence := sq, accepted_us := now\<rparr>])"

lemma accept_cases:
  assumes "recorder_ok r" "accept c sq now r = (t, r')"
  shows "(t = None \<and> (\<exists>k. r' = r\<lparr>rec_counters := k\<rparr>)) \<or> (\<exists>x. t = Some x \<and> new_record x now r r')"
proof (cases t)
  case None
  then have "\<exists>k. r\<lparr>rec_counters := k\<rparr> = r'"
    using assms(2) by (auto simp: accept_def invalid_def Let_def split: if_splits option.splits)
  then show ?thesis using None by metis
next
  case (Some x)
  moreover have "used r \<le> length (entries r)" using assms(1) by (simp add: recorder_ok_def)
  ultimately show ?thesis
    using assms(2) by (auto simp: accept_def new_record_def Let_def split: if_splits option.splits intro!: exI [of _ c] exI [of _ sq])
qed

lemma accept_msdu_cases:
  assumes "recorder_ok (recorder p)" "recorder (between p) = recorder p" "accept_msdu ethernet between now p = (t, p')"
  shows "(t = None \<and> (\<exists>k. recorder p' = (recorder p)\<lparr>rec_counters := k\<rparr>)) \<or>
    (\<exists>x. t = Some x \<and> new_record x now (recorder p) (recorder p'))"
proof -
  consider "t = None" "recorder p' = (recorder p)\<lparr>rec_counters := rec_counters (recorder p)\<rparr>"
    | c where "t = None" "recorder p' = (recorder p)\<lparr>rec_counters := c\<rparr>"
    | c sq where "accept c sq now (recorder p) = (t, recorder p')"
    using assms(2,3) by (auto simp: accept_msdu_def Let_def split: option.splits if_splits prod.splits)
  then show ?thesis using accept_cases [OF assms(1)] by cases blast+
qed

lemma new_record_keeps:
  assumes "new_record x now r r'"
  shows "\<not> known r x" "recorded_as r' x Accepted now" "known r y \<Longrightarrow> known r' y" "recorded_as r y ph n \<Longrightarrow> recorded_as r' y ph n"
proof -
  have old: "i < used r \<Longrightarrow> entries r' ! i = entries r ! i" for i using assms by (auto simp: new_record_def)
  show "\<not> known r x" using assms by (simp add: new_record_def known_def)
  show "recorded_as r' x Accepted now" using assms by (auto simp: new_record_def known_def recorded_as_def EMPTY_def last_us_def)
  show "known r y \<Longrightarrow> known r' y" "recorded_as r y ph n \<Longrightarrow> recorded_as r' y ph n"
    using assms old [of "tag_slot y"] by (auto simp: new_record_def known_def recorded_as_def)
qed

lemma accept_msdu_records:
  assumes "recorder_ok (recorder p)" "recorder (between p) = recorder p" "accept_msdu ethernet between now p = (t, p')"
  shows "recorder_ok (recorder p') \<and> (\<forall>x. known (recorder p) x \<longrightarrow> known (recorder p') x) \<and>
    (\<forall>x ph n. recorded_as (recorder p) x ph n \<longrightarrow> recorded_as (recorder p') x ph n) \<and>
    (\<forall>x. t = Some x \<longrightarrow> \<not> known (recorder p) x \<and> recorded_as (recorder p') x Accepted now)"
proof -
  have ok: "recorder_ok (recorder p')"
    using accept_msdu_sound [OF _ assms(3)] assms(1,2) by (simp add: sound_def)
  from accept_msdu_cases [OF assms] show ?thesis
  proof
    assume "t = None \<and> (\<exists>k. recorder p' = (recorder p)\<lparr>rec_counters := k\<rparr>)"
    then show ?thesis using ok by (auto simp: known_def recorded_as_def)
  next
    assume "\<exists>x. t = Some x \<and> new_record x now (recorder p) (recorder p')"
    then show ?thesis using ok new_record_keeps by fastforce
  qed
qed

section \<open>Runs\<close>

text \<open>
  One queue and the probe. Packets are accepted by the probe and get tags, which their callers hold;
  a tag goes with one frame into this queue, or it goes away, with a packet that is not sent or
  into another queue, which reports on its own. The clock does not go back.
\<close>

record ('b, 'r, 'e) tagged_sys =
  tq :: "('b tagged, 'r, 'e) txq_sys"
  tp :: "'e probe"
  clock :: u64
  held :: "probe_tag set"
  away :: "probe_tag set"

inductive tagged_reach :: "nat \<Rightarrow> ('b, 'r, 'e) tagged_sys \<Rightarrow> bool" for N where
  tagged_new: "tagged_reach N \<lparr>tq = txq_init N, tp = STATE, clock = now, held = {}, away = {}\<rparr>"
| tagged_accept: "tagged_reach N s \<Longrightarrow> clock s \<le> now \<Longrightarrow> recorder (between (tp s)) = recorder (tp s) \<Longrightarrow>
    accept_msdu ethernet between now (tp s) = (t, p) \<Longrightarrow>
    tagged_reach N (s\<lparr>tp := p, clock := now, held := held s \<union> set_option t\<rparr>)"
| tagged_arm: "tagged_reach N s \<Longrightarrow> arm c gw (tp s) = (ok, p) \<Longrightarrow> tagged_reach N (s\<lparr>tp := p\<rparr>)"
| tagged_disarm: "tagged_reach N s \<Longrightarrow> tagged_reach N (s\<lparr>tp := disarm (tp s)\<rparr>)"
| tagged_enqueue: "tagged_reach N s \<Longrightarrow> clock s \<le> now \<Longrightarrow> set_option (tag_of f) \<subseteq> held s \<Longrightarrow>
    enqueue_frame_tagged N now f (queue (tq s)) (tp s) = Inr (c, q, eff, p) \<Longrightarrow>
    tagged_reach N (s\<lparr>tq := (tq s)\<lparr>queue := q, history := history (tq s) @ [f], released := released (tq s) + effect_buffers eff\<rparr>,
      tp := p, clock := now, held := held s - set_option (tag_of f)\<rparr>)"
| tagged_receive: "tagged_reach N s \<Longrightarrow> clock s \<le> now \<Longrightarrow> inflight (tq s) = None \<Longrightarrow>
    try_receive_tagged N now (queue (tq s)) (tp s) = Inr (Some (i, f, q), p) \<Longrightarrow>
    tagged_reach N (s\<lparr>tq := (tq s)\<lparr>queue := q, inflight := Some (i, f)\<rparr>, tp := p, clock := now\<rparr>)"
| tagged_complete: "tagged_reach N s \<Longrightarrow> clock s \<le> now \<Longrightarrow> inflight (tq s) = Some (i, f) \<Longrightarrow>
    transmit_tagged i f res now (queue (tq s)) (tp s) = (q, eff, p) \<Longrightarrow>
    tagged_reach N (s\<lparr>tq := (tq s)\<lparr>queue := q, inflight := None, released := released (tq s) + effect_buffers eff\<rparr>,
      tp := p, clock := now\<rparr>)"
| tagged_abort: "tagged_reach N s \<Longrightarrow> inflight (tq s) = Some (i, f) \<Longrightarrow> InProgressTransmission_drop i f (queue (tq s)) = (q, eff) \<Longrightarrow>
    tagged_reach N (s\<lparr>tq := (tq s)\<lparr>queue := q, inflight := None, released := released (tq s) + effect_buffers eff\<rparr>\<rparr>)"
| tagged_poll: "tagged_reach N s \<Longrightarrow> wait_for_completion N c (queue (tq s)) = (r, q, eff) \<Longrightarrow>
    tagged_reach N (s\<lparr>tq := (tq s)\<lparr>queue := q, returned := returned (tq s) + poll_buffers r\<rparr>\<rparr>)"
| tagged_drop: "tagged_reach N s \<Longrightarrow> PendingTransmission_drop N c (queue (tq s)) = (q, eff) \<Longrightarrow>
    tagged_reach N (s\<lparr>tq := (tq s)\<lparr>queue := q, released := released (tq s) + effect_buffers eff\<rparr>\<rparr>)"
| tagged_leave: "tagged_reach N s \<Longrightarrow> t \<in> held s \<Longrightarrow> tagged_reach N (s\<lparr>held := held s - {t}, away := insert t (away s)\<rparr>)"
| tagged_elsewhere: "tagged_reach N s \<Longrightarrow> clock s \<le> now \<Longrightarrow> t \<in> away s \<Longrightarrow>
    p \<in> {probe_queued t now (tp s), probe_picked t now (tp s), probe_finished t res now (tp s)} \<Longrightarrow>
    tagged_reach N (s\<lparr>tp := p, clock := now\<rparr>)"

section \<open>The invariant\<close>

text \<open>Every tag of the probe is in one place: with a caller, away, or on one frame of the queue.\<close>

definition tags_apart :: "('b tagged, 'r) pending_frame list \<Rightarrow> probe_tag set \<Rightarrow> probe_tag set \<Rightarrow> bool" where
  "tags_apart h hs as \<longleftrightarrow>
     hs \<inter> as = {} \<and> (\<forall>g<length h. \<forall>t. tag_of (h ! g) = Some t \<longrightarrow> t \<notin> hs \<and> t \<notin> as \<and> (\<forall>k<length h. tag_of (h ! k) = Some t \<longrightarrow> k = g))"

text \<open>The records of the queued frames, the first of which is number \<open>lo\<close> and may be with the radio.\<close>

definition live_records :: "nat \<Rightarrow> bool \<Rightarrow> ('b tagged, 'r) pending_frame list \<Rightarrow> 'e recorder \<Rightarrow> u64 \<Rightarrow> bool" where
  "live_records lo busy h r now \<longleftrightarrow>
     (\<forall>g t. lo \<le> g \<longrightarrow> g < length h \<longrightarrow> tag_of (h ! g) = Some t \<longrightarrow>
        recorded_as r t (if g = lo \<and> busy then Picked else Queued) now)"

definition all_known :: "('b tagged, 'r) pending_frame list \<Rightarrow> probe_tag set \<Rightarrow> 'e recorder \<Rightarrow> bool" where
  "all_known h as r \<longleftrightarrow> (\<forall>t\<in>as. known r t) \<and> (\<forall>g<length h. \<forall>t. tag_of (h ! g) = Some t \<longrightarrow> known r t)"

definition first_live :: "nat \<Rightarrow> ('b, 'r, 'e) txq_sys \<Rightarrow> nat" where
  "first_live N s = counter (queue s) - queue_len N (queue s)"

definition tagged_inv :: "nat \<Rightarrow> ('b, 'r, 'e) tagged_sys \<Rightarrow> bool" where
  "tagged_inv N s \<longleftrightarrow>
     txq_inv N (tq s) \<and> recorder_ok (recorder (tp s)) \<and> tags_apart (history (tq s)) (held s) (away s) \<and>
     (\<forall>t\<in>held s. recorded_as (recorder (tp s)) t Accepted (clock s)) \<and>
     all_known (history (tq s)) (away s) (recorder (tp s)) \<and>
     live_records (first_live N (tq s)) (inflight (tq s) \<noteq> None) (history (tq s)) (recorder (tp s)) (clock s)"

lemma tagged_invD:
  assumes "tagged_inv N s"
  shows "txq_inv N (tq s)" "recorder_ok (recorder (tp s))" "tags_apart (history (tq s)) (held s) (away s)"
    "\<And>t. t \<in> held s \<Longrightarrow> recorded_as (recorder (tp s)) t Accepted (clock s)"
    "all_known (history (tq s)) (away s) (recorder (tp s))"
    "live_records (first_live N (tq s)) (inflight (tq s) \<noteq> None) (history (tq s)) (recorder (tp s)) (clock s)"
  using assms unfolding tagged_inv_def by blast+

lemma live_recordsD:
  "live_records lo busy h r now \<Longrightarrow> lo \<le> g \<Longrightarrow> g < length h \<Longrightarrow> tag_of (h ! g) = Some t \<Longrightarrow>
   recorded_as r t (if g = lo \<and> busy then Picked else Queued) now"
  by (simp add: live_records_def)

text \<open>A report about a tag keeps what is recorded of all the other ones.\<close>

lemma live_records_touched:
  assumes "live_records lo busy h r now" "touches t r r'" "known r t" "now \<le> now'"
    and "\<And>g. lo \<le> g \<Longrightarrow> g < length h \<Longrightarrow> tag_of (h ! g) \<noteq> Some t"
  shows "live_records lo busy h r' now'"
  unfolding live_records_def
proof (intro allI impI)
  fix g x
  assume g: "lo \<le> g" "g < length h" "tag_of (h ! g) = Some x"
  then have "x \<noteq> t" using assms(5) [OF g(1,2)] by auto
  then show "recorded_as r' x (if g = lo \<and> busy then Picked else Queued) now'"
    using live_recordsD [OF assms(1) g] touches_recorded [OF assms(2,3)] recorded_later [OF _ assms(4)] by blast
qed

lemma all_known_touched: "all_known h as r \<Longrightarrow> touches t r r' \<Longrightarrow> all_known h as r'"
  using touches_known unfolding all_known_def by blast

lemma history_length: "txq_inv N s \<Longrightarrow> length (history s) = counter (queue s)"
  using ring_pos(4) [OF txq_invD(4)] by blast

text \<open>The frame at the front is the first live one.\<close>

lemma inflight_first:
  assumes "txq_inv N s" "inflight s = Some (i, f)"
  shows "f = history s ! first_live N s" "first_live N s < length (history s)" "0 < queue_len N (queue s)"
proof -
  note R = ring_inflight [OF txq_invD(4) [OF assms(1)] assms(2)] and P = ring_pos [OF txq_invD(4) [OF assms(1)]]
  show "f = history s ! first_live N s" "first_live N s < length (history s)" "0 < queue_len N (queue s)"
    using R P(2) history_length [OF assms(1)] by (simp_all add: first_live_def)
qed

lemma received_first:
  assumes "txq_inv N s" "inflight s = None" "try_receive N (queue s) = Inr (Some (i, f, q))"
  shows "f = history s ! first_live N s" "first_live N s < length (history s)"
    "first_live N (s\<lparr>queue := q, inflight := Some (i, f)\<rparr>) = first_live N s"
proof -
  have ne: "\<not> queue_is_empty N (queue s)" using assms(3) by (auto simp: try_receive_def)
  have q: "f = history s ! first_live N s" "q = set_slot i InProgress (return_data_expected (queue s) i) (queue s)"
    using assms(3) try_receive_idle [OF assms(1,2) ne] by (auto simp: Let_def first_live_def)
  have "inflight (s\<lparr>queue := q, inflight := Some (i, f)\<rparr>) = Some (i, f)" by simp
  note F = inflight_first [OF txq_receive_inv [OF assms] this]
  show "f = history s ! first_live N s" by (rule q(1))
  show "first_live N (s\<lparr>queue := q, inflight := Some (i, f)\<rparr>) = first_live N s" using q(2) by (simp add: first_live_def)
  then show "first_live N s < length (history s)" using F(2) by simp
qed

lemma finished_first:
  assumes "txq_inv N s" "inflight s = Some (i, f)" "finish i v (queue s) = (q, eff)"
  shows "first_live N (s\<lparr>queue := q, inflight := None, released := m\<rparr>) = first_live N s + 1"
proof -
  note I = txq_invD [OF assms(1)]
  have l: "0 < queue_len N (queue s)" "queue_len N (queue s) \<le> counter (queue s)" "i < N"
    using ring_inflight [OF I(4) assms(2)] ring_pos [OF I(4)] by auto
  note F = finish_result [OF assms(3), unfolded I(1), OF l(3)]
  show ?thesis using F(1,2) l I(2) by (simp add: first_live_def queue_len_def)
qed

lemma enqueued_first:
  assumes "txq_inv N s" "enqueue_frame N f (queue s) = Inr (c, q, eff)"
  shows "first_live N (s\<lparr>queue := q, history := h, released := m\<rparr>) = first_live N s"
proof -
  note I = txq_invD [OF assms(1)] and E = enqueue_frame_Inr [OF assms(2)]
  show ?thesis using E(1,4) I(2) ring_pos(2) [OF I(4)] by (simp add: first_live_def queue_len_def)
qed

section \<open>Every step keeps it\<close>

lemma records_counters [simp]:
  "known (r\<lparr>rec_counters := c\<rparr>) t = known r t" "recorded_as (r\<lparr>rec_counters := c\<rparr>) t ph now = recorded_as r t ph now"
  "all_known h as (r\<lparr>rec_counters := c\<rparr>) = all_known h as r"
  "live_records lo busy h (r\<lparr>rec_counters := c\<rparr>) now = live_records lo busy h r now"
  by (simp_all add: known_def recorded_as_def all_known_def live_records_def)

lemma live_records_later: "live_records lo busy h r now \<Longrightarrow> now \<le> now' \<Longrightarrow> live_records lo busy h r now'"
  using recorded_later unfolding live_records_def by blast

lemma live_records_next:
  assumes "live_records lo busy h r now"
  shows "live_records (lo + 1) False h r now"
  unfolding live_records_def
proof (intro allI impI)
  fix g t
  assume g: "lo + 1 \<le> g" "g < length h" "tag_of (h ! g) = Some t"
  then show "recorded_as r t (if g = lo + 1 \<and> False then Picked else Queued) now"
    using live_recordsD [OF assms _ g(2,3)] by simp
qed

lemma live_records_front:
  assumes "live_records (lo + 1) False h r now" "\<And>t. tag_of (h ! lo) = Some t \<Longrightarrow> recorded_as r t Picked now"
  shows "live_records lo True h r now"
  unfolding live_records_def
proof (intro allI impI)
  fix g t
  assume g: "lo \<le> g" "g < length h" "tag_of (h ! g) = Some t"
  show "recorded_as r t (if g = lo \<and> True then Picked else Queued) now"
  proof (cases "g = lo")
    case True
    then show ?thesis using assms(2) g(3) by simp
  next
    case False
    then show ?thesis using live_recordsD [OF assms(1) _ g(2,3)] g(1) by simp
  qed
qed

lemma tagged_accept_inv:
  assumes inv: "tagged_inv N s" and time: "clock s \<le> now" and b: "recorder (between (tp s)) = recorder (tp s)"
    and a: "accept_msdu ethernet between now (tp s) = (t, p)"
  shows "tagged_inv N (s\<lparr>tp := p, clock := now, held := held s \<union> set_option t\<rparr>)"
proof -
  note I = tagged_invD [OF inv]
  note A = accept_msdu_records [OF I(2) b a]
  have fresh: "x \<notin> away s" "\<And>g. g < length (history (tq s)) \<Longrightarrow> tag_of (history (tq s) ! g) \<noteq> Some x" if "t = Some x" for x
    using A I(5) that by (auto simp: all_known_def)
  have "tags_apart (history (tq s)) (held s \<union> set_option t) (away s)"
    using I(3) fresh by (cases t) (auto simp: tags_apart_def)
  moreover have "live_records (first_live N (tq s)) (inflight (tq s) \<noteq> None) (history (tq s)) (recorder p) now"
    using live_records_later [OF I(6) time] A by (simp add: live_records_def)
  moreover have "recorded_as (recorder p) x Accepted now" if "x \<in> held s \<union> set_option t" for x
    using that A recorded_later [OF I(4) time] by auto
  moreover have "all_known (history (tq s)) (away s) (recorder p)" using I(5) A by (auto simp: all_known_def)
  ultimately show ?thesis using I(1) A by (simp add: tagged_inv_def)
qed

lemma report_queued: "recorder (report (\<lambda>t. probe_queued t now) x p) = (case x of None \<Rightarrow> recorder p | Some t \<Rightarrow> queued t now (recorder p))"
  and report_picked: "recorder (report (\<lambda>t. probe_picked t now) x p) = (case x of None \<Rightarrow> recorder p | Some t \<Rightarrow> picked t now (recorder p))"
  and report_finished: "recorder (report (\<lambda>t. probe_finished t res now) x p) = (case x of None \<Rightarrow> recorder p | Some t \<Rightarrow> finished t now res (recorder p))"
  by (simp_all add: report_def probe_queued_def probe_picked_def probe_finished_def split: option.split)

lemma tagged_enqueue_inv:
  assumes inv: "tagged_inv N s" and time: "clock s \<le> now" and h: "set_option (tag_of f) \<subseteq> held s"
    and e: "enqueue_frame_tagged N now f (queue (tq s)) (tp s) = Inr (c, q, eff, p)"
  shows "tagged_inv N (s\<lparr>tq := (tq s)\<lparr>queue := q, history := history (tq s) @ [f], released := released (tq s) + effect_buffers eff\<rparr>,
      tp := p, clock := now, held := held s - set_option (tag_of f)\<rparr>)"
proof -
  note I = tagged_invD [OF inv]
  have E: "enqueue_frame N f (queue (tq s)) = Inr (c, q, eff)" "p = report (\<lambda>t. probe_queued t now) (tag_of f) (tp s)"
    using e by (auto simp: enqueue_frame_tagged_def split: sum.splits)
  let ?h = "history (tq s)" and ?r = "recorder (tp s)" and ?lo = "first_live N (tq s)" and ?busy = "inflight (tq s) \<noteq> None"
  have new: "first_live N ((tq s)\<lparr>queue := q, history := ?h @ [f], released := released (tq s) + effect_buffers eff\<rparr>) = ?lo"
    "txq_inv N ((tq s)\<lparr>queue := q, history := ?h @ [f], released := released (tq s) + effect_buffers eff\<rparr>)"
    by (rule enqueued_first [OF I(1) E(1)], rule txq_enqueue_inv [OF I(1) E(1)])
  have busy: "?busy \<Longrightarrow> ?lo < length ?h" using inflight_first(2) [OF I(1)] by auto
  have apart: "tags_apart (?h @ [f]) (held s - set_option (tag_of f)) (away s)"
    using I(3) h by (auto simp: tags_apart_def nth_append less_Suc_eq)
  show ?thesis
  proof (cases "tag_of f")
    case None
    have "live_records ?lo ?busy (?h @ [f]) ?r now"
      using live_records_later [OF I(6) time] None by (auto simp: live_records_def nth_append less_Suc_eq)
    moreover have "all_known (?h @ [f]) (away s) ?r" using I(5) None by (auto simp: all_known_def nth_append less_Suc_eq)
    ultimately show ?thesis using new apart I(2) recorded_later [OF I(4) time] None E(2)
      by (simp add: tagged_inv_def report_def)
  next
    case (Some t)
    then have t: "t \<in> held s" using h by simp
    let ?r' = "queued t now ?r"
    have at: "recorded_as ?r t Accepted now" "known ?r t"
      using recorded_later [OF I(4) [OF t] time] by (auto simp: recorded_as_def)
    note T = touches_queued [of t ?r now] and Q = queued_recorded [OF I(2) at(1)]
    have "live_records ?lo ?busy ?h ?r' now"
      by (rule live_records_touched [OF I(6) T at(2) time]) (use I(3) t in \<open>auto simp: tags_apart_def\<close>)
    then have "live_records ?lo ?busy (?h @ [f]) ?r' now"
      using Q(1) Some busy by (auto simp: live_records_def nth_append less_Suc_eq)
    moreover have "all_known (?h @ [f]) (away s) ?r'"
      using all_known_touched [OF I(5) T] Q(1) Some by (auto simp: all_known_def nth_append less_Suc_eq recorded_as_def)
    moreover have "recorded_as ?r' x Accepted now" if "x \<in> held s - {t}" for x
      using touches_recorded [OF T at(2)] recorded_later [OF I(4) time] that by blast
    moreover have "recorder p = ?r'" using E(2) Some by (simp add: report_queued)
    ultimately show ?thesis using new apart touches_ok [OF T I(2)] Some by (simp add: tagged_inv_def)
  qed
qed

text \<open>The tag of a live frame is on no other one, and with no caller.\<close>

lemma live_tag_alone:
  assumes "tags_apart h hs as" "g < length h" "tag_of (h ! g) = Some t"
  shows "t \<notin> hs" "t \<notin> as" "\<And>k. k < length h \<Longrightarrow> k \<noteq> g \<Longrightarrow> tag_of (h ! k) \<noteq> Some t"
  using assms unfolding tags_apart_def by blast+

lemma tagged_receive_inv:
  assumes inv: "tagged_inv N s" and time: "clock s \<le> now" and idle: "inflight (tq s) = None"
    and e: "try_receive_tagged N now (queue (tq s)) (tp s) = Inr (Some (i, f, q), p)"
  shows "tagged_inv N (s\<lparr>tq := (tq s)\<lparr>queue := q, inflight := Some (i, f)\<rparr>, tp := p, clock := now\<rparr>)"
proof -
  note I = tagged_invD [OF inv]
  have E: "try_receive N (queue (tq s)) = Inr (Some (i, f, q))" "p = report (\<lambda>t. probe_picked t now) (tag_of f) (tp s)"
    using e by (auto simp: try_receive_tagged_def split: sum.splits option.splits)
  let ?h = "history (tq s)" and ?r = "recorder (tp s)" and ?lo = "first_live N (tq s)"
  note F = received_first [OF I(1) idle E(1)] and new = txq_receive_inv [OF I(1) idle E(1)]
  show ?thesis
  proof (cases "tag_of f")
    case None
    have "live_records ?lo True ?h ?r now"
      using live_records_later [OF I(6) time] None F(1) by (auto simp: live_records_def idle)
    then show ?thesis using new F(3) I(2,3,5) recorded_later [OF I(4) time] None E(2)
      by (simp add: tagged_inv_def report_def)
  next
    case (Some t)
    then have t: "tag_of (?h ! ?lo) = Some t" using F(1) by simp
    note alone = live_tag_alone [OF I(3) F(2) t]
    let ?r' = "picked t now ?r"
    have at: "recorded_as ?r t Queued now" "known ?r t"
      using recorded_later [OF live_recordsD [OF I(6) order.refl F(2) t] time] by (auto simp: idle recorded_as_def)
    note T = touches_picked [of t ?r now] and Q = picked_recorded [OF I(2) at(1)]
    have "live_records (?lo + 1) False ?h ?r now"
      by (rule live_records_next [OF live_records_later [OF I(6) time]])
    then have "live_records (?lo + 1) False ?h ?r' now"
      by (rule live_records_touched [OF _ T at(2) order.refl]) (use alone(3) in auto)
    then have "live_records ?lo True ?h ?r' now"
      by (rule live_records_front) (use Q(1) t in simp)
    moreover have "recorded_as ?r' x Accepted now" if "x \<in> held s" for x
      using touches_recorded [OF T at(2) _ recorded_later [OF I(4) [OF that] time]] that alone(1) by auto
    moreover have "recorder p = ?r'" using E(2) Some by (simp add: report_picked)
    ultimately show ?thesis using new F(3) I(3) all_known_touched [OF I(5) T] touches_ok [OF T I(2)]
      by (simp add: tagged_inv_def)
  qed
qed

lemma inflight_tag:
  assumes "tagged_inv N s" "inflight (tq s) = Some (i, f)" "tag_of f = Some t"
  shows "recorded_as (recorder (tp s)) t Picked (clock s)" "t \<notin> held s" "t \<notin> away s"
    "\<And>k. k < length (history (tq s)) \<Longrightarrow> k \<noteq> first_live N (tq s) \<Longrightarrow> tag_of (history (tq s) ! k) \<noteq> Some t"
proof -
  note I = tagged_invD [OF assms(1)] and F = inflight_first [OF tagged_invD(1) [OF assms(1)] assms(2)]
  have t: "tag_of (history (tq s) ! first_live N (tq s)) = Some t" using F(1) assms(3) by simp
  show "recorded_as (recorder (tp s)) t Picked (clock s)"
    using live_recordsD [OF I(6) order.refl F(2) t] assms(2) by simp
  show "t \<notin> held s" "t \<notin> away s"
    "\<And>k. k < length (history (tq s)) \<Longrightarrow> k \<noteq> first_live N (tq s) \<Longrightarrow> tag_of (history (tq s) ! k) \<noteq> Some t"
    using live_tag_alone [OF I(3) F(2) t] by blast+
qed

lemma tagged_complete_inv:
  assumes inv: "tagged_inv N s" and time: "clock s \<le> now" and fl: "inflight (tq s) = Some (i, f)"
    and e: "transmit_tagged i f res now (queue (tq s)) (tp s) = (q, eff, p)"
  shows "tagged_inv N (s\<lparr>tq := (tq s)\<lparr>queue := q, inflight := None, released := released (tq s) + effect_buffers eff\<rparr>,
      tp := p, clock := now\<rparr>)"
proof -
  note I = tagged_invD [OF inv]
  have E: "transmit i f res (queue (tq s)) = (q, eff)" "p = report (\<lambda>t. probe_finished t res now) (tag_of f) (tp s)"
    using e by (auto simp: transmit_tagged_def Let_def split: prod.splits)
  let ?h = "history (tq s)" and ?r = "recorder (tp s)" and ?lo = "first_live N (tq s)"
  note new = txq_complete_inv [OF I(1) fl E(1)] finished_first [OF I(1) fl E(1) [unfolded transmit_def]]
  have live: "live_records (?lo + 1) False ?h ?r now"
    by (rule live_records_next [OF live_records_later [OF I(6) time]])
  show ?thesis
  proof (cases "tag_of f")
    case None
    then show ?thesis using new live I(2,3,5) recorded_later [OF I(4) time] E(2) by (simp add: tagged_inv_def report_def)
  next
    case (Some t)
    note A = inflight_tag [OF inv fl Some]
    let ?r' = "finished t now res ?r"
    have k: "known ?r t" using A(1) by (simp add: recorded_as_def)
    note T = touches_finished [of t ?r now res]
    have "live_records (?lo + 1) False ?h ?r' now"
      by (rule live_records_touched [OF live T k order.refl]) (use A(4) in auto)
    moreover have "recorded_as ?r' x Accepted now" if "x \<in> held s" for x
      using touches_recorded [OF T k _ recorded_later [OF I(4) [OF that] time]] that A(2) by auto
    moreover have "recorder p = ?r'" using E(2) Some by (simp add: report_finished)
    ultimately show ?thesis using new I(3) all_known_touched [OF I(5) T] touches_ok [OF T I(2)]
      by (simp add: tagged_inv_def)
  qed
qed

lemma tagged_abort_inv:
  assumes inv: "tagged_inv N s" and fl: "inflight (tq s) = Some (i, f)" and e: "InProgressTransmission_drop i f (queue (tq s)) = (q, eff)"
  shows "tagged_inv N (s\<lparr>tq := (tq s)\<lparr>queue := q, inflight := None, released := released (tq s) + effect_buffers eff\<rparr>\<rparr>)"
proof -
  note I = tagged_invD [OF inv]
  obtain e' where E: "finish i Empty (queue (tq s)) = (q, e')"
    using e by (auto simp: InProgressTransmission_drop_def split: prod.splits)
  show ?thesis
    using txq_abort_inv [OF I(1) fl e] finished_first [OF I(1) fl E] live_records_next [OF I(6)] I(2-5)
    by (simp add: tagged_inv_def)
qed

lemma handle_first:
  "wait_for_completion N c q = (r, q', eff) \<Longrightarrow> counter q' = counter q \<and> capacity q' = capacity q"
  "PendingTransmission_drop N c q = (q', eff) \<Longrightarrow> counter q' = counter q \<and> capacity q' = capacity q"
  by (auto simp: wait_for_completion_def PendingTransmission_drop_def Let_def split: if_splits tx_queue_slot.splits)

lemma tagged_handle_inv:
  assumes "tagged_inv N s" "txq_inv N x" "history x = history (tq s)" "inflight x = inflight (tq s)"
    and "counter (queue x) = counter (queue (tq s))" "capacity (queue x) = capacity (queue (tq s))"
  shows "tagged_inv N (s\<lparr>tq := x\<rparr>)"
  using assms by (simp add: tagged_inv_def first_live_def queue_len_def)

lemma tagged_elsewhere_inv:
  assumes inv: "tagged_inv N s" and time: "clock s \<le> now" and t: "t \<in> away s" and T: "touches t (recorder (tp s)) (recorder p)"
  shows "tagged_inv N (s\<lparr>tp := p, clock := now\<rparr>)"
proof -
  note I = tagged_invD [OF inv]
  have k: "known (recorder (tp s)) t" using I(5) t by (simp add: all_known_def)
  have "live_records (first_live N (tq s)) (inflight (tq s) \<noteq> None) (history (tq s)) (recorder p) now"
    by (rule live_records_touched [OF I(6) T k time]) (use I(3) t in \<open>auto simp: tags_apart_def\<close>)
  moreover have "recorded_as (recorder p) x Accepted now" if "x \<in> held s" for x
    using touches_recorded [OF T k _ recorded_later [OF I(4) [OF that] time]] that t I(3) by (auto simp: tags_apart_def)
  ultimately show ?thesis using I(1,3) all_known_touched [OF I(5) T] touches_ok [OF T I(2)] by (simp add: tagged_inv_def)
qed

lemma tagged_reach_inv:
  assumes "0 < N"
  shows "tagged_reach N s \<Longrightarrow> tagged_inv N s"
proof (induction rule: tagged_reach.induct)
  case (tagged_new now)
  show ?case using txq_inv_init [OF assms] STATE_ok
    by (simp add: tagged_inv_def tags_apart_def all_known_def live_records_def txq_init_def)
next
  case (tagged_accept s now between ethernet t p)
  then show ?case by (blast intro: tagged_accept_inv)
next
  case (tagged_arm s c gw ok p)
  have "sound (recorder (tp s)) (recorder p)" using arm_sound [of "tp s" c gw] tagged_arm(2) by simp
  moreover have "\<exists>k. recorder p = (recorder (tp s))\<lparr>rec_counters := k\<rparr>"
    using tagged_arm(2) by (auto simp: arm_def invalid_def intro: exI [of _ "rec_counters (recorder (tp s))"] split: option.splits if_splits)
  ultimately show ?case using tagged_arm.IH by (auto simp: tagged_inv_def sound_def)
next
  case (tagged_disarm s)
  then show ?case by (simp add: tagged_inv_def disarm_def)
next
  case (tagged_enqueue s now f c q eff p)
  then show ?case by (blast intro: tagged_enqueue_inv)
next
  case (tagged_receive s now i f q p)
  then show ?case by (blast intro: tagged_receive_inv)
next
  case (tagged_complete s now i f res q eff p)
  then show ?case by (blast intro: tagged_complete_inv)
next
  case (tagged_abort s i f q eff)
  then show ?case by (blast intro: tagged_abort_inv)
next
  case (tagged_poll s c r q eff)
  show ?case
    using txq_poll_inv [OF tagged_invD(1) [OF tagged_poll.IH] tagged_poll.hyps(2)] handle_first(1) [OF tagged_poll.hyps(2)]
    by (intro tagged_handle_inv [OF tagged_poll.IH]) simp_all
next
  case (tagged_drop s c q eff)
  show ?case
    using txq_drop_inv [OF tagged_invD(1) [OF tagged_drop.IH] tagged_drop.hyps(2)] handle_first(2) [OF tagged_drop.hyps(2)]
    by (intro tagged_handle_inv [OF tagged_drop.IH]) simp_all
next
  case (tagged_leave s t)
  then have "known (recorder (tp s)) t" using tagged_invD(4) [of N s t] by (simp add: recorded_as_def)
  then show ?case using tagged_leave by (auto simp: tagged_inv_def tags_apart_def all_known_def)
next
  case (tagged_elsewhere s now t p res)
  then have "touches t (recorder (tp s)) (recorder p)"
    using touches_events [of t "recorder (tp s)" now] by (auto simp: probe_queued_def probe_picked_def probe_finished_def)
  then show ?case using tagged_elsewhere by (blast intro: tagged_elsewhere_inv)
qed

section \<open>The records are complete and true\<close>

text \<open>The reports of a frame that is queued or picked up are taken, with the time they are made at.\<close>

lemma enqueue_reported:
  assumes "tagged_inv N s" "clock s \<le> now" "tag_of f = Some t" "t \<in> held s"
    and "enqueue_frame_tagged N now f (queue (tq s)) (tp s) = Inr (c, q, eff, p)"
  shows "counters p = counters (tp s) \<and> queued_us (entries (recorder p) ! tag_slot t) = Some now"
proof -
  note I = tagged_invD [OF assms(1)]
  have "recorder p = queued t now (recorder (tp s))"
    using assms(3,5) by (auto simp: enqueue_frame_tagged_def report_queued split: sum.splits)
  then show ?thesis
    using queued_recorded(2,3) [OF I(2) recorded_later [OF I(4) [OF assms(4)] assms(2)]] by (simp add: counters_def)
qed

lemma receive_reported:
  assumes "tagged_inv N s" "clock s \<le> now" "inflight (tq s) = None" "tag_of f = Some t"
    and "try_receive_tagged N now (queue (tq s)) (tp s) = Inr (Some (i, f, q), p)"
  shows "counters p = counters (tp s) \<and> picked_us (entries (recorder p) ! tag_slot t) = Some now"
proof -
  note I = tagged_invD [OF assms(1)]
  have E: "try_receive N (queue (tq s)) = Inr (Some (i, f, q))" "recorder p = picked t now (recorder (tp s))"
    using assms(4,5) by (auto simp: try_receive_tagged_def report_picked split: sum.splits option.splits)
  note F = received_first [OF I(1) assms(3) E(1)]
  have "tag_of (history (tq s) ! first_live N (tq s)) = Some t" using F(1) assms(4) by simp
  then have "recorded_as (recorder (tp s)) t Queued (clock s)"
    using live_recordsD [OF I(6) order.refl F(2)] assms(3) by simp
  then show ?thesis using picked_recorded(2,3) [OF I(2) recorded_later [OF _ assms(2)]] E(2) by (simp add: counters_def)
qed

lemma finish_reported:
  assumes inv: "tagged_inv N s" and time: "clock s \<le> now" and fl: "inflight (tq s) = Some (i, f)" and t: "tag_of f = Some t"
    and e: "transmit_tagged i f res now (queue (tq s)) (tp s) = (q, eff, p)"
  shows "\<exists>e. probe_entry (tag_slot t) p = Some e \<and> entry_tag e = t \<and> entry_phase e = Finished \<and> completion e = Some res \<and>
    finished_us e = Some now \<and> entry_ok e \<and> counters p = counters (tp s)"
proof -
  note I = tagged_invD [OF inv]
  let ?r = "recorder (tp s)" and ?r' = "finished t now res (recorder (tp s))"
  have p: "recorder p = ?r'" using e t by (auto simp: transmit_tagged_def report_finished Let_def split: prod.splits)
  have at: "recorded_as ?r t Picked now" by (rule recorded_later [OF inflight_tag(1) [OF inv fl t] time])
  note T = touches_finished [of t ?r now res] and Q = finished_recorded [OF I(2) at, of res]
  have "known ?r' t" by (rule touches_known [OF T]) (use at in \<open>simp add: recorded_as_def\<close>)
  moreover have ok: "recorder_ok ?r'" by (rule touches_ok [OF T I(2)])
  ultimately have "probe_entry (tag_slot t) p = Some (entries ?r' ! tag_slot t)" "entry_tag (entries ?r' ! tag_slot t) = t"
    "entry_ok (entries ?r' ! tag_slot t)"
    by (auto simp: probe_entry_def p get_at_def known_def recorder_ok_def)
  then show ?thesis using Q by (simp add: counters_def p)
qed

text \<open>
  C36: the probe tells the truth about transmissions. In every run of a queue and its callers, with
  other queues reporting to the same probe, the record of a tagged frame that the radio finishes
  is complete: it is the record of that frame, it has the result of the radio and the time of the
  report, its times do not decrease from its acceptance on, and the report is not rejected.
\<close>

theorem tagged_frame_recorded:
  assumes "0 < N" "tagged_reach N s" "clock s \<le> now"
    and "inflight (tq s) = Some (i, f)" "tag_of f = Some t"
    and "transmit_tagged i f res now (queue (tq s)) (tp s) = (q, eff, p)"
  shows "\<exists>e. probe_entry (tag_slot t) p = Some e \<and> entry_tag e = t \<and> entry_phase e = Finished \<and> completion e = Some res \<and>
    finished_us e = Some now \<and> entry_ok e \<and> counters p = counters (tp s)"
  by (rule finish_reported [OF tagged_reach_inv [OF assms(1,2)] assms(3-6)])

text \<open>A recorded packet in a queue of one frame.\<close>

definition sample_tag :: probe_tag where
  "sample_tag = \<lparr>ordinal = 1, tag_slot = 0\<rparr>"

definition sample_tagged :: "(nat tagged, unit) pending_frame" where
  "sample_tagged = \<lparr>frame = (5, Some sample_tag), frame_length = 3, plcp_parameters = \<lparr>rate = ()\<rparr>,
      mac_parameters = \<lparr>key_slot_index = None, wait_for_ack = True, override_seq_num = True\<rparr>,
      interface = 0, retry_behaviour = Drop\<rparr>"

lemma sample_accepted:
  "\<exists>p. accept_msdu sample_echo (\<lambda>s. s) 5 (snd (arm 1 [10, 0, 0, 1] (STATE :: nat probe))) = (Some sample_tag, p)"
  using sample_echo_classified
  by (auto simp: accept_msdu_def arm_def STATE_def checked_inc_def accept_def Recorder_new_def CAPACITY_def sample_tag_def Let_def)

lemma sample_queue_steps:
  "enqueue_frame 1 sample_tagged (TxQueueState_new 1 :: (nat tagged, unit, nat) tx_queue_state) =
     Inr (0, \<lparr>queue_items = [(SlotPending sample_tagged, True)], counter = 1, capacity = 0\<rparr>, [WakeQueue])"
  "try_receive 1 (\<lparr>queue_items = [(SlotPending sample_tagged, True)], counter = 1, capacity = 0\<rparr> :: (nat tagged, unit, nat) tx_queue_state) =
     Inr (Some (0, sample_tagged, \<lparr>queue_items = [(InProgress, True)], counter = 1, capacity = 0\<rparr>))"
  by (simp_all add: TxQueueState_new_def enqueue_frame_def increase_queue_counter_def try_receive_def front_index_def queue_len_def
      queue_is_empty_def next_slot_index_def slot_at_def return_data_expected_def set_slot_def Let_def)

theorem tagged_frame_recorded_witness:
  "\<exists>s :: (nat, unit, nat) tagged_sys. tagged_reach 1 s \<and> clock s = 7 \<and> inflight (tq s) = Some (0, sample_tagged) \<and>
     (\<exists>e. probe_entry 0 (snd (snd (transmit_tagged 0 sample_tagged (Inr 3) 9 (queue (tq s)) (tp s)))) = Some e \<and>
        entry_tag e = sample_tag \<and> completion e = Some (Inr 3) \<and> finished_us e = Some 9)"
proof -
  let ?s0 = "\<lparr>tq = txq_init 1, tp = STATE, clock = 0, held = {}, away = {}\<rparr> :: (nat, unit, nat) tagged_sys"
  let ?p1 = "snd (arm 1 [10, 0, 0, 1] (STATE :: nat probe))"
  obtain p2 where a: "accept_msdu sample_echo (\<lambda>s. s) 5 ?p1 = (Some sample_tag, p2)" using sample_accepted by blast
  have "arm 1 [10, 0, 0, 1] (tp ?s0) = (fst (arm 1 [10, 0, 0, 1] (STATE :: nat probe)), ?p1)" by simp
  from tagged_arm [OF tagged_new this] have r1: "tagged_reach 1 (?s0\<lparr>tp := ?p1\<rparr>)" .
  have r2: "tagged_reach 1 (?s0\<lparr>tp := p2, clock := 5, held := {sample_tag}\<rparr>)"
    using tagged_accept [OF r1, of 5 "\<lambda>s. s" sample_echo "Some sample_tag" p2] a by simp
  let ?p3 = "report (\<lambda>t. probe_queued t 6) (tag_of sample_tagged) p2" and ?p4 = "\<lambda>p. report (\<lambda>t. probe_picked t 7) (tag_of sample_tagged) p"
  let ?q1 = "\<lparr>queue_items = [(SlotPending sample_tagged, True)], counter = 1, capacity = 0\<rparr> :: (nat tagged, unit, nat) tx_queue_state"
    and ?q2 = "\<lparr>queue_items = [(InProgress, True)], counter = 1, capacity = 0\<rparr> :: (nat tagged, unit, nat) tx_queue_state"
  have e: "enqueue_frame_tagged 1 6 sample_tagged (queue (txq_init 1)) p2 = Inr (0, ?q1, [WakeQueue], ?p3)"
    using sample_queue_steps(1) by (simp add: enqueue_frame_tagged_def txq_init_def)
  have r3: "tagged_reach 1 (?s0\<lparr>tq := (txq_init 1)\<lparr>queue := ?q1, history := [sample_tagged]\<rparr>, tp := ?p3, clock := 6\<rparr>)"
    using tagged_enqueue [OF r2, of 6 sample_tagged 0 ?q1 "[WakeQueue]" ?p3] e by (simp add: sample_tagged_def txq_init_def)
  have t: "try_receive_tagged 1 7 ?q1 ?p3 = Inr (Some (0, sample_tagged, ?q2), ?p4 ?p3)"
    using sample_queue_steps(2) by (simp add: try_receive_tagged_def)
  let ?s = "?s0\<lparr>tq := (txq_init 1)\<lparr>queue := ?q2, inflight := Some (0, sample_tagged), history := [sample_tagged]\<rparr>,
      tp := ?p4 ?p3, clock := 7\<rparr>"
  have r4: "tagged_reach 1 ?s"
    using tagged_receive [OF r3, of 7 0 sample_tagged ?q2 "?p4 ?p3"] t by (simp add: txq_init_def)
  obtain q eff p where x: "transmit_tagged 0 sample_tagged (Inr 3) 9 (queue (tq ?s)) (tp ?s) = (q, eff, p)" by (metis prod_cases3)
  have tag: "tag_of sample_tagged = Some sample_tag" "tag_slot sample_tag = 0" by (simp_all add: sample_tagged_def sample_tag_def)
  from tagged_frame_recorded [OF _ r4 _ _ tag(1) x] have "\<exists>e. probe_entry 0 p = Some e \<and> entry_tag e = sample_tag \<and>
      completion e = Some (Inr 3) \<and> finished_us e = Some 9" by (auto simp: tag(2))
  then show ?thesis using r4 x by (intro exI [of _ ?s]) simp
qed

end
