(* ===== verification/Spec2Isabelle.thy ===== *)
theory Spec2Isabelle
  imports Sta_Probe Awdl_Interface Tx_Tagged
begin

text \<open>
  \<^bold>\<open>A verification development of FoA, an IEEE 802.11 stack for the ESP32.\<close>

  \<^bold>\<open>The program.\<close> The repository has three crates. \<open>foa\<close> is the lower MAC: it owns the radio driver
  and divides it between virtual interfaces. Frames are sent through one asynchronous queue for
  every EDCA access category, with buffers of one pool; received frames are counted references
  into a second pool and are delivered to the queue of every interface they are for. The
  interfaces share the channel through a lock, and leave it through off-channel operations that
  every lock holder has to grant; hardware key slots are lent to the interfaces. \<open>foa_sta\<close> is a
  station on such an interface: it scans, connects (authentication, association, four-way
  handshake), and then runs the connection in the background, between the network stack and the
  radio. \<open>foa_awdl\<close> is an AWDL interface: peers announce themselves in action frames, a master is
  elected, and data is sent when a peer listens.

  \<^bold>\<open>The theories\<close>, in the order in which they build on each other, with the code they model (under
  \<open>src/\<close>) and what their lemmas show:

  \<^item> \<open>Foa_Prelude\<close>: words, panics, slices, polls, the bounded channel, and the locales
    \<open>allocator\<close>, \<open>replay_guard\<close> and \<open>bounded_fifo\<close>; \<open>Async_Ops\<close>: the operations of an asynchronous
    function, which may not have returned, end, fail or panic, and what a composition of them keeps.

  \<^item> \<open>Tx_Buffer\<close> (\<open>foa/src/tx_buffer_management.rs\<close>): the pool of transmit buffers. A buffer has one
    owner, is zeroed when it is lent, and none is lost.

  \<^item> \<open>Tx_Queue\<close>, \<open>Tx_Queue_Runs\<close> (\<open>foa/src/tx_queue.rs\<close>): the ring of slots with its generation
    counter, the runner and the handles. The record \<open>tx_queue_state\<close> is \<open>TxQueueState\<close>, a handle is
    its generation. \<open>txq_step\<close> is every interleaving of callers, runner and radio: no assertion of the
    runner fails, a handle only ever sees its own frame, buffers are conserved, the queue is first
    in, first out (it interprets \<open>bounded_fifo\<close>), and the inner loop of the runner ends.

  \<^item> \<open>Tx_Probe\<close> (\<open>foa/src/tx_probe.rs\<close>) and \<open>Tx_Tagged\<close> (\<open>tx_queue.rs\<close> with \<open>tx-probe\<close>): the latency
    recorder, whose classifier is equivalent to a grammar of packets and whose store only grows;
    and the queue that reports to it, of which no report is ever rejected.

  \<^item> \<open>Lmac_Crypto\<close> (\<open>foa/src/lmac/crypto.rs\<close>): the mask of key slots; live guards are distinct and no
    other slot keeps a key. \<open>Lmac_Channel\<close> (\<open>foa/src/lmac/mod.rs\<close>, \<open>off_channel.rs\<close>): the channel lock,
    its bringup guards, the grant protocol and off-channel operations, as functions of
    \<open>channel_state\<close> and as the step relation of all interfaces: exclusion, the radio back on the
    locked channel, no operation without grants. \<open>Rx_Filter\<close>: the receive filters of the driver.

  \<^item> \<open>Rx_Arc_Pool\<close> (\<open>foa/src/rx_arc_pool.rs\<close>, \<open>bg_task.rs\<close>): counted receive buffers and the delivery of
    frames in both builds; a record is occupied exactly while a handle lives (it interprets
    \<open>allocator\<close>). \<open>Rx_Router\<close> (\<open>foa/src/util/rx_router.rs\<close>): the two queues of an interface and its
    operations; one operation at a time, every frame to one queue. \<open>Scan\<close>
    (\<open>foa/src/util/operations/scan.rs\<close>): a scan ends and leaves the radio where it was.

  \<^item> \<open>Foa_Stack\<close> (\<open>foa/src/lib.rs\<close>): resources, the initialisation, virtual interfaces and the receive
    loop; frames reach the runner of their endpoint. \<open>Net_Driver\<close>: the channel to the network stack.

  \<^item> \<open>Rsn_Eapol\<close> (\<open>foa_sta/src/rsn_retransmit.rs\<close>, \<open>rsn_initial.rs\<close>, \<open>rsn_group.rs\<close>): the envelope and the
    messages of the handshakes, the replay counter of message 3, the CCMP framing of group messages
    and its round trip. \<open>Rsn\<close> (\<open>rsn.rs\<close>): keys, packet numbers, replay counters (both interpret
    \<open>replay_guard\<close>) and group keys, which are never installed again.

  \<^item> \<open>Sta_Bss\<close> (\<open>bss.rs\<close>, \<open>operations/scan.rs\<close>), \<open>Sta_State\<close> (\<open>connection_state.rs\<close>, \<open>rx_router.rs\<close>, \<open>lib.rs\<close>),
    \<open>Sta_Connect\<close> (\<open>operations/connect.rs\<close>), \<open>Sta_Control\<close> (\<open>control.rs\<close>), \<open>Sta_Runner\<close> (\<open>runner.rs\<close>): the
    station. \<open>sta_tx_rx\<close> is \<open>StaTxRx\<close> with the part of the lower MAC it reaches and the list of frames
    it sent; \<open>sta_env\<close> holds the parameters. An attempt to connect either leaves a complete
    connection with keys of an authenticated handshake, or nothing.

  \<^item> \<open>Sta_Run\<close>, \<open>Sta_Traffic\<close>, \<open>Sta_Link\<close>: the runs of a station. \<open>station_round\<close> is one round of a runner
    or a call that keeps the keys, \<open>station_run\<close> adds connections, scans and the other interfaces,
    \<open>sta_system\<close> adds the outer loops of the runners and the network stack. Well-formedness at all
    times, increasing packet numbers, no replayed data, only authentic messages answered, the exact
    beacon timeout, and a link that follows the control.

  \<^item> \<open>Handshake_Probe\<close> (\<open>foa_sta/src/handshake_probe.rs\<close>) and \<open>Sta_Probe\<close> (\<open>runner.rs\<close> with
    \<open>handshake-probe\<close>): the flight recorder, whose ring refines an unbounded log, and the routing that
    feeds it, which it does not disturb.

  \<^item> \<open>Awdl_Peer\<close> (\<open>foa_awdl/src/peer.rs\<close>), \<open>Awdl_Cache\<close> (\<open>peer_cache.rs\<close>, locale \<open>peer_cache_contract\<close>),
    \<open>Awdl_State\<close> (\<open>state.rs\<close>, handlers), \<open>Awdl_Link\<close> (\<open>runner/\<close>), \<open>Awdl_Interface\<close> (\<open>control.rs\<close>, \<open>lib.rs\<close>,
    \<open>runner/mod.rs\<close>): overlap of channel sequences, election, sessions, the three session runners with
    neighbour injection, and the interface as a whole, which refines the runs of its shared state.

  \<^item> This theory: how the buffer pool and the transmit queue fit together.

  \<^bold>\<open>How code becomes definitions.\<close> A struct is a record, an enum a datatype, an integer a word where
  its width matters; pointers into pools are indices. A panic, an error and an early return are
  values. An asynchronous function that awaits is a function of what the awaited futures deliver:
  the frames on the air, the completion of a transmission, the clock are arguments, and \<open>None\<close> is a
  call that has not returned. Guards that are dropped on an early return are explicit. Background
  loops are modelled one round or one poll at a time, and the interleavings are inductive relations
  over the rounds of all parties. Only the inner loop of the TX runner and the continuous scan may
  run for ever inside one operation: they are partial functions of which \<open>None\<close> means not to return;
  the first one is shown to return, the second one not to. There is no fuel.

  \<^bold>\<open>Parameters and their hypotheses.\<close> Code of other packages is a parameter, with its documented
  behaviour as a hypothesis of the theorems that need it: \<open>fifo_channel\<close>, \<open>signal_laws\<close>,
  \<open>value_signal_laws\<close> and \<open>watch_laws\<close> for the synchronisation primitives, \<open>channel_driver\<close>, \<open>crypto_laws\<close>,
  \<open>bit_macros\<close>, \<open>filter_laws\<close> and \<open>driver_split_ok\<close> for the driver, \<open>net_laws\<close> and \<open>link_laws\<close> for the network
  stack, \<open>ethernet_laws\<close>, \<open>data_codec_laws\<close>, \<open>action_codec_ok\<close> and \<open>ccmp_codec\<close> for the frame codecs,
  \<open>index_map_laws\<close> and \<open>fnv_map_laws\<close> for the fixed-size maps; \<open>sta_env_ok\<close> collects those of a station.
  Every one of them has a concrete instance that the witnesses use. The MIC, the key wrap and CCMP
  are functions of the parameters: that they are cryptographically strong is not claimed.
  Configuration constants (numbers of buffers, queue lengths, interfaces) are parameters.

  \<^bold>\<open>Not modelled.\<close> The HEX display and all log, trace and \<open>defmt\<close> output; the build scripts, which only
  set the configuration; the host tests and the example programs; the lifetime casts and the
  critical sections, which are atomic steps here; the phase marks that the connection setup gives to
  the flight recorder; timing inside the driver and the radio.
\<close>

section \<open>Properties across components\<close>

text \<open>
  C33: the assertion in \<open>enqueue_frame\<close> cannot fail on buffers of the pool. A caller that owns
  a buffer from the pool of \<open>N\<close> buffers, which is therefore neither in the queue nor with the
  radio, always finds room in the queue.
\<close>

theorem pool_buffer_finds_room:
  assumes "0 < N" "txq_reach N s" "fifo_channel N view ch" "tx_pool_run ch N outs m"
    and "set_mset (queue_buffers (queue s) + inflight_buffers (inflight s)) \<subseteq> outs"
    and "size (queue_buffers (queue s) + inflight_buffers (inflight s)) =
      card (set_mset (queue_buffers (queue s) + inflight_buffers (inflight s)))"
    and "frame f \<in> outs" "frame f \<notin># queue_buffers (queue s) + inflight_buffers (inflight s)"
    and "counter (queue s) < 2 ^ 64 - 1"
  shows "\<exists>c q eff. enqueue_frame N f (queue s) = Inr (c, q, eff)"
proof -
  let ?B = "queue_buffers (queue s) + inflight_buffers (inflight s)"
  have inv: "txq_inv N s" by (rule txq_reach_inv [OF assms(2,1)])
  have outs: "finite outs" "card outs \<le> N"
    using tx_pool_partition(2,3) [OF assms(3,4)] by (auto intro: finite_subset)
  have "set_mset ?B \<subset> outs" using assms(5,7,8) by blast
  then have "size ?B < N" using assms(6) outs psubset_card_mono [of outs "set_mset ?B"] by simp
  then have "queue_len N (queue s) < N" using queue_len_le_buffers [OF inv] by simp
  then have "0 < capacity (queue s)" using txq_invD(2) [OF inv] by (simp add: queue_len_def)
  then show ?thesis using enqueue_frame_ok [of "queue s" N f] assms(9) by fastforce
qed

theorem pool_buffer_finds_room_witness:
  "\<exists>c q eff. enqueue_frame 1 (sample_frame 0) (TxQueueState_new 1 :: (nat, unit, unit) tx_queue_state) = Inr (c, q, eff)"
proof -
  let ?m = "TxBufferManager_new (list_channel 1) (replicate 1 (replicate TX_BUFFER_SIZE 0))"
  have "try_alloc (list_channel 1) ?m = Some (0, ?m\<lparr>buffer_queue := []\<rparr>)"
    by (simp add: try_alloc_def TxBufferManager_new_def list_channel_def)
  from pool_alloc [OF pool_start this]
  have m: "tx_pool_run (list_channel 1) 1 {0} (?m\<lparr>buffer_queue := []\<rparr>)" .
  have s: "txq_reach 1 (txq_init 1 :: (nat, unit, unit) txq_sys)" by (rule reach_init)
  show ?thesis
    using pool_buffer_finds_room [OF _ s list_channel_fifo m, of "sample_frame 0"]
    by (simp add: txq_init_def TxQueueState_new_def queue_buffers_def inflight_buffers_def sample_frame_def)
qed

end
